(* ===== verification/Prelude.thy ===== *)
theory Prelude
  imports Main "HOL-Library.AList" "HOL-Library.Word"
begin

text \<open>
  Shared vocabulary of the development: the result type that stands for Rust's
  \<^verbatim>\<open>Result\<close>, the clock types, and hash maps.

  A \<^verbatim>\<open>HashMap\<close> is an association list handled only through the operations below.
  The locale \<open>hash_map\<close> states the contract of those operations that the
  components rely on; it is interpreted on the association-list operations at the
  end of this theory, and the facts of that interpretation feed the component proofs
  through the collection \<open>hash_map_simps\<close>.
\<close>

named_theorems hash_map_simps
  \<open>lookup laws of the hash-map operations\<close>
named_theorems op_defs
  \<open>definitions of the small, non-recursive operations\<close>

section \<open>Results\<close>

datatype ('a, 'e) result = Ok 'a | Err 'e

primrec and_then :: "('a, 'e) result \<Rightarrow> ('a \<Rightarrow> ('b, 'e) result) \<Rightarrow> ('b, 'e) result" where
  "and_then (Ok a) f = f a"
| "and_then (Err e) f = Err e"

primrec is_ok :: "('a, 'e) result \<Rightarrow> bool" where
  "is_ok (Ok a) = True"
| "is_ok (Err e) = False"

text \<open>An early return: \<open>ensure c e\<close> continues when the condition holds and fails with
  \<open>e\<close> otherwise.\<close>

definition ensure :: "bool \<Rightarrow> 'e \<Rightarrow> (unit, 'e) result" where
  "ensure c e = (if c then Ok () else Err e)"

text \<open>A loop whose body may return early with an error.\<close>

fun try_each :: "('a \<Rightarrow> (unit, 'e) result) \<Rightarrow> 'a list \<Rightarrow> (unit, 'e) result" where
  "try_each f [] = Ok ()"
| "try_each f (x # xs) = and_then (f x) (\<lambda>_. try_each f xs)"

text \<open>Collecting an iterator of results into a result of a list: the first error wins.\<close>

fun collect_results :: "('a \<Rightarrow> ('b, 'e) result) \<Rightarrow> 'a list \<Rightarrow> ('b list, 'e) result" where
  "collect_results f [] = Ok []"
| "collect_results f (x # xs) =
     and_then (f x) (\<lambda>y. and_then (collect_results f xs) (\<lambda>ys. Ok (y # ys)))"

lemma and_then_ok_iff [simp]:
  "and_then r f = Ok b \<longleftrightarrow> (\<exists>a. r = Ok a \<and> f a = Ok b)"
  by (cases r) auto

lemma and_then_err_iff:
  "and_then r f = Err e \<longleftrightarrow> r = Err e \<or> (\<exists>a. r = Ok a \<and> f a = Err e)"
  by (cases r) auto

lemma ensure_ok_iff [simp]: "ensure c e = Ok u \<longleftrightarrow> c"
  by (simp add: ensure_def)

lemma ensure_err_iff [simp]: "ensure c e = Err e' \<longleftrightarrow> \<not> c \<and> e' = e"
  by (auto simp add: ensure_def)

lemma is_ok_iff: "is_ok r \<longleftrightarrow> (\<exists>a. r = Ok a)"
  by (cases r) auto

lemma try_each_ok_iff [simp]: "try_each f xs = Ok u \<longleftrightarrow> (\<forall>x \<in> set xs. f x = Ok ())"
  by (induction xs) auto

lemma collect_results_ok_iff:
  "collect_results f xs = Ok ys \<longleftrightarrow> list_all2 (\<lambda>x y. f x = Ok y) xs ys"
  by (induction xs arbitrary: ys) (auto simp: list_all2_Cons1)

lemma all_Suc_less_Suc:
  "(\<forall>i. i < m \<longrightarrow> P i) \<longleftrightarrow> (0 < m \<longrightarrow> P 0) \<and> (\<forall>i. Suc i < m \<longrightarrow> P (Suc i))"
  by (metis not0_implies_Suc not_gr_zero)

section \<open>Clocks\<close>

text \<open>An \<^verbatim>\<open>Instant\<close> of the monotonic clock and a \<^verbatim>\<open>Duration\<close>, both in nanoseconds.\<close>

type_synonym instant = nat
type_synonym duration = nat

definition from_millis :: "nat \<Rightarrow> duration" where
  "from_millis ms = ms * 1000000"

definition checked_duration_since :: "instant \<Rightarrow> instant \<Rightarrow> duration option" where
  "checked_duration_since now earlier = (if earlier \<le> now then Some (now - earlier) else None)"

section \<open>Saturating and checked arithmetic on machine words\<close>

text \<open>An unsigned sum has wrapped around exactly when it is below a summand.\<close>

definition saturating_add :: "'a::len word \<Rightarrow> 'a word \<Rightarrow> 'a word" where
  "saturating_add a b = (if a \<le> a + b then a + b else - 1)"

definition checked_add :: "'a::len word \<Rightarrow> 'a word \<Rightarrow> 'a word option" where
  "checked_add a b = (if a \<le> a + b then Some (a + b) else None)"

lemma unat_saturating_add:
  "unat (saturating_add a b) = min (unat a + unat b) (2 ^ LENGTH('a) - 1)"
  for a b :: "'a::len word"
proof (cases "unat a + unat b < 2 ^ LENGTH('a)")
  case True
  then have "unat (a + b) = unat a + unat b"
    by (simp add: unat_word_ariths)
  with True show ?thesis
    by (simp add: saturating_add_def no_olen_add_nat)
next
  case False
  then show ?thesis
    by (simp add: saturating_add_def no_olen_add_nat unsigned_minus_1_eq_mask mask_eq_exp_minus_1)
qed

lemma checked_add_Some_iff:
  "checked_add a b = Some c \<longleftrightarrow> unat a + unat b < 2 ^ LENGTH('a) \<and> c = a + b"
  for a b :: "'a::len word"
  by (auto simp: checked_add_def no_olen_add_nat)

lemma checked_add_one_Some:
  "checked_add g 1 = Some g' \<Longrightarrow> unat g' = Suc (unat g)" for g :: "'a::len word"
  by (auto simp: checked_add_Some_iff unat_word_ariths)

lemma checked_add_one_less:
  "checked_add g 1 = Some g' \<Longrightarrow> g < g'" for g :: "'a::len word"
  by (simp add: checked_add_one_Some word_less_nat_alt)

section \<open>Hash maps\<close>

type_synonym ('k, 'v) hashmap = "('k \<times> 'v) list"

definition hm_get :: "('k, 'v) hashmap \<Rightarrow> 'k \<Rightarrow> 'v option" where
  "hm_get m k = map_of m k"

definition hm_insert :: "'k \<Rightarrow> 'v \<Rightarrow> ('k, 'v) hashmap \<Rightarrow> ('k, 'v) hashmap" where
  "hm_insert k v m = AList.update k v m"

definition hm_remove :: "'k \<Rightarrow> ('k, 'v) hashmap \<Rightarrow> ('k, 'v) hashmap" where
  "hm_remove k m = AList.delete k m"

text \<open>Every use of \<^verbatim>\<open>HashMap::retain\<close> in the sources selects by key.\<close>

definition hm_retain :: "('k \<Rightarrow> bool) \<Rightarrow> ('k, 'v) hashmap \<Rightarrow> ('k, 'v) hashmap" where
  "hm_retain P m = filter (\<lambda>(k, v). P k) m"

definition hm_map_values :: "('v \<Rightarrow> 'v) \<Rightarrow> ('k, 'v) hashmap \<Rightarrow> ('k, 'v) hashmap" where
  "hm_map_values f m = map (\<lambda>(k, v). (k, f v)) m"

definition hm_any :: "('k \<Rightarrow> 'v \<Rightarrow> bool) \<Rightarrow> ('k, 'v) hashmap \<Rightarrow> bool" where
  "hm_any P m = list_ex (\<lambda>(k, v). P k v) m"

definition hm_is_empty :: "('k, 'v) hashmap \<Rightarrow> bool" where
  "hm_is_empty m = (m = [])"

definition hm_inv :: "('k, 'v) hashmap \<Rightarrow> bool" where
  "hm_inv m = distinct (map fst m)"

locale hash_map =
  fixes empty :: 'm
    and get :: "'m \<Rightarrow> 'k \<Rightarrow> 'v option"
    and insert :: "'k \<Rightarrow> 'v \<Rightarrow> 'm \<Rightarrow> 'm"
    and remove :: "'k \<Rightarrow> 'm \<Rightarrow> 'm"
    and retain :: "('k \<Rightarrow> bool) \<Rightarrow> 'm \<Rightarrow> 'm"
    and map_values :: "('v \<Rightarrow> 'v) \<Rightarrow> 'm \<Rightarrow> 'm"
    and any :: "('k \<Rightarrow> 'v \<Rightarrow> bool) \<Rightarrow> 'm \<Rightarrow> bool"
    and is_empty :: "'m \<Rightarrow> bool"
    and inv :: "'m \<Rightarrow> bool"
  assumes get_empty: "get empty k = None"
    and get_insert: "get (insert k v m) k' = (if k' = k then Some v else get m k')"
    and get_remove: "get (remove k m) k' = (if k' = k then None else get m k')"
    and get_retain: "get (retain P m) k = (if P k then get m k else None)"
    and get_map_values: "get (map_values f m) k = map_option f (get m k)"
    and any_iff: "inv m \<Longrightarrow> any Q m \<longleftrightarrow> (\<exists>k v. get m k = Some v \<and> Q k v)"
    and is_empty_iff: "is_empty m \<longleftrightarrow> get m = (\<lambda>_. None)"
    and inv_empty: "inv empty"
    and inv_insert: "inv m \<Longrightarrow> inv (insert k v m)"
    and inv_remove: "inv m \<Longrightarrow> inv (remove k m)"
    and inv_retain: "inv m \<Longrightarrow> inv (retain P m)"
    and inv_map_values: "inv m \<Longrightarrow> inv (map_values f m)"
begin

lemma not_empty_iff: "\<not> is_empty m \<longleftrightarrow> (\<exists>k v. get m k = Some v)"
  by (auto simp: is_empty_iff fun_eq_iff)

lemma insert_not_empty: "\<not> is_empty (insert k v m)"
  unfolding not_empty_iff by (rule exI [of _ k]) (simp add: get_insert)

lemma remove_empty: "is_empty m \<Longrightarrow> is_empty (remove k m)"
  by (simp add: is_empty_iff fun_eq_iff get_remove)

lemma get_remove_SomeD: "get (remove k m) k' = Some v \<Longrightarrow> get m k' = Some v"
  by (simp add: get_remove split: if_splits)

lemma get_retain_SomeD: "get (retain P m) k = Some v \<Longrightarrow> get m k = Some v \<and> P k"
  by (simp add: get_retain split: if_splits)

end

interpretation hm: hash_map "[] :: ('k, 'v) hashmap" hm_get hm_insert hm_remove hm_retain
  hm_map_values hm_any hm_is_empty hm_inv
proof unfold_locales
  fix P :: "'k \<Rightarrow> bool" and m :: "('k, 'v) hashmap" and k
  show "hm_get (hm_retain P m) k = (if P k then hm_get m k else None)"
    by (induction m) (auto simp: hm_get_def hm_retain_def)
next
  fix f :: "'v \<Rightarrow> 'v" and m :: "('k, 'v) hashmap" and k
  show "hm_get (hm_map_values f m) k = map_option f (hm_get m k)"
    by (simp add: hm_get_def hm_map_values_def map_of_map)
next
  fix m :: "('k, 'v) hashmap"
  show "hm_is_empty m \<longleftrightarrow> hm_get m = (\<lambda>_. None)"
    by (cases m) (auto simp: hm_is_empty_def hm_get_def fun_eq_iff)
next
  fix m :: "('k, 'v) hashmap" and P :: "'k \<Rightarrow> 'v \<Rightarrow> bool"
  assume "hm_inv m"
  then show "hm_any P m \<longleftrightarrow> (\<exists>k v. hm_get m k = Some v \<and> P k v)"
    by (auto simp: hm_any_def hm_get_def hm_inv_def list_ex_iff dest: map_of_SomeD)
next
  fix m :: "('k, 'v) hashmap" and P :: "'k \<Rightarrow> bool"
  assume "hm_inv m"
  then show "hm_inv (hm_retain P m)"
    by (induction m) (auto simp: hm_inv_def hm_retain_def)
qed (auto simp: hm_get_def hm_insert_def hm_remove_def hm_map_values_def hm_inv_def
      update_conv' delete_conv' distinct_update distinct_delete comp_def case_prod_beta)

lemmas hm_lookup [hash_map_simps] =
  hm.get_empty hm.get_insert hm.get_remove hm.get_retain hm.get_map_values

lemmas hm_inv_intros [intro] =
  hm.inv_empty hm.inv_insert hm.inv_remove hm.inv_retain hm.inv_map_values

lemmas hm_eval = hm_get_def hm_insert_def hm_remove_def hm_retain_def hm_map_values_def
  hm_any_def hm_is_empty_def

section \<open>Text\<close>

text \<open>Decimal rendering of a natural number, and strings as their UTF-8 bytes.\<close>

fun show_nat :: "nat \<Rightarrow> string" where
  "show_nat n = (if n < 10 then [char_of (48 + n)] else show_nat (n div 10) @ [char_of (48 + n mod 10)])"

declare show_nat.simps [simp del]

definition as_bytes :: "string \<Rightarrow> 8 word list" where
  "as_bytes s = map (\<lambda>c. of_nat (of_char c)) s"

definition string_of_bytes :: "8 word list \<Rightarrow> string" where
  "string_of_bytes bs = map (\<lambda>b. char_of (unat b)) bs"

lemma string_of_as_bytes [simp]: "string_of_bytes (as_bytes s) = s"
  by (induction s) (simp_all add: as_bytes_def string_of_bytes_def unat_of_nat)

lemma as_bytes_of_string [simp]: "as_bytes (string_of_bytes bs) = bs"
proof (induction bs)
  case (Cons b bs)
  have "of_nat (unat b mod 256) = b"
    using unsigned_less [of b, where ?'a = nat] by simp
  with Cons show ?case
    by (simp add: as_bytes_def string_of_bytes_def)
qed (simp add: as_bytes_def string_of_bytes_def)

lemma length_as_bytes [simp]: "length (as_bytes s) = length s"
  by (simp add: as_bytes_def)

lemma length_string_of_bytes [simp]: "length (string_of_bytes bs) = length bs"
  by (simp add: string_of_bytes_def)

end
