(* ===== verification/Event.thy ===== *)
theory Event
  imports Prelude
begin

unbundle bit_operations_syntax

text \<open>
  The normalized key events of \<^verbatim>\<open>packages/core/src/event.rs\<close>, the actions and the
  triggers. \<^verbatim>\<open>Modifiers\<close> is the 32-bit flag word the source declares, with the set
  operations it uses on it (\<open>contains\<close>, \<open>is_empty\<close>, difference) written bitwise.
\<close>

type_synonym device_id = "64 word"

datatype (plugins only: ) key_code =
    KeyA | KeyB | KeyC | KeyD | KeyE | KeyF | KeyG | KeyH | KeyI | KeyJ | KeyK | KeyL | KeyM
  | KeyN | KeyO | KeyP | KeyQ | KeyR | KeyS | KeyT | KeyU | KeyV | KeyW | KeyX | KeyY | KeyZ
  | Digit0 | Digit1 | Digit2 | Digit3 | Digit4 | Digit5 | Digit6 | Digit7 | Digit8 | Digit9
  | F1 | F2 | F3 | F4 | F5 | F6 | F7 | F8 | F9 | F10 | F11 | F12
  | F13 | F14 | F15 | F16 | F17 | F18 | F19 | F20 | F21 | F22 | F23 | F24
  | ArrowUp | ArrowDown | ArrowLeft | ArrowRight
  | LeftShift | RightShift | LeftCtrl | RightCtrl | LeftAlt | RightAlt | LeftCmd | RightCmd
  | Fn | CapsLock
  | Return | Tab | Space | Backspace | Delete | Escape
  | Semicolon | Quote | Comma | Period | Slash | Backslash | Backquote | Minus | Equal
  | LeftBracket | RightBracket
  | Home | End | PageUp | PageDown | Insert

datatype event_kind = KeyDown | KeyUp | ModifiersChanged

type_synonym modifiers = "32 word"

definition CTRL :: modifiers where "CTRL = push_bit 0 1"
definition SHIFT :: modifiers where "SHIFT = push_bit 1 1"
definition ALT :: modifiers where "ALT = push_bit 2 1"
definition CMD :: modifiers where "CMD = push_bit 3 1"
definition FN :: modifiers where "FN = push_bit 4 1"
definition LEFT_CTRL :: modifiers where "LEFT_CTRL = push_bit 8 1"
definition RIGHT_CTRL :: modifiers where "RIGHT_CTRL = push_bit 9 1"
definition LEFT_SHIFT :: modifiers where "LEFT_SHIFT = push_bit 10 1"
definition RIGHT_SHIFT :: modifiers where "RIGHT_SHIFT = push_bit 11 1"
definition LEFT_ALT :: modifiers where "LEFT_ALT = push_bit 12 1"
definition RIGHT_ALT :: modifiers where "RIGHT_ALT = push_bit 13 1"
definition LEFT_CMD :: modifiers where "LEFT_CMD = push_bit 14 1"
definition RIGHT_CMD :: modifiers where "RIGHT_CMD = push_bit 15 1"

lemmas modifier_consts = CTRL_def SHIFT_def ALT_def CMD_def FN_def
  LEFT_CTRL_def RIGHT_CTRL_def LEFT_SHIFT_def RIGHT_SHIFT_def
  LEFT_ALT_def RIGHT_ALT_def LEFT_CMD_def RIGHT_CMD_def

definition mods_empty :: modifiers where "mods_empty = 0"

definition mods_contains :: "modifiers \<Rightarrow> modifiers \<Rightarrow> bool" where
  "mods_contains m required = (m AND required = required)"

definition mods_is_empty :: "modifiers \<Rightarrow> bool" where
  "mods_is_empty m = (m = 0)"

definition mods_difference :: "modifiers \<Rightarrow> modifiers \<Rightarrow> modifiers" where
  "mods_difference a b = a AND NOT b"

definition mods_matches :: "modifiers \<Rightarrow> modifiers \<Rightarrow> bool" where
  "mods_matches m required = mods_contains m required"

definition mods_any :: "modifiers \<Rightarrow> bool" where
  "mods_any m = (\<not> mods_is_empty m)"

section \<open>Key codes are executable\<close>

text \<open>A key code is represented by its position in the declaration, so that equality and case distinction on the codes
  take one code equation each.\<close>

definition key_codes :: "key_code list" where
  "key_codes =
     [KeyA, KeyB, KeyC, KeyD, KeyE, KeyF, KeyG, KeyH, KeyI, KeyJ, KeyK, KeyL, KeyM, KeyN, KeyO, KeyP, KeyQ, KeyR,
      KeyS, KeyT, KeyU, KeyV, KeyW, KeyX, KeyY, KeyZ, Digit0, Digit1, Digit2, Digit3, Digit4, Digit5, Digit6,
      Digit7, Digit8, Digit9, F1, F2, F3, F4, F5, F6, F7, F8, F9, F10, F11, F12, F13, F14, F15, F16, F17, F18, F19,
      F20, F21, F22, F23, F24, ArrowUp, ArrowDown, ArrowLeft, ArrowRight, LeftShift, RightShift, LeftCtrl,
      RightCtrl, LeftAlt, RightAlt, LeftCmd, RightCmd, Fn, CapsLock, Return, Tab, Space, Backspace, Delete, Escape,
      Semicolon, Quote, Comma, Period, Slash, Backslash, Backquote, Minus, Equal, LeftBracket, RightBracket, Home,
      End, PageUp, PageDown, Insert]"

definition key_index :: "key_code \<Rightarrow> nat" where
  "key_index c = length (takeWhile (\<lambda>k. k \<noteq> c) key_codes)"

definition key_at :: "nat \<Rightarrow> key_code" where
  "key_at i = key_codes ! i"

lemma key_codes_complete: "c \<in> set key_codes"
  by (cases c) (simp_all add: key_codes_def)

lemma nth_takeWhile_neq: "x \<in> set xs \<Longrightarrow> xs ! length (takeWhile (\<lambda>y. y \<noteq> x) xs) = x"
  by (induction xs) auto

lemma key_at_index [code abstype]: "key_at (key_index c) = c"
  unfolding key_at_def key_index_def by (rule nth_takeWhile_neq) (rule key_codes_complete)

lemma key_index_simps [code abstract]:
  "key_index KeyA = 0" "key_index KeyB = 1" "key_index KeyC = 2" "key_index KeyD = 3" "key_index KeyE = 4"
  "key_index KeyF = 5" "key_index KeyG = 6" "key_index KeyH = 7" "key_index KeyI = 8" "key_index KeyJ = 9"
  "key_index KeyK = 10" "key_index KeyL = 11" "key_index KeyM = 12" "key_index KeyN = 13" "key_index KeyO = 14"
  "key_index KeyP = 15" "key_index KeyQ = 16" "key_index KeyR = 17" "key_index KeyS = 18" "key_index KeyT = 19"
  "key_index KeyU = 20" "key_index KeyV = 21" "key_index KeyW = 22" "key_index KeyX = 23" "key_index KeyY = 24"
  "key_index KeyZ = 25" "key_index Digit0 = 26" "key_index Digit1 = 27" "key_index Digit2 = 28"
  "key_index Digit3 = 29" "key_index Digit4 = 30" "key_index Digit5 = 31" "key_index Digit6 = 32"
  "key_index Digit7 = 33" "key_index Digit8 = 34" "key_index Digit9 = 35" "key_index F1 = 36"
  "key_index F2 = 37" "key_index F3 = 38" "key_index F4 = 39" "key_index F5 = 40" "key_index F6 = 41"
  "key_index F7 = 42" "key_index F8 = 43" "key_index F9 = 44" "key_index F10 = 45" "key_index F11 = 46"
  "key_index F12 = 47" "key_index F13 = 48" "key_index F14 = 49" "key_index F15 = 50" "key_index F16 = 51"
  "key_index F17 = 52" "key_index F18 = 53" "key_index F19 = 54" "key_index F20 = 55" "key_index F21 = 56"
  "key_index F22 = 57" "key_index F23 = 58" "key_index F24 = 59" "key_index ArrowUp = 60"
  "key_index ArrowDown = 61" "key_index ArrowLeft = 62" "key_index ArrowRight = 63" "key_index LeftShift = 64"
  "key_index RightShift = 65" "key_index LeftCtrl = 66" "key_index RightCtrl = 67" "key_index LeftAlt = 68"
  "key_index RightAlt = 69" "key_index LeftCmd = 70" "key_index RightCmd = 71" "key_index Fn = 72"
  "key_index CapsLock = 73" "key_index Return = 74" "key_index Tab = 75" "key_index Space = 76"
  "key_index Backspace = 77" "key_index Delete = 78" "key_index Escape = 79" "key_index Semicolon = 80"
  "key_index Quote = 81" "key_index Comma = 82" "key_index Period = 83" "key_index Slash = 84"
  "key_index Backslash = 85" "key_index Backquote = 86" "key_index Minus = 87" "key_index Equal = 88"
  "key_index LeftBracket = 89" "key_index RightBracket = 90" "key_index Home = 91" "key_index End = 92"
  "key_index PageUp = 93" "key_index PageDown = 94" "key_index Insert = 95"
  by (simp_all add: key_index_def key_codes_def)

lemma case_key_code_nth [code]:
  "case_key_code f0 f1 f2 f3 f4 f5 f6 f7 f8 f9 f10 f11 f12 f13 f14 f15 f16 f17 f18 f19 f20 f21 f22 f23 f24 f25 f26 f27 f28 f29
     f30 f31 f32 f33 f34 f35 f36 f37 f38 f39 f40 f41 f42 f43 f44 f45 f46 f47 f48 f49 f50 f51 f52 f53 f54 f55 f56
     f57 f58 f59 f60 f61 f62 f63 f64 f65 f66 f67 f68 f69 f70 f71 f72 f73 f74 f75 f76 f77 f78 f79 f80 f81 f82 f83
     f84 f85 f86 f87 f88 f89 f90 f91 f92 f93 f94 f95 c =
     [f0, f1, f2, f3, f4, f5, f6, f7, f8, f9, f10, f11, f12, f13, f14, f15, f16, f17, f18, f19, f20, f21, f22, f23,
      f24, f25, f26, f27, f28, f29, f30, f31, f32, f33, f34, f35, f36, f37, f38, f39, f40, f41, f42, f43, f44, f45,
      f46, f47, f48, f49, f50, f51, f52, f53, f54, f55, f56, f57, f58, f59, f60, f61, f62, f63, f64, f65, f66, f67,
      f68, f69, f70, f71, f72, f73, f74, f75, f76, f77, f78, f79, f80, f81, f82, f83, f84, f85, f86, f87, f88, f89,
      f90, f91, f92, f93, f94, f95] ! key_index c"
  by (cases c) (simp_all add: key_index_simps)

instantiation key_code :: equal
begin

definition equal_key_code :: "key_code \<Rightarrow> key_code \<Rightarrow> bool" where
  "equal_key_code a b \<longleftrightarrow> key_index a = key_index b"

instance
  by standard (metis equal_key_code_def key_at_index)

end

section \<open>Events\<close>

record key_event =
  code :: key_code
  kind :: event_kind
  mods :: modifiers

definition key_event :: "key_code \<Rightarrow> event_kind \<Rightarrow> modifiers \<Rightarrow> key_event" where
  "key_event c k m = \<lparr>code = c, kind = k, mods = m\<rparr>"

definition is_modifier :: "key_code \<Rightarrow> bool" where
  "is_modifier c = (case c of
      LeftShift \<Rightarrow> True | RightShift \<Rightarrow> True | LeftCtrl \<Rightarrow> True | RightCtrl \<Rightarrow> True
    | LeftAlt \<Rightarrow> True | RightAlt \<Rightarrow> True | LeftCmd \<Rightarrow> True | RightCmd \<Rightarrow> True
    | Fn \<Rightarrow> True | CapsLock \<Rightarrow> True | _ \<Rightarrow> False)"

definition modifier_bit :: "key_code \<Rightarrow> modifiers" where
  "modifier_bit c = (case c of
      LeftShift \<Rightarrow> LEFT_SHIFT | RightShift \<Rightarrow> RIGHT_SHIFT
    | LeftCtrl \<Rightarrow> LEFT_CTRL | RightCtrl \<Rightarrow> RIGHT_CTRL
    | LeftAlt \<Rightarrow> LEFT_ALT | RightAlt \<Rightarrow> RIGHT_ALT
    | LeftCmd \<Rightarrow> LEFT_CMD | RightCmd \<Rightarrow> RIGHT_CMD
    | Fn \<Rightarrow> FN | _ \<Rightarrow> mods_empty)"

section \<open>Actions and triggers\<close>

datatype action = SendKey key_code modifiers | SetInputSource string

record hotkey_trigger =
  hk_key :: key_code
  hk_mods :: modifiers

record tap_trigger =
  tt_tap :: key_code
  tt_count :: "32 word"
  tt_within_ms :: "32 word"

datatype trigger = Hotkey hotkey_trigger | Tap tap_trigger

section \<open>Facts\<close>

lemma modifier_bit_nonempty:
  "modifier_bit c \<noteq> mods_empty \<longleftrightarrow> is_modifier c \<and> c \<noteq> CapsLock"
  by (cases c) (simp_all add: modifier_bit_def is_modifier_def modifier_consts mods_empty_def)

text \<open>Containing one flag is having its bit.\<close>

lemma mods_contains_bit: "n < 32 \<Longrightarrow> mods_contains m (push_bit n 1) \<longleftrightarrow> bit m n"
  unfolding mods_contains_def
  by (auto simp: bit_eq_iff [where 'a = "32 word"] bit_and_iff bit_exp_iff)

text \<open>Side-specific flags come with their generic counterparts.\<close>

definition mods_lockstep :: "modifiers \<Rightarrow> bool" where
  "mods_lockstep m \<longleftrightarrow>
     (mods_contains m LEFT_CTRL \<or> mods_contains m RIGHT_CTRL \<longrightarrow> mods_contains m CTRL) \<and>
     (mods_contains m LEFT_SHIFT \<or> mods_contains m RIGHT_SHIFT \<longrightarrow> mods_contains m SHIFT) \<and>
     (mods_contains m LEFT_ALT \<or> mods_contains m RIGHT_ALT \<longrightarrow> mods_contains m ALT) \<and>
     (mods_contains m LEFT_CMD \<or> mods_contains m RIGHT_CMD \<longrightarrow> mods_contains m CMD)"

lemma mods_lockstep_bits:
  "mods_lockstep m \<longleftrightarrow>
     (bit m 8 \<or> bit m 9 \<longrightarrow> bit m 0) \<and> (bit m 10 \<or> bit m 11 \<longrightarrow> bit m 1) \<and>
     (bit m 12 \<or> bit m 13 \<longrightarrow> bit m 2) \<and> (bit m 14 \<or> bit m 15 \<longrightarrow> bit m 3)"
  unfolding mods_lockstep_def modifier_consts by (subst mods_contains_bit, simp)+ blast

lemma mods_lockstep_empty: "mods_lockstep mods_empty"
  by (simp add: mods_lockstep_bits mods_empty_def)

lemma mods_lockstep_or: "mods_lockstep a \<Longrightarrow> mods_lockstep b \<Longrightarrow> mods_lockstep (a OR b)"
  by (auto simp: mods_lockstep_bits bit_or_iff)

end
