(* ===== verification/Tap_Fsm.thy ===== *)
theory Tap_Fsm
  imports Event
begin

text \<open>
  The modifier-tap state machine of \<^verbatim>\<open>packages/core/src/tap_fsm.rs\<close>. The first part
  translates the machine; the second gives the reference it implements, a history of
  clean tap releases and the length of its newest chain, and proves that the machine
  with its hash map of counters simulates that reference.
\<close>

section \<open>The machine\<close>

record tap_state =
  ts_count :: "32 word"
  ts_last_tap_at :: "instant option"

record tap_fsm =
  tf_within :: duration
  tf_states :: "(key_code, tap_state) hashmap"
  tf_active_key :: "key_code option"
  tf_active_down_at :: "instant option"
  tf_active_tainted :: bool

datatype tap_result = TapNone | Tapped key_code "32 word"

definition tap_state_default :: tap_state where
  "tap_state_default = \<lparr>ts_count = 0, ts_last_tap_at = None\<rparr>"

definition with_window :: "duration \<Rightarrow> tap_fsm" where
  "with_window within = \<lparr>tf_within = within, tf_states = [], tf_active_key = None,
     tf_active_down_at = None, tf_active_tainted = False\<rparr>"

definition tap_fsm_default :: tap_fsm where
  "tap_fsm_default = with_window (from_millis 800)"

definition generic_bit :: "key_code \<Rightarrow> modifiers" where
  "generic_bit c = (case c of
      LeftShift \<Rightarrow> SHIFT | RightShift \<Rightarrow> SHIFT
    | LeftCtrl \<Rightarrow> CTRL | RightCtrl \<Rightarrow> CTRL
    | LeftAlt \<Rightarrow> ALT | RightAlt \<Rightarrow> ALT
    | LeftCmd \<Rightarrow> CMD | RightCmd \<Rightarrow> CMD
    | Fn \<Rightarrow> FN | _ \<Rightarrow> mods_empty)"

definition on_other_key :: "tap_fsm \<Rightarrow> tap_fsm" where
  "on_other_key fsm =
     (let fsm = (if tf_active_key fsm \<noteq> None then fsm\<lparr>tf_active_tainted := True\<rparr> else fsm)
      in fsm\<lparr>tf_states := []\<rparr>)"

definition count_tap :: "duration \<Rightarrow> tap_state \<Rightarrow> instant \<Rightarrow> tap_state" where
  "count_tap window state now =
     (let within = (case ts_last_tap_at state of
            None \<Rightarrow> False
          | Some previous \<Rightarrow>
              (case checked_duration_since now previous of
                 None \<Rightarrow> False
               | Some elapsed \<Rightarrow> elapsed \<le> window))
      in \<lparr>ts_count = (if within then saturating_add (ts_count state) 1 else 1),
          ts_last_tap_at = Some now\<rparr>)"

definition on_press ::
  "key_code \<Rightarrow> modifiers \<Rightarrow> instant \<Rightarrow> tap_fsm \<Rightarrow> tap_fsm \<times> tap_result" where
  "on_press key new_mods now fsm =
     (let other_mods =
        mods_difference (mods_difference new_mods (modifier_bit key)) (generic_bit key)
      in if mods_any other_mods
         then (fsm\<lparr>tf_states := [], tf_active_key := None, tf_active_down_at := None\<rparr>, TapNone)
         else
           let fsm = (case tf_active_key fsm of
                 None \<Rightarrow> fsm
               | Some active \<Rightarrow> if active \<noteq> key then on_other_key fsm else fsm)
           in (fsm\<lparr>tf_states := hm_retain (\<lambda>candidate. candidate = key) (tf_states fsm),
                   tf_active_key := Some key,
                   tf_active_down_at := Some now,
                   tf_active_tainted := False\<rparr>, TapNone))"

definition on_release :: "key_code \<Rightarrow> instant \<Rightarrow> tap_fsm \<Rightarrow> tap_fsm \<times> tap_result" where
  "on_release key now fsm =
     (if tf_active_key fsm = Some key \<and> \<not> tf_active_tainted fsm
      then
        let state = (case hm_get (tf_states fsm) key of
                       Some s \<Rightarrow> s | None \<Rightarrow> tap_state_default);
            state = count_tap (tf_within fsm) state now
        in (fsm\<lparr>tf_active_key := None, tf_active_down_at := None,
                tf_states := hm_insert key state (tf_states fsm)\<rparr>,
            Tapped key (ts_count state))
      else if tf_active_key fsm = Some key
      then (fsm\<lparr>tf_active_key := None, tf_active_down_at := None,
                tf_active_tainted := False\<rparr>, TapNone)
      else (fsm, TapNone))"

definition on_transition ::
  "key_code \<Rightarrow> bool \<Rightarrow> bool \<Rightarrow> modifiers \<Rightarrow> instant \<Rightarrow> tap_fsm \<Rightarrow> tap_fsm \<times> tap_result" where
  "on_transition key was_down down_now new_mods now fsm =
     (if \<not> was_down \<and> down_now then on_press key new_mods now fsm
      else if was_down \<and> \<not> down_now then on_release key now fsm
      else (fsm, TapNone))"

definition on_modifier_change ::
  "key_code \<Rightarrow> bool \<Rightarrow> modifiers \<Rightarrow> instant \<Rightarrow> tap_fsm \<Rightarrow> tap_fsm \<times> tap_result" where
  "on_modifier_change key was_down new_mods now fsm =
     (let bit = modifier_bit key
      in if mods_is_empty bit then (fsm, TapNone)
         else on_transition key was_down (mods_contains new_mods bit) new_mods now fsm)"

lemmas tap_op_defs = on_other_key_def on_press_def on_release_def on_transition_def Let_def

section \<open>The reference: histories of clean taps\<close>

text \<open>Release times are listed newest first. Two consecutive releases chain when the newer
  one is not before the older one and lies at most the window after it; \<open>streak\<close> is the
  length of the newest chain.\<close>

definition chained :: "duration \<Rightarrow> instant \<Rightarrow> instant \<Rightarrow> bool" where
  "chained w newer older = (older \<le> newer \<and> newer - older \<le> w)"

fun streak :: "duration \<Rightarrow> instant list \<Rightarrow> nat" where
  "streak w [] = 0"
| "streak w [t] = 1"
| "streak w (t # p # ts) = (if chained w t p then Suc (streak w (p # ts)) else 1)"

datatype tap_input =
    Transition key_code bool bool modifiers instant
  | OtherKey

text \<open>The reference state: the modifier press in progress with its taint, and the releases
  of the taps of one modifier that nothing has interrupted.\<close>

record tap_history =
  th_press :: "(key_code \<times> bool) option"
  th_taps :: "(key_code \<times> instant list) option"

definition foreign_mods :: "key_code \<Rightarrow> modifiers \<Rightarrow> bool" where
  "foreign_mods key m =
     mods_any (mods_difference (mods_difference m (modifier_bit key)) (generic_bit key))"

definition history_of :: "key_code \<Rightarrow> tap_history \<Rightarrow> instant list" where
  "history_of key h =
     (case th_taps h of Some (k, ts) \<Rightarrow> (if k = key then ts else []) | None \<Rightarrow> [])"

definition saturated :: "nat \<Rightarrow> 32 word" where
  "saturated n = word_of_nat (min n (2 ^ 32 - 1))"

fun history_step :: "duration \<Rightarrow> tap_input \<Rightarrow> tap_history \<Rightarrow> tap_history \<times> tap_result" where
  "history_step w OtherKey h =
     (h\<lparr>th_press := map_option (\<lambda>(k, _). (k, True)) (th_press h), th_taps := None\<rparr>, TapNone)"
| "history_step w (Transition key False True m now) h =
     (if foreign_mods key m then (\<lparr>th_press = None, th_taps = None\<rparr>, TapNone)
      else (\<lparr>th_press = Some (key, False),
             th_taps = (if (case th_press h of Some (k, _) \<Rightarrow> k = key | None \<Rightarrow> True)
                        then (case th_taps h of
                                Some (k, ts) \<Rightarrow> (if k = key then Some (k, ts) else None)
                              | None \<Rightarrow> None)
                        else None)\<rparr>, TapNone))"
| "history_step w (Transition key True False m now) h =
     (if th_press h = Some (key, False)
      then (\<lparr>th_press = None, th_taps = Some (key, now # history_of key h)\<rparr>,
            Tapped key (saturated (streak w (now # history_of key h))))
      else if th_press h = Some (key, True) then (h\<lparr>th_press := None\<rparr>, TapNone)
      else (h, TapNone))"
| "history_step w (Transition key _ _ m now) h = (h, TapNone)"

fun fsm_step :: "tap_input \<Rightarrow> tap_fsm \<Rightarrow> tap_fsm \<times> tap_result" where
  "fsm_step OtherKey fsm = (on_other_key fsm, TapNone)"
| "fsm_step (Transition key was_down down_now m now) fsm =
     on_transition key was_down down_now m now fsm"

fun run_fsm :: "tap_input list \<Rightarrow> tap_fsm \<Rightarrow> tap_result list" where
  "run_fsm [] fsm = []"
| "run_fsm (i # is) fsm = (case fsm_step i fsm of (fsm', r) \<Rightarrow> r # run_fsm is fsm')"

fun run_history :: "duration \<Rightarrow> tap_input list \<Rightarrow> tap_history \<Rightarrow> tap_result list" where
  "run_history w [] h = []"
| "run_history w (i # is) h = (case history_step w i h of (h', r) \<Rightarrow> r # run_history w is h')"

definition no_history :: tap_history where
  "no_history = \<lparr>th_press = None, th_taps = None\<rparr>"

section \<open>Chains\<close>

lemma streak_pos: "ts \<noteq> [] \<Longrightarrow> 0 < streak w ts"
  by (cases "(w, ts)" rule: streak.cases) auto

lemma streak_le_length: "streak w ts \<le> length ts"
  by (induction w ts rule: streak.induct) auto

lemma streak_ge_iff:
  assumes "0 < n"
  shows "n \<le> streak w ts \<longleftrightarrow>
    n \<le> length ts \<and> (\<forall>i. Suc i < n \<longrightarrow> chained w (ts ! i) (ts ! Suc i))"
  using assms
proof (induction w ts arbitrary: n rule: streak.induct)
  case (3 w t p ts)
  show ?case
  proof (cases "chained w t p \<and> 1 < n")
    case True
    then obtain m where n: "n = Suc m" "0 < m"
      by (cases n) auto
    have "(\<forall>i. Suc i < n \<longrightarrow> chained w ((t # p # ts) ! i) ((t # p # ts) ! Suc i)) \<longleftrightarrow>
        (\<forall>i. Suc i < m \<longrightarrow> chained w ((p # ts) ! i) ((p # ts) ! Suc i))"
      using True n all_Suc_less_Suc [of m "\<lambda>i. chained w ((t # p # ts) ! i) ((t # p # ts) ! Suc i)"] by simp
    with True n "3.IH" [of m] show ?thesis
      by simp
  next
    case False
    then show ?thesis
      using "3.prems" by (cases n) (auto intro: exI [of _ 0])
  qed
qed auto

section \<open>Simulation\<close>

text \<open>How a machine state represents a history. The hash map of counters holds at most the
  counter of the modifier whose history is kept, with the saturated length of its newest
  chain and its newest release.\<close>

definition represents :: "tap_fsm \<Rightarrow> tap_history \<Rightarrow> bool" where
  "represents fsm h \<longleftrightarrow>
     th_press h = map_option (\<lambda>k. (k, tf_active_tainted fsm)) (tf_active_key fsm) \<and>
     (tf_active_key fsm = None \<longleftrightarrow> tf_active_down_at fsm = None) \<and>
     (case th_taps h of
        None \<Rightarrow> tf_states fsm = []
      | Some (k, ts) \<Rightarrow> ts \<noteq> [] \<and>
          tf_states fsm = [(k, \<lparr>ts_count = saturated (streak (tf_within fsm) ts),
                                ts_last_tap_at = Some (hd ts)\<rparr>)] \<and>
          (\<forall>k' t. th_press h = Some (k', t) \<longrightarrow> k' = k))"

lemma saturated_Suc: "saturating_add (saturated n) 1 = saturated (Suc n)"
unfolding word_unat_eq_iff
proof -
  have u: "unat (saturated m) = min m (2 ^ 32 - 1)" for m
    by (simp add: saturated_def unat_of_nat min_def)
  show "unat (saturating_add (saturated n) 1) = unat (saturated (Suc n))"
    by (simp add: unat_saturating_add u)
qed

lemma saturated_one: "saturated (Suc 0) = 1"
  by (simp add: saturated_def)

lemma count_tap_first: "count_tap w tap_state_default now = \<lparr>ts_count = saturated (streak w [now]), ts_last_tap_at = Some now\<rparr>"
  by (simp add: count_tap_def tap_state_default_def saturated_one)

lemma count_tap_next:
  assumes "ts \<noteq> []"
  shows "count_tap w \<lparr>ts_count = saturated (streak w ts), ts_last_tap_at = Some (hd ts)\<rparr> now =
    \<lparr>ts_count = saturated (streak w (now # ts)), ts_last_tap_at = Some now\<rparr>"
  using assms
  by (cases ts)
    (auto simp: count_tap_def checked_duration_since_def chained_def saturated_Suc saturated_one)

lemma represents_other_key:
  "represents fsm h \<Longrightarrow> represents (on_other_key fsm) (fst (history_step w OtherKey h))"
  by (cases "tf_active_key fsm") (auto simp: represents_def tap_op_defs)

lemma represents_press:
  assumes "represents fsm h"
  shows "represents (fst (on_press key m now fsm)) (fst (history_step w (Transition key False True m now) h))"
proof (cases "foreign_mods key m")
  case True
  then show ?thesis
    by (simp add: represents_def on_press_def Let_def foreign_mods_def)
next
  case False
  have states: "hm_retain (\<lambda>c. c = key) (tf_states fsm) =
      (case th_taps h of Some (k, ts) \<Rightarrow> if k = key then tf_states fsm else [] | None \<Rightarrow> [])"
    using assms by (simp add: represents_def hm_retain_def split: option.splits prod.splits)
  from False assms show ?thesis
    by (simp add: represents_def on_press_def on_other_key_def Let_def foreign_mods_def states hm_retain_def
        split: option.splits prod.splits if_splits)
qed

lemma press_results:
  "snd (on_press key m now fsm) = TapNone"
  "snd (history_step w (Transition key False True m now) h) = TapNone"
  by (simp_all add: on_press_def Let_def)

lemma represents_release_clean:
  assumes "represents fsm h" and "tf_active_key fsm = Some key" and "\<not> tf_active_tainted fsm"
    and "ts = now # history_of key h"
  shows "on_release key now fsm =
    (fsm\<lparr>tf_active_key := None, tf_active_down_at := None,
         tf_states := [(key, \<lparr>ts_count = saturated (streak (tf_within fsm) ts), ts_last_tap_at = Some now\<rparr>)]\<rparr>,
     Tapped key (saturated (streak (tf_within fsm) ts)))"
  using assms
  by (cases "th_taps h")
    (auto simp: represents_def on_release_def Let_def history_of_def hm_get_def hm_insert_def
      count_tap_first count_tap_next)

lemma represents_release:
  assumes "represents fsm h"
  shows "represents (fst (on_release key now fsm))
      (fst (history_step (tf_within fsm) (Transition key True False m now) h)) \<and>
    snd (on_release key now fsm) =
      snd (history_step (tf_within fsm) (Transition key True False m now) h)"
proof (cases "tf_active_key fsm = Some key \<and> \<not> tf_active_tainted fsm")
  case True
  with assms have "th_press h = Some (key, False)"
    by (simp add: represents_def)
  with True show ?thesis
    using represents_release_clean [OF assms, of key _ now] by (simp add: represents_def)
next
  case False
  with assms have "th_press h \<noteq> Some (key, False)"
    by (auto simp: represents_def)
  with False assms show ?thesis
    by (auto simp: represents_def on_release_def split: option.splits)
qed

lemma on_transition_within [simp]: "tf_within (fst (fsm_step i fsm)) = tf_within fsm"
  by (cases i) (auto simp: tap_op_defs split: option.splits)

lemma step_simulation:
  assumes "represents fsm h"
  shows "represents (fst (fsm_step i fsm)) (fst (history_step (tf_within fsm) i h)) \<and>
    snd (fsm_step i fsm) = snd (history_step (tf_within fsm) i h)"
proof (cases i)
  case OtherKey
  with assms show ?thesis
    using represents_other_key by simp
next
  case (Transition key was_down down_now m now)
  with assms show ?thesis
    using represents_press [OF assms, of key m now] represents_release [OF assms, of key now m]
    by (cases was_down; cases down_now)
      (simp_all add: on_transition_def press_results del: history_step.simps(2,3))
qed

lemma run_simulation: "represents fsm h \<Longrightarrow> run_fsm is fsm = run_history (tf_within fsm) is h"
proof (induction "is" arbitrary: fsm h)
  case (Cons i "is")
  obtain fsm' r where f: "fsm_step i fsm = (fsm', r)" by fastforce
  obtain h' r' where h: "history_step (tf_within fsm) i h = (h', r')" by fastforce
  have "represents fsm' h'" "r = r'" "tf_within fsm' = tf_within fsm"
    using step_simulation [OF Cons.prems, of i] on_transition_within [of i fsm] by (simp_all add: f h)
  with Cons.IH [of fsm' h'] show ?case
    by (simp add: f h)
qed simp

lemma represents_initial: "represents (with_window w) no_history"
  by (simp add: represents_def with_window_def no_history_def)


section \<open>Properties\<close>

text \<open>C4: On every sequence of inputs the tap machine reports what the history of clean taps
  says: a release of an untainted press of a modifier is reported with the length of the newest
  chain of that modifier's uninterrupted taps, saturated at the counter's width, and nothing
  else is reported.\<close>

theorem fsm_refines_history: "run_fsm inputs (with_window w) = run_history w inputs no_history"
  using run_simulation [OF represents_initial, of inputs w] by (simp add: with_window_def)

text \<open>A run of clean taps of one modifier, each a press and a release time, oldest first.\<close>

definition clean_taps :: "key_code \<Rightarrow> (instant \<times> instant) list \<Rightarrow> tap_input list" where
  "clean_taps key ts = concat (map (\<lambda>(down, up).
     [Transition key False True (modifier_bit key) down, Transition key True False 0 up]) ts)"

lemma not_foreign_own: "\<not> foreign_mods key (modifier_bit key)"
  by (simp add: foreign_mods_def mods_difference_def mods_any_def mods_is_empty_def)

lemma run_history_clean:
  "th_press h = None \<Longrightarrow> history_of key h = ts0 \<Longrightarrow> (th_taps h = None \<or> (\<exists>ts. th_taps h = Some (key, ts))) \<Longrightarrow>
   run_history w (clean_taps key ts) h =
     concat (map (\<lambda>i. [TapNone, Tapped key (saturated (streak w (rev (take (Suc i) (map snd ts)) @ ts0)))])
       [0..<length ts])"
proof (induction ts arbitrary: h ts0)
  case (Cons t ts)
  obtain dn up where t: "t = (dn, up)" by fastforce
  let ?h = "\<lparr>th_press = None, th_taps = Some (key, up # ts0)\<rparr>"
  have "run_history w (clean_taps key (t # ts)) h =
      TapNone # Tapped key (saturated (streak w (up # ts0))) # run_history w (clean_taps key ts) ?h"
    using Cons.prems by (auto simp: t clean_taps_def not_foreign_own history_of_def)
  also have "run_history w (clean_taps key ts) ?h =
      concat (map (\<lambda>i. [TapNone, Tapped key (saturated (streak w (rev (take (Suc i) (map snd ts)) @ up # ts0)))])
        [0..<length ts])"
    by (rule Cons.IH) (simp_all add: history_of_def)
  finally show ?case
    by (simp add: t upt_conv_Cons map_Suc_upt [symmetric] comp_def del: upt_Suc)
qed (simp add: clean_taps_def)

text \<open>When one modifier is tapped cleanly over and over, the machine reports at the release
  of tap number \<open>i\<close> a count of at least \<open>n\<close>, for every \<open>n\<close> from 1 up to the counter's
  maximum, exactly when the last \<open>n\<close> releases exist and each followed its predecessor within
  the window.\<close>

lemma tap_count_characterised:
  assumes "i < length ts" and "0 < n" and "n < 2 ^ 32"
  shows "\<exists>c. run_fsm (clean_taps key ts) (with_window w) ! (2 * i + 1) = Tapped key c \<and>
    (n \<le> unat c \<longleftrightarrow> n \<le> Suc i \<and>
      (\<forall>j. Suc j < n \<longrightarrow> chained w (snd (ts ! (i - j))) (snd (ts ! (i - Suc j)))))"
proof -
  let ?ups = "rev (take (Suc i) (map snd ts))"
  let ?f = "\<lambda>i. [TapNone, Tapped key (saturated (streak w (rev (take (Suc i) (map snd ts)))))]"
  have run: "run_fsm (clean_taps key ts) (with_window w) = concat (map ?f [0..<length ts])"
    using run_simulation [OF represents_initial, of "clean_taps key ts" w]
      run_history_clean [of no_history key "[]" w ts]
    by (simp add: no_history_def history_of_def with_window_def)
  have nth: "concat (map ?f [0..<m]) ! (2 * i + 1) = Tapped key (saturated (streak w ?ups))" if "i < m" for m
    using that
  proof (induction m)
    case (Suc m)
    have "length (concat (map ?f [0..<m])) = 2 * m" by (induction m) simp_all
    with Suc show ?case by (cases "i = m") (simp_all add: nth_append)
  qed simp
  have "n \<le> unat (saturated k) \<longleftrightarrow> n \<le> k" for k
    using assms(3) by (simp add: saturated_def unat_of_nat)
  moreover have "n \<le> streak w ?ups \<longleftrightarrow> n \<le> Suc i \<and>
      (\<forall>j. Suc j < n \<longrightarrow> chained w (snd (ts ! (i - j))) (snd (ts ! (i - Suc j))))"
    using assms(1) by (auto simp: streak_ge_iff [OF assms(2)] rev_nth)
  ultimately show ?thesis
    using nth [OF assms(1)] run by simp
qed

end
