(* ===== verification/Matcher.thy ===== *)
theory Matcher
  imports Tap_Fsm
begin

text \<open>
  The rule engine of \<^verbatim>\<open>packages/core/src/rule.rs\<close>: compiled rule sets, the matcher's
  state, and every operation on it. A panic of the source (an impossible trigger in the
  tap list, or exhausted token generations) is the value \<open>None\<close>.
\<close>

section \<open>Rules and verdicts\<close>

record rule =
  r_trigger :: trigger
  r_action :: action
  r_when_app_in :: "string list option"

datatype verdict = Pass | Swallow | Replace action

record replacement_token =
  rt_device :: device_id
  rt_key :: key_code
  rt_generation :: "64 word"

datatype replacement_delivery = Delivered | RejectedOriginalForwarded | Uncertain

record rule_set =
  rs_hotkeys :: "rule list"
  rs_taps :: "rule list"

definition push_rule :: "rule \<Rightarrow> rule_set \<Rightarrow> rule_set" where
  "push_rule r rs = (case r_trigger r of
      Hotkey _ \<Rightarrow> rs\<lparr>rs_hotkeys := rs_hotkeys rs @ [r]\<rparr>
    | Tap _ \<Rightarrow> rs\<lparr>rs_taps := rs_taps rs @ [r]\<rparr>)"

definition rule_set_new :: "rule list \<Rightarrow> rule_set" where
  "rule_set_new rules = fold push_rule rules \<lparr>rs_hotkeys = [], rs_taps = []\<rparr>"

definition rule_set_len :: "rule_set \<Rightarrow> nat" where
  "rule_set_len rs = length (rs_hotkeys rs) + length (rs_taps rs)"

definition rule_set_is_empty :: "rule_set \<Rightarrow> bool" where
  "rule_set_is_empty rs = (rs_hotkeys rs = [] \<and> rs_taps rs = [])"

definition rule_set_iter :: "rule_set \<Rightarrow> rule list" where
  "rule_set_iter rs = rs_hotkeys rs @ rs_taps rs"

definition hotkey_matches :: "hotkey_trigger \<Rightarrow> key_event \<Rightarrow> bool" where
  "hotkey_matches trig evt =
     (kind evt = KeyDown \<and> code evt = hk_key trig \<and> mods_matches (mods evt) (hk_mods trig))"

definition scope_matches :: "rule \<Rightarrow> string option \<Rightarrow> bool" where
  "scope_matches rule focused_app = (case (r_when_app_in rule, focused_app) of
      (None, _) \<Rightarrow> True
    | (Some apps, Some app) \<Rightarrow> list_ex (\<lambda>a. a = app) apps
    | (Some _, None) \<Rightarrow> False)"

section \<open>The matcher\<close>

type_synonym press = "device_id \<times> key_code"

record matcher =
  m_rules :: rule_set
  m_tap_fsms :: "(device_id, tap_fsm list) hashmap"
  m_modifier_state :: "(press, bool) hashmap"
  m_swallowed_downs :: "press set"
  m_forwarded_downs :: "press set"
  m_pending_deliveries :: "(press, 64 word) hashmap"
  m_delivery_active :: bool
  m_delivery_generation :: "64 word"

definition matcher_new :: "rule_set \<Rightarrow> matcher" where
  "matcher_new rules = \<lparr>m_rules = rules, m_tap_fsms = [], m_modifier_state = [],
     m_swallowed_downs = {}, m_forwarded_downs = {}, m_pending_deliveries = [],
     m_delivery_active = False, m_delivery_generation = 0\<rparr>"

definition swap_rules :: "rule_set \<Rightarrow> matcher \<Rightarrow> matcher" where
  "swap_rules new_rules m = m\<lparr>m_rules := new_rules, m_tap_fsms := []\<rparr>"

definition refresh_delivery_active :: "matcher \<Rightarrow> matcher" where
  "refresh_delivery_active m = m\<lparr>m_delivery_active :=
     (\<not> hm_is_empty (m_pending_deliveries m) \<or> m_forwarded_downs m \<noteq> {})\<rparr>"

definition reconcile_delivery_event :: "press \<Rightarrow> event_kind \<Rightarrow> matcher \<Rightarrow> bool \<times> matcher" where
  "reconcile_delivery_event press ev_kind m =
     (let m = (if ev_kind \<noteq> KeyDown
                  \<or> press \<notin> m_swallowed_downs m \<and> press \<notin> m_forwarded_downs m
               then m\<lparr>m_pending_deliveries := hm_remove press (m_pending_deliveries m)\<rparr>
               else m);
          forwarded = (case ev_kind of
              KeyUp \<Rightarrow> press \<in> m_forwarded_downs m
            | KeyDown \<Rightarrow> press \<in> m_forwarded_downs m
            | ModifiersChanged \<Rightarrow> False);
          m = (case ev_kind of
              KeyUp \<Rightarrow> m\<lparr>m_forwarded_downs := m_forwarded_downs m - {press}\<rparr>
            | KeyDown \<Rightarrow> m
            | ModifiersChanged \<Rightarrow> m)
      in (forwarded, refresh_delivery_active m))"

definition tap_rule_fsm :: "rule \<Rightarrow> tap_fsm option" where
  "tap_rule_fsm rule = (case r_trigger rule of
      Tap trig \<Rightarrow> Some (with_window (from_millis (unat (tt_within_ms trig))))
    | Hotkey _ \<Rightarrow> None)"

definition new_tap_fsms :: "rule_set \<Rightarrow> tap_fsm list option" where
  "new_tap_fsms rules = those (map tap_rule_fsm (rs_taps rules))"

definition tap_rule_fires ::
  "rule \<Rightarrow> tap_result \<Rightarrow> string option \<Rightarrow> bool" where
  "tap_rule_fires rule result focused_app = (case (result, r_trigger rule) of
      (Tapped key cnt, Tap trig) \<Rightarrow>
        tt_tap trig = key \<and> tt_count trig = cnt \<and> scope_matches rule focused_app
    | _ \<Rightarrow> False)"

text \<open>The loop over the tap rules zipped with the device's machines: every machine is fed,
  the first rule that fires gives the action.\<close>

fun feed_taps ::
  "(tap_fsm \<Rightarrow> tap_fsm \<times> tap_result) \<Rightarrow> string option \<Rightarrow> rule list \<Rightarrow> tap_fsm list \<Rightarrow>
   action option \<Rightarrow> tap_fsm list \<times> action option" where
  "feed_taps step focused_app (rule # rules) (fsm # fsms) action =
     (let (fsm, result) = step fsm;
          action = (if action = None \<and> tap_rule_fires rule result focused_app
                    then Some (r_action rule) else action);
          (fsms, action) = feed_taps step focused_app rules fsms action
      in (fsm # fsms, action))"
| "feed_taps step focused_app _ fsms action = (fsms, action)"

definition hotkey_rule_fires :: "key_event \<Rightarrow> string option \<Rightarrow> rule \<Rightarrow> bool" where
  "hotkey_rule_fires event focused_app rule = (case r_trigger rule of
      Hotkey trig \<Rightarrow> hotkey_matches trig event \<and> scope_matches rule focused_app
    | Tap _ \<Rightarrow> False)"

definition dispatch_modifier ::
  "device_id \<Rightarrow> key_event \<Rightarrow> string option \<Rightarrow> instant \<Rightarrow> tap_fsm list \<Rightarrow> matcher \<Rightarrow>
   verdict \<times> matcher" where
  "dispatch_modifier device event focused_app now fsms m =
     (let press = (device, code event);
          was_down = (case hm_get (m_modifier_state m) press of Some d \<Rightarrow> d | None \<Rightarrow> False);
          bit = modifier_bit (code event)
      in if kind event = ModifiersChanged \<and> mods_is_empty bit then (Pass, m)
         else
           let down_now = (case kind event of
                  KeyDown \<Rightarrow> True
                | KeyUp \<Rightarrow> False
                | ModifiersChanged \<Rightarrow> mods_contains (mods event) bit);
               m = m\<lparr>m_modifier_state := hm_insert press down_now (m_modifier_state m)\<rparr>
           in if down_now \<and> \<not> was_down \<and>
                 hm_any (\<lambda>(id, key) down. id = device \<and> key \<noteq> code event \<and> down)
                   (m_modifier_state m)
              then (Pass, m\<lparr>m_tap_fsms :=
                      hm_insert device (map on_other_key fsms) (m_tap_fsms m)\<rparr>)
              else
                let (fsms, action) =
                      feed_taps (on_transition (code event) was_down down_now (mods event) now)
                        focused_app (rs_taps (m_rules m)) fsms None;
                    m = m\<lparr>m_tap_fsms := hm_insert device fsms (m_tap_fsms m)\<rparr>
                in (case action of Some a \<Rightarrow> Replace a | None \<Rightarrow> Pass, m))"

definition dispatch_key ::
  "device_id \<Rightarrow> key_event \<Rightarrow> string option \<Rightarrow> tap_fsm list \<Rightarrow> matcher \<Rightarrow> verdict \<times> matcher" where
  "dispatch_key device event focused_app fsms m =
     (if kind event = KeyDown
      then
        let m = m\<lparr>m_tap_fsms := hm_insert device (map on_other_key fsms) (m_tap_fsms m)\<rparr>
        in (case find (hotkey_rule_fires event focused_app) (rs_hotkeys (m_rules m)) of
              Some rule \<Rightarrow>
                (Replace (r_action rule),
                 m\<lparr>m_swallowed_downs := insert (device, code event) (m_swallowed_downs m)\<rparr>)
            | None \<Rightarrow> (Pass, m))
      else (Pass, m))"

text \<open>The part of \<^verbatim>\<open>dispatch_device\<close> after the delivery gate.\<close>

definition dispatch_owned ::
  "device_id \<Rightarrow> key_event \<Rightarrow> string option \<Rightarrow> instant \<Rightarrow> matcher \<Rightarrow> (verdict \<times> matcher) option" where
  "dispatch_owned device event focused_app now m =
     (let press = (device, code event)
      in if kind event = KeyUp \<and> press \<in> m_swallowed_downs m
         then Some (Swallow, m\<lparr>m_swallowed_downs := m_swallowed_downs m - {press}\<rparr>)
         else if kind event = KeyDown \<and> press \<in> m_swallowed_downs m
         then Some (Swallow, m)
         else
           case (case hm_get (m_tap_fsms m) device of
                   Some fsms \<Rightarrow> Some fsms | None \<Rightarrow> new_tap_fsms (m_rules m)) of
             None \<Rightarrow> None
           | Some fsms \<Rightarrow>
               (let m = m\<lparr>m_tap_fsms := hm_insert device fsms (m_tap_fsms m)\<rparr>
                in if is_modifier (code event)
                   then Some (dispatch_modifier device event focused_app now fsms m)
                   else Some (dispatch_key device event focused_app fsms m)))"

definition dispatch_device ::
  "device_id \<Rightarrow> key_event \<Rightarrow> string option \<Rightarrow> instant \<Rightarrow> matcher \<Rightarrow> (verdict \<times> matcher) option" where
  "dispatch_device device event focused_app now m =
     (let (forwarded, m) = (if m_delivery_active m
              then reconcile_delivery_event (device, code event) (kind event) m
              else (False, m))
      in if forwarded then Some (Pass, m)
         else dispatch_owned device event focused_app now m)"

definition dispatch ::
  "key_event \<Rightarrow> string option \<Rightarrow> instant \<Rightarrow> matcher \<Rightarrow> (verdict \<times> matcher) option" where
  "dispatch event focused_app now m = dispatch_device 0 event focused_app now m"

definition dispatch_device_with_delivery ::
  "device_id \<Rightarrow> key_event \<Rightarrow> string option \<Rightarrow> instant \<Rightarrow> matcher \<Rightarrow>
   ((verdict \<times> replacement_token option) \<times> matcher) option" where
  "dispatch_device_with_delivery device event focused_app now m =
     (case dispatch_device device event focused_app now m of
        None \<Rightarrow> None
      | Some (verdict, m) \<Rightarrow>
          (case verdict of
             Replace _ \<Rightarrow>
               (case checked_add (m_delivery_generation m) 1 of
                  None \<Rightarrow> None
                | Some gen \<Rightarrow>
                    Some ((verdict, Some \<lparr>rt_device = device, rt_key = code event,
                                          rt_generation = gen\<rparr>),
                          m\<lparr>m_delivery_generation := gen,
                            m_pending_deliveries :=
                              hm_insert (device, code event) gen (m_pending_deliveries m),
                            m_delivery_active := True\<rparr>))
           | _ \<Rightarrow> Some ((verdict, None), m)))"

definition token_press :: "replacement_token \<Rightarrow> press" where
  "token_press token = (rt_device token, rt_key token)"

definition report_delivery ::
  "replacement_token \<Rightarrow> replacement_delivery \<Rightarrow> matcher \<Rightarrow> bool \<times> matcher" where
  "report_delivery token delivery m =
     (let press = token_press token
      in if hm_get (m_pending_deliveries m) press \<noteq> Some (rt_generation token)
         then (False, m)
         else
           let m = m\<lparr>m_pending_deliveries := hm_remove press (m_pending_deliveries m)\<rparr>;
               m = (if delivery = RejectedOriginalForwarded \<and> press \<in> m_swallowed_downs m
                    then m\<lparr>m_swallowed_downs := m_swallowed_downs m - {press},
                           m_forwarded_downs := insert press (m_forwarded_downs m)\<rparr>
                    else m)
           in (True, refresh_delivery_active m))"

definition invalidate_speculation :: "matcher \<Rightarrow> matcher" where
  "invalidate_speculation m =
     refresh_delivery_active (m\<lparr>m_tap_fsms := [], m_pending_deliveries := []\<rparr>)"

definition disqualify_taps :: "matcher \<Rightarrow> matcher" where
  "disqualify_taps m = m\<lparr>m_tap_fsms := hm_map_values (map on_other_key) (m_tap_fsms m)\<rparr>"

definition settle_device_event :: "device_id \<Rightarrow> key_event \<Rightarrow> matcher \<Rightarrow> matcher" where
  "settle_device_event device event m =
     (if kind event \<noteq> KeyUp then m
      else
        let press = (device, code event)
        in refresh_delivery_active (m\<lparr>
             m_swallowed_downs := m_swallowed_downs m - {press},
             m_forwarded_downs := m_forwarded_downs m - {press},
             m_pending_deliveries := hm_remove press (m_pending_deliveries m),
             m_modifier_state := hm_remove press (m_modifier_state m),
             m_tap_fsms := hm_remove device (m_tap_fsms m)\<rparr>))"

definition reset_device :: "device_id \<Rightarrow> matcher \<Rightarrow> matcher" where
  "reset_device device m =
     refresh_delivery_active (m\<lparr>
       m_tap_fsms := hm_remove device (m_tap_fsms m),
       m_modifier_state := hm_retain (\<lambda>(id, _). id \<noteq> device) (m_modifier_state m),
       m_swallowed_downs := {p \<in> m_swallowed_downs m. fst p \<noteq> device},
       m_forwarded_downs := {p \<in> m_forwarded_downs m. fst p \<noteq> device},
       m_pending_deliveries := hm_retain (\<lambda>(id, _). id \<noteq> device) (m_pending_deliveries m)\<rparr>)"

definition matcher_reset :: "matcher \<Rightarrow> matcher" where
  "matcher_reset m = m\<lparr>m_tap_fsms := [], m_modifier_state := [], m_swallowed_downs := {},
     m_forwarded_downs := {}, m_pending_deliveries := [], m_delivery_active := False\<rparr>"

section \<open>Rule sets\<close>

definition is_hotkey_rule :: "rule \<Rightarrow> bool" where
  "is_hotkey_rule r = (case r_trigger r of Hotkey _ \<Rightarrow> True | Tap _ \<Rightarrow> False)"

definition rule_set_wf :: "rule_set \<Rightarrow> bool" where
  "rule_set_wf rs \<longleftrightarrow>
     list_all is_hotkey_rule (rs_hotkeys rs) \<and> list_all (\<lambda>r. \<not> is_hotkey_rule r) (rs_taps rs)"

definition rule_window :: "rule \<Rightarrow> duration" where
  "rule_window r = (case r_trigger r of
      Tap trig \<Rightarrow> from_millis (unat (tt_within_ms trig)) | Hotkey _ \<Rightarrow> 0)"

lemma fold_push_rule:
  "fold push_rule rules rs =
     \<lparr>rs_hotkeys = rs_hotkeys rs @ filter is_hotkey_rule rules,
      rs_taps = rs_taps rs @ filter (\<lambda>r. \<not> is_hotkey_rule r) rules\<rparr>"
  by (induction rules arbitrary: rs)
    (simp_all add: push_rule_def is_hotkey_rule_def split: trigger.splits)

lemma rule_set_new_filter:
  "rule_set_new rules = \<lparr>rs_hotkeys = filter is_hotkey_rule rules,
     rs_taps = filter (\<lambda>r. \<not> is_hotkey_rule r) rules\<rparr>"
  by (simp add: rule_set_new_def fold_push_rule)

lemma rule_set_new_wf: "rule_set_wf (rule_set_new rules)"
  by (simp add: rule_set_wf_def rule_set_new_filter list_all_iff)

lemma those_map_Some: "(\<And>x. x \<in> set xs \<Longrightarrow> f x = Some (g x)) \<Longrightarrow> those (map f xs) = Some (map g xs)"
  by (induction xs) auto

lemma new_tap_fsms_wf:
  "rule_set_wf rs \<Longrightarrow> new_tap_fsms rs = Some (map (\<lambda>r. with_window (rule_window r)) (rs_taps rs))"
  unfolding new_tap_fsms_def
  by (rule those_map_Some)
    (auto simp: rule_set_wf_def list_all_iff tap_rule_fsm_def is_hotkey_rule_def rule_window_def
      split: trigger.splits)

section \<open>The matcher invariant\<close>

text \<open>Each device has one machine per tap rule, with that rule's window.\<close>

definition fsms_ok :: "matcher \<Rightarrow> bool" where
  "fsms_ok m \<longleftrightarrow> rule_set_wf (m_rules m) \<and> hm_inv (m_tap_fsms m) \<and> hm_inv (m_modifier_state m) \<and>
     (\<forall>d fsms. hm_get (m_tap_fsms m) d = Some fsms \<longrightarrow>
        map tf_within fsms = map rule_window (rs_taps (m_rules m)))"

text \<open>A press is consumed or forwarded, never both, and only ordinary keys are either.\<close>

definition ownership_ok :: "matcher \<Rightarrow> bool" where
  "ownership_ok m \<longleftrightarrow> m_swallowed_downs m \<inter> m_forwarded_downs m = {} \<and>
     (\<forall>p \<in> m_swallowed_downs m \<union> m_forwarded_downs m. \<not> is_modifier (snd p))"

text \<open>The cached flag is exact; pending generations have been issued, are distinct, and never
  belong to a forwarded press.\<close>

definition delivery_ok :: "matcher \<Rightarrow> bool" where
  "delivery_ok m \<longleftrightarrow> hm_inv (m_pending_deliveries m) \<and>
     (m_delivery_active m \<longleftrightarrow>
        \<not> hm_is_empty (m_pending_deliveries m) \<or> m_forwarded_downs m \<noteq> {}) \<and>
     (\<forall>p g. hm_get (m_pending_deliveries m) p = Some g \<longrightarrow>
        g \<le> m_delivery_generation m \<and> p \<notin> m_forwarded_downs m) \<and>
     (\<forall>p q g. hm_get (m_pending_deliveries m) p = Some g \<longrightarrow>
        hm_get (m_pending_deliveries m) q = Some g \<longrightarrow> p = q)"

definition matcher_inv :: "matcher \<Rightarrow> bool" where
  "matcher_inv m \<longleftrightarrow> fsms_ok m \<and> ownership_ok m \<and> delivery_ok m"

lemmas matcher_inv_defs = matcher_inv_def fsms_ok_def ownership_ok_def delivery_ok_def

section \<open>Frames: what the operations leave alone\<close>

lemma refresh_fields [simp]:
  "m_rules (refresh_delivery_active m) = m_rules m"
  "m_tap_fsms (refresh_delivery_active m) = m_tap_fsms m"
  "m_modifier_state (refresh_delivery_active m) = m_modifier_state m"
  "m_swallowed_downs (refresh_delivery_active m) = m_swallowed_downs m"
  "m_forwarded_downs (refresh_delivery_active m) = m_forwarded_downs m"
  "m_pending_deliveries (refresh_delivery_active m) = m_pending_deliveries m"
  "m_delivery_generation (refresh_delivery_active m) = m_delivery_generation m"
  "m_delivery_active (refresh_delivery_active m) \<longleftrightarrow>
     \<not> hm_is_empty (m_pending_deliveries m) \<or> m_forwarded_downs m \<noteq> {}"
  by (simp_all add: refresh_delivery_active_def)

lemma reconcile_fields [simp]:
  "m_rules (snd (reconcile_delivery_event p k m)) = m_rules m"
  "m_tap_fsms (snd (reconcile_delivery_event p k m)) = m_tap_fsms m"
  "m_modifier_state (snd (reconcile_delivery_event p k m)) = m_modifier_state m"
  "m_swallowed_downs (snd (reconcile_delivery_event p k m)) = m_swallowed_downs m"
  "m_delivery_generation (snd (reconcile_delivery_event p k m)) = m_delivery_generation m"
  "m_forwarded_downs (snd (reconcile_delivery_event p k m)) =
     (if k = KeyUp then m_forwarded_downs m - {p} else m_forwarded_downs m)"
  "m_pending_deliveries (snd (reconcile_delivery_event p k m)) =
     (if k \<noteq> KeyDown \<or> p \<notin> m_swallowed_downs m \<and> p \<notin> m_forwarded_downs m
      then hm_remove p (m_pending_deliveries m) else m_pending_deliveries m)"
  "fst (reconcile_delivery_event p k m) \<longleftrightarrow> k \<noteq> ModifiersChanged \<and> p \<in> m_forwarded_downs m"
  by (cases k; simp add: reconcile_delivery_event_def Let_def)+

lemma reconcile_active [simp]:
  "m_delivery_active (snd (reconcile_delivery_event p k m)) \<longleftrightarrow>
     \<not> hm_is_empty (m_pending_deliveries (snd (reconcile_delivery_event p k m))) \<or>
     m_forwarded_downs (snd (reconcile_delivery_event p k m)) \<noteq> {}"
  by (simp add: reconcile_delivery_event_def Let_def split: event_kind.splits)

lemma dispatch_modifier_fields [simp]:
  "m_rules (snd (dispatch_modifier d e f now fsms m)) = m_rules m"
  "m_swallowed_downs (snd (dispatch_modifier d e f now fsms m)) = m_swallowed_downs m"
  "m_forwarded_downs (snd (dispatch_modifier d e f now fsms m)) = m_forwarded_downs m"
  "m_pending_deliveries (snd (dispatch_modifier d e f now fsms m)) = m_pending_deliveries m"
  "m_delivery_active (snd (dispatch_modifier d e f now fsms m)) = m_delivery_active m"
  "m_delivery_generation (snd (dispatch_modifier d e f now fsms m)) = m_delivery_generation m"
  by (simp_all add: dispatch_modifier_def Let_def split: prod.splits option.splits)

lemma dispatch_key_fields [simp]:
  "m_rules (snd (dispatch_key d e f fsms m)) = m_rules m"
  "m_modifier_state (snd (dispatch_key d e f fsms m)) = m_modifier_state m"
  "m_forwarded_downs (snd (dispatch_key d e f fsms m)) = m_forwarded_downs m"
  "m_pending_deliveries (snd (dispatch_key d e f fsms m)) = m_pending_deliveries m"
  "m_delivery_active (snd (dispatch_key d e f fsms m)) = m_delivery_active m"
  "m_delivery_generation (snd (dispatch_key d e f fsms m)) = m_delivery_generation m"
  "m_swallowed_downs (snd (dispatch_key d e f fsms m)) =
     (if fst (dispatch_key d e f fsms m) = Pass then m_swallowed_downs m
      else insert (d, code e) (m_swallowed_downs m))"
  by (simp_all add: dispatch_key_def Let_def split: option.splits)

lemma feed_taps_within:
  "(\<And>fsm. tf_within (fst (step fsm)) = tf_within fsm) \<Longrightarrow>
   map tf_within (fst (feed_taps step f rules fsms a)) = map tf_within fsms"
proof (induction rules arbitrary: fsms a)
  case (Cons rule rules)
  then show ?case
    by (cases fsms) (simp_all add: Let_def case_prod_beta)
qed simp

lemma on_other_key_within [simp]: "tf_within (on_other_key fsm) = tf_within fsm"
  by (simp add: on_other_key_def Let_def)

lemma map_on_other_key_within [simp]: "map (tf_within \<circ> on_other_key) fsms = map tf_within fsms"
  by simp

lemma transition_within [simp]: "tf_within (fst (on_transition k w dn ms now fsm)) = tf_within fsm"
  using on_transition_within [of "Transition k w dn ms now"] by simp

section \<open>Preservation of the invariant\<close>

named_theorems inv_intros \<open>preservation of the matcher invariant\<close>

lemma matcher_new_inv [inv_intros]: "rule_set_wf rs \<Longrightarrow> matcher_inv (matcher_new rs)"
  by (simp add: matcher_inv_defs matcher_new_def hm_lookup hm.inv_empty hm.is_empty_iff fun_eq_iff)

lemma inv_tap_fsms [inv_intros]:
  "matcher_inv m \<Longrightarrow> map tf_within fsms = map rule_window (rs_taps (m_rules m)) \<Longrightarrow>
   matcher_inv (m\<lparr>m_tap_fsms := hm_insert d fsms (m_tap_fsms m)\<rparr>)"
  by (auto simp: matcher_inv_defs hm_lookup hm.inv_insert)

lemma inv_modifier_state [inv_intros]:
  "matcher_inv m \<Longrightarrow> matcher_inv (m\<lparr>m_modifier_state := hm_insert p b (m_modifier_state m)\<rparr>)"
  by (simp add: matcher_inv_defs hm.inv_insert)

lemma inv_swallow [inv_intros]:
  "matcher_inv m \<Longrightarrow> \<not> is_modifier (snd p) \<Longrightarrow> p \<notin> m_forwarded_downs m \<Longrightarrow>
   matcher_inv (m\<lparr>m_swallowed_downs := insert p (m_swallowed_downs m)\<rparr>)"
  by (auto simp: matcher_inv_defs)

lemma inv_unswallow [inv_intros]:
  "matcher_inv m \<Longrightarrow> matcher_inv (m\<lparr>m_swallowed_downs := m_swallowed_downs m - P\<rparr>)"
  by (auto simp: matcher_inv_defs)

lemma pending_le:
  "matcher_inv m \<Longrightarrow> hm_get (m_pending_deliveries m) p = Some g \<Longrightarrow> g \<le> m_delivery_generation m"
  unfolding matcher_inv_def delivery_ok_def by blast

lemma pending_not_forwarded:
  "matcher_inv m \<Longrightarrow> hm_get (m_pending_deliveries m) p = Some g \<Longrightarrow> p \<notin> m_forwarded_downs m"
  unfolding matcher_inv_def delivery_ok_def by blast

lemma pending_unique:
  "matcher_inv m \<Longrightarrow> hm_get (m_pending_deliveries m) p = Some g \<Longrightarrow>
   hm_get (m_pending_deliveries m) q = Some g \<Longrightarrow> p = q"
  unfolding matcher_inv_def delivery_ok_def by blast

text \<open>The operations that retire presses, pending deliveries, modifier states or machines and
  then refresh the flag.\<close>

lemma inv_retire:
  assumes "matcher_inv m"
    and "m_rules m' = m_rules m" "m_delivery_generation m' = m_delivery_generation m"
    and "hm_inv (m_tap_fsms m')" "hm_inv (m_modifier_state m')" "hm_inv (m_pending_deliveries m')"
    and "\<And>d v. hm_get (m_tap_fsms m') d = Some v \<Longrightarrow> hm_get (m_tap_fsms m) d = Some v"
    and "\<And>p g. hm_get (m_pending_deliveries m') p = Some g \<Longrightarrow> hm_get (m_pending_deliveries m) p = Some g"
    and "m_swallowed_downs m' \<subseteq> m_swallowed_downs m" "m_forwarded_downs m' \<subseteq> m_forwarded_downs m"
    and "m_delivery_active m' \<longleftrightarrow> \<not> hm_is_empty (m_pending_deliveries m') \<or> m_forwarded_downs m' \<noteq> {}"
  shows "matcher_inv m'"
proof -
  have "fsms_ok m'"
    using assms(1,2,4,5,7) unfolding matcher_inv_def fsms_ok_def by metis
  moreover have "ownership_ok m'"
    using assms(1,9,10) unfolding matcher_inv_def ownership_ok_def by blast
  moreover have "delivery_ok m'"
    unfolding delivery_ok_def
  proof (intro conjI allI impI)
    fix p g
    assume "hm_get (m_pending_deliveries m') p = Some g"
    then have g: "hm_get (m_pending_deliveries m) p = Some g"
      by (rule assms(8))
    show "g \<le> m_delivery_generation m'"
      using pending_le [OF assms(1) g] assms(3) by simp
    show "p \<notin> m_forwarded_downs m'"
      using pending_not_forwarded [OF assms(1) g] assms(10) by blast
    fix q
    assume "hm_get (m_pending_deliveries m') q = Some g"
    then have "hm_get (m_pending_deliveries m) q = Some g"
      by (rule assms(8))
    with g show "p = q"
      by (rule pending_unique [OF assms(1)])
  qed (fact assms(6) assms(11))+
  ultimately show ?thesis
    by (simp add: matcher_inv_def)
qed

lemma matcher_invD:
  assumes "matcher_inv m"
  shows "rule_set_wf (m_rules m)" "hm_inv (m_tap_fsms m)" "hm_inv (m_modifier_state m)"
    "hm_inv (m_pending_deliveries m)"
  using assms by (simp_all add: matcher_inv_defs)

lemma reconcile_inv [inv_intros]:
  "matcher_inv m \<Longrightarrow> matcher_inv (snd (reconcile_delivery_event p k m))"
  by (rule inv_retire [of m]) (auto simp: matcher_invD hm.inv_remove dest: hm.get_remove_SomeD split: if_splits)

lemma invalidate_inv [inv_intros]: "matcher_inv m \<Longrightarrow> matcher_inv (invalidate_speculation m)"
  by (rule inv_retire [of m]) (simp_all add: matcher_invD invalidate_speculation_def hm.inv_empty hm_lookup)

lemma settle_inv [inv_intros]:
  assumes "matcher_inv m"
  shows "matcher_inv (settle_device_event d e m)"
proof (cases "kind e = KeyUp")
  case True
  then show ?thesis
    by (intro inv_retire [OF assms])
      (auto simp: matcher_invD assms settle_device_event_def Let_def hm.inv_remove
        dest: hm.get_remove_SomeD)
qed (simp add: assms settle_device_event_def)

lemma reset_device_inv [inv_intros]: "matcher_inv m \<Longrightarrow> matcher_inv (reset_device d m)"
  by (rule inv_retire [of m])
    (auto simp: matcher_invD reset_device_def hm.inv_remove hm.inv_retain
      dest: hm.get_remove_SomeD hm.get_retain_SomeD)

lemma reset_inv [inv_intros]: "matcher_inv m \<Longrightarrow> matcher_inv (matcher_reset m)"
  by (rule inv_retire [of m])
    (simp_all add: matcher_invD matcher_reset_def hm.inv_empty hm_lookup hm.is_empty_iff fun_eq_iff)

lemma swap_rules_inv [inv_intros]:
  "matcher_inv m \<Longrightarrow> rule_set_wf rs \<Longrightarrow> matcher_inv (swap_rules rs m)"
  by (simp add: matcher_inv_defs swap_rules_def hm.inv_empty hm_lookup)

lemma disqualify_taps_inv [inv_intros]: "matcher_inv m \<Longrightarrow> matcher_inv (disqualify_taps m)"
  by (auto simp: matcher_inv_defs disqualify_taps_def hm.inv_map_values hm_lookup)

lemma report_delivery_inv [inv_intros]:
  assumes "matcher_inv m"
  shows "matcher_inv (snd (report_delivery token delivery m))"
proof -
  let ?p = "token_press token"
  let ?m = "m\<lparr>m_pending_deliveries := hm_remove ?p (m_pending_deliveries m)\<rparr>"
  have "matcher_inv (refresh_delivery_active ?m)"
    by (rule inv_retire [of m]) (auto simp: assms matcher_invD hm.inv_remove dest: hm.get_remove_SomeD)
  moreover have "matcher_inv (refresh_delivery_active (?m\<lparr>m_swallowed_downs := m_swallowed_downs m - {?p},
      m_forwarded_downs := insert ?p (m_forwarded_downs m)\<rparr>))"
    if "?p \<in> m_swallowed_downs m"
    using assms that by (auto simp: matcher_inv_defs hm_lookup hm.inv_remove split: if_splits)
  ultimately show ?thesis
    using assms by (simp add: report_delivery_def Let_def)
qed

lemma dispatch_modifier_inv [inv_intros]:
  assumes "matcher_inv m" and "map tf_within fsms = map rule_window (rs_taps (m_rules m))"
  shows "matcher_inv (snd (dispatch_modifier d e f now fsms m))"
proof -
  have "matcher_inv (m\<lparr>m_modifier_state := hm_insert p b (m_modifier_state m),
      m_tap_fsms := hm_insert d fs (m_tap_fsms m)\<rparr>)"
    if "map tf_within fs = map tf_within fsms" for p b fs
    using inv_tap_fsms [OF inv_modifier_state [OF assms(1)]] assms(2) that by simp
  then show ?thesis
    using assms(1)
    by (simp add: dispatch_modifier_def Let_def case_prod_beta feed_taps_within split: option.splits)
qed

lemma dispatch_key_inv [inv_intros]:
  assumes "matcher_inv m" and "map tf_within fsms = map rule_window (rs_taps (m_rules m))"
    and "\<not> is_modifier (code e)" and "kind e = KeyDown \<Longrightarrow> (d, code e) \<notin> m_forwarded_downs m"
  shows "matcher_inv (snd (dispatch_key d e f fsms m))"
proof -
  let ?m = "m\<lparr>m_tap_fsms := hm_insert d (map on_other_key fsms) (m_tap_fsms m)\<rparr>"
  have m: "matcher_inv ?m"
    using assms(1,2) by (simp add: inv_tap_fsms)
  then have "matcher_inv (?m\<lparr>m_swallowed_downs := insert (d, code e) (m_swallowed_downs ?m)\<rparr>)"
    if "kind e = KeyDown"
    using assms(3,4) that by (intro inv_swallow) simp_all
  with m show ?thesis
    using assms(1) by (simp add: dispatch_key_def Let_def split: option.splits)
qed

text \<open>The machines a dispatch works on: those of the device, or fresh ones.\<close>

definition device_fsms :: "device_id \<Rightarrow> matcher \<Rightarrow> tap_fsm list" where
  "device_fsms d m = (case hm_get (m_tap_fsms m) d of
      Some fsms \<Rightarrow> fsms | None \<Rightarrow> map (\<lambda>r. with_window (rule_window r)) (rs_taps (m_rules m)))"

lemma device_fsms_within:
  "matcher_inv m \<Longrightarrow> map tf_within (device_fsms d m) = map rule_window (rs_taps (m_rules m))"
  by (auto simp: device_fsms_def matcher_inv_def fsms_ok_def with_window_def split: option.splits)

text \<open>On a well-formed matcher dispatch never panics; its body takes one of four paths.\<close>

definition rules_verdict ::
  "device_id \<Rightarrow> key_event \<Rightarrow> string option \<Rightarrow> instant \<Rightarrow> matcher \<Rightarrow> verdict \<times> matcher" where
  "rules_verdict d e f now m =
     (let m' = m\<lparr>m_tap_fsms := hm_insert d (device_fsms d m) (m_tap_fsms m)\<rparr>
      in if is_modifier (code e) then dispatch_modifier d e f now (device_fsms d m) m'
         else dispatch_key d e f (device_fsms d m) m')"

lemma dispatch_owned_eq:
  assumes "rule_set_wf (m_rules m)"
  shows "dispatch_owned d e f now m =
    (if (d, code e) \<in> m_swallowed_downs m \<and> kind e = KeyUp
     then Some (Swallow, m\<lparr>m_swallowed_downs := m_swallowed_downs m - {(d, code e)}\<rparr>)
     else if (d, code e) \<in> m_swallowed_downs m \<and> kind e = KeyDown then Some (Swallow, m)
     else Some (rules_verdict d e f now m))"
  by (auto simp: dispatch_owned_def rules_verdict_def device_fsms_def new_tap_fsms_wf [OF assms]
      Let_def split: option.splits)

lemma rules_verdict_inv [inv_intros]:
  assumes "matcher_inv m" and "kind e = KeyDown \<Longrightarrow> (d, code e) \<notin> m_forwarded_downs m"
  shows "matcher_inv (snd (rules_verdict d e f now m))"
  using assms
  by (simp add: rules_verdict_def Let_def dispatch_modifier_inv dispatch_key_inv inv_tap_fsms device_fsms_within)

text \<open>The gate on \<^verbatim>\<open>delivery_active\<close> is an optimisation: on a well-formed matcher it is the same
  as reconciling every event.\<close>

lemma reconcile_inactive:
  assumes "matcher_inv m" and "\<not> m_delivery_active m"
  shows "reconcile_delivery_event p k m = (False, m)"
proof -
  have "m_pending_deliveries m = []" "m_forwarded_downs m = {}"
    using assms by (auto simp: matcher_inv_def delivery_ok_def hm_is_empty_def)
  with assms(2) show ?thesis
    by (cases k) (simp_all add: reconcile_delivery_event_def refresh_delivery_active_def
        hm_is_empty_def hm_remove_def)
qed

lemma dispatch_device_eq:
  assumes "matcher_inv m" and p: "p = (d, code e)"
    and m1: "m1 = snd (reconcile_delivery_event (d, code e) (kind e) m)"
  shows "dispatch_device d e f now m =
    (if p \<in> m_forwarded_downs m \<and> kind e \<noteq> ModifiersChanged then Some (Pass, m1)
     else if p \<in> m_swallowed_downs m \<and> kind e = KeyUp
     then Some (Swallow, m1\<lparr>m_swallowed_downs := m_swallowed_downs m1 - {p}\<rparr>)
     else if p \<in> m_swallowed_downs m \<and> kind e = KeyDown then Some (Swallow, m1)
     else Some (rules_verdict d e f now m1))"
proof -
  have wf: "rule_set_wf (m_rules m1)"
    using assms by (simp add: matcher_invD)
  have "dispatch_device d e f now m =
      (if fst (reconcile_delivery_event (d, code e) (kind e) m) then Some (Pass, m1)
       else dispatch_owned d e f now m1)"
  proof (cases "m_delivery_active m")
    case False
    from reconcile_inactive [OF assms(1) this, of "(d, code e)" "kind e"] False show ?thesis
      by (simp add: dispatch_device_def m1 del: reconcile_fields)
  qed (simp add: dispatch_device_def m1 case_prod_beta)
  moreover have "m_swallowed_downs m1 = m_swallowed_downs m"
    by (simp add: m1)
  ultimately show ?thesis
    by (auto simp: dispatch_owned_eq [OF wf] p)
qed

end
