(* ===== verification/Machines.thy ===== *)
theory Machines
  imports Main
begin

text \<open>
  Interfaces shared by the stateful components. A component is a step function from an
  operation and a state to an output and a new state, or \<open>None\<close> where the code panics.
  The locales state what a component promises of single steps; their lemmas lift it to
  whole sequences of operations. Each is interpreted on the components' own step functions.
\<close>

fun run_steps :: "('op \<Rightarrow> 's \<Rightarrow> ('out \<times> 's) option) \<Rightarrow> 'op list \<Rightarrow> 's \<Rightarrow> ('out list \<times> 's) option" where
  "run_steps step [] s = Some ([], s)"
| "run_steps step (op # ops) s = (case step op s of
      None \<Rightarrow> None
    | Some (out, s) \<Rightarrow> (case run_steps step ops s of
          None \<Rightarrow> None
        | Some (outs, s) \<Rightarrow> Some (out # outs, s)))"

lemma run_steps_Cons_Some:
  "run_steps step (op # ops) s = Some (outs, s') \<longleftrightarrow>
     (\<exists>out s1 outs1. step op s = Some (out, s1) \<and> run_steps step ops s1 = Some (outs1, s') \<and>
        outs = out # outs1)"
  by (auto split: option.splits)

lemma run_steps_append:
  "run_steps step (ops @ ops') s = (case run_steps step ops s of
      None \<Rightarrow> None
    | Some (outs, s1) \<Rightarrow> (case run_steps step ops' s1 of
          None \<Rightarrow> None
        | Some (outs', s') \<Rightarrow> Some (outs @ outs', s')))"
  by (induction ops arbitrary: s) (auto split: option.splits)

lemma run_steps_length: "run_steps step ops s = Some (outs, s') \<Longrightarrow> length outs = length ops"
  by (induction ops arbitrary: s outs) (auto simp del: run_steps.simps(2) simp: run_steps_Cons_Some)

section \<open>Invariants\<close>

locale state_machine =
  fixes step :: "'op \<Rightarrow> 's \<Rightarrow> ('out \<times> 's) option"
    and inv :: "'s \<Rightarrow> bool"
  assumes inv_step: "inv s \<Longrightarrow> step op s = Some (out, s') \<Longrightarrow> inv s'"
begin

lemma run_inv: "inv s \<Longrightarrow> run_steps step ops s = Some (outs, s') \<Longrightarrow> inv s'"
  by (induction ops arbitrary: s outs)
    (auto simp del: run_steps.simps(2) simp: run_steps_Cons_Some intro: inv_step)

end

section \<open>Facts that stay true until an operation ends them\<close>

locale stable_fact = state_machine step inv
  for step :: "'op \<Rightarrow> 's \<Rightarrow> ('out \<times> 's) option" and inv +
  fixes fact :: "'s \<Rightarrow> bool"
    and ends :: "'op \<Rightarrow> bool"
    and good :: "'op \<Rightarrow> 'out \<Rightarrow> bool"
  assumes fact_step: "inv s \<Longrightarrow> fact s \<Longrightarrow> \<not> ends op \<Longrightarrow> step op s = Some (out, s') \<Longrightarrow> fact s'"
    and good_step: "inv s \<Longrightarrow> fact s \<Longrightarrow> \<not> ends op \<Longrightarrow> step op s = Some (out, s') \<Longrightarrow> good op out"
begin

lemma run_fact:
  "inv s \<Longrightarrow> fact s \<Longrightarrow> list_all (\<lambda>op. \<not> ends op) ops \<Longrightarrow>
   run_steps step ops s = Some (outs, s') \<Longrightarrow> fact s' \<and> list_all2 good ops outs"
proof (induction ops arbitrary: s outs)
  case (Cons op ops)
  then obtain out s1 outs1 where s: "step op s = Some (out, s1)"
    "run_steps step ops s1 = Some (outs1, s')" "outs = out # outs1"
    by (auto simp del: run_steps.simps(2) simp: run_steps_Cons_Some)
  with Cons show ?case
    using inv_step [OF _ s(1)] fact_step [OF _ _ _ s(1)] good_step [OF _ _ _ s(1)] by simp
qed simp

end

section \<open>Counters that only grow\<close>

text \<open>The values a machine issues (tokens, sequence numbers) come from a counter that never
  decreases and that every issue advances.\<close>

locale issuing_machine = state_machine step inv
  for step :: "'op \<Rightarrow> 's \<Rightarrow> ('out \<times> 's) option" and inv +
  fixes counter :: "'s \<Rightarrow> 'c::linorder"
    and issued :: "'out \<Rightarrow> 'c option"
  assumes counter_step: "inv s \<Longrightarrow> step op s = Some (out, s') \<Longrightarrow>
    (case issued out of None \<Rightarrow> counter s \<le> counter s' | Some c \<Rightarrow> counter s < c \<and> c \<le> counter s')"
begin

lemma counter_mono: "inv s \<Longrightarrow> step op s = Some (out, s') \<Longrightarrow> counter s \<le> counter s'"
  using counter_step by (fastforce split: option.splits)

lemma run_issued:
  "inv s \<Longrightarrow> run_steps step ops s = Some (outs, s') \<Longrightarrow>
   counter s \<le> counter s' \<and> sorted_wrt (<) (List.map_filter issued outs) \<and>
   (\<forall>c \<in> set (List.map_filter issued outs). counter s < c \<and> c \<le> counter s')"
proof (induction ops arbitrary: s outs)
  case (Cons op ops)
  then obtain out s1 outs1 where s: "step op s = Some (out, s1)"
    "run_steps step ops s1 = Some (outs1, s')" "outs = out # outs1"
    by (auto simp del: run_steps.simps(2) simp: run_steps_Cons_Some)
  have "counter s1 \<le> counter s' \<and> sorted_wrt (<) (List.map_filter issued outs1) \<and>
      (\<forall>c \<in> set (List.map_filter issued outs1). counter s1 < c \<and> c \<le> counter s')"
    using Cons.IH [OF inv_step [OF Cons.prems(1) s(1)] s(2)] .
  with counter_step [OF Cons.prems(1) s(1)] counter_mono [OF Cons.prems(1) s(1)] show ?case
    by (auto simp: s(3) map_filter_simps split: option.splits)
qed (simp add: map_filter_simps)

end

section \<open>Keys that are used once\<close>

text \<open>A machine that remembers which keys are spent (sequence numbers under a nonce) and accepts only
  unspent ones accepts each key at most once.\<close>

locale fresh_issuer = state_machine step inv
  for step :: "'op \<Rightarrow> 's \<Rightarrow> ('out \<times> 's) option" and inv +
  fixes spent :: "'s \<Rightarrow> 'k \<Rightarrow> bool"
    and accepted :: "'out \<Rightarrow> 'k option"
  assumes spent_step: "inv s \<Longrightarrow> step op s = Some (out, s') \<Longrightarrow> spent s k \<Longrightarrow> spent s' k"
    and accepted_step: "inv s \<Longrightarrow> step op s = Some (out, s') \<Longrightarrow> accepted out = Some k \<Longrightarrow>
      \<not> spent s k \<and> spent s' k"
begin

lemma run_accepted:
  "inv s \<Longrightarrow> run_steps step ops s = Some (outs, s') \<Longrightarrow>
   distinct (List.map_filter accepted outs) \<and>
   (\<forall>k \<in> set (List.map_filter accepted outs). \<not> spent s k)"
proof (induction ops arbitrary: s outs)
  case (Cons op ops)
  then obtain out s1 outs1 where s: "step op s = Some (out, s1)"
    "run_steps step ops s1 = Some (outs1, s')" "outs = out # outs1"
    by (auto simp del: run_steps.simps(2) simp: run_steps_Cons_Some)
  have "distinct (List.map_filter accepted outs1) \<and> (\<forall>k \<in> set (List.map_filter accepted outs1). \<not> spent s1 k)"
    using Cons.IH [OF inv_step [OF Cons.prems(1) s(1)] s(2)] .
  with spent_step [OF Cons.prems(1) s(1)] accepted_step [OF Cons.prems(1) s(1)] show ?case
    by (auto simp: s(3) map_filter_simps split: option.splits)
qed (simp add: map_filter_simps)

end

end
