(* ===== verification/Ownership.thy ===== *)
theory Ownership
  imports Matcher Machines
begin

text \<open>
  Who owns a physical press, over whole sequences of matcher operations. A press is free
  (rules decide), consumed (a rule took its key-down) or forwarded (the replacement was
  rejected and the original reached the application). The matcher's two sets of presses
  implement this three-state machine; the theory proves it and lifts it to runs.
\<close>

section \<open>Operations as a step function\<close>

datatype matcher_op =
    Dispatch device_id key_event "string option" instant
  | DispatchDelivery device_id key_event "string option" instant
  | Report replacement_token replacement_delivery
  | Invalidate
  | Disqualify
  | Settle device_id key_event
  | ResetDevice device_id
  | Reset
  | SwapRules "rule list"

datatype op_output =
    Decided verdict "replacement_token option"
  | Reported bool
  | NoOutput

fun apply_op :: "matcher_op \<Rightarrow> matcher \<Rightarrow> (op_output \<times> matcher) option" where
  "apply_op (Dispatch d e f now) m =
     map_option (\<lambda>(v, m). (Decided v None, m)) (dispatch_device d e f now m)"
| "apply_op (DispatchDelivery d e f now) m =
     map_option (\<lambda>((v, t), m). (Decided v t, m)) (dispatch_device_with_delivery d e f now m)"
| "apply_op (Report t r) m = (let (b, m) = report_delivery t r m in Some (Reported b, m))"
| "apply_op Invalidate m = Some (NoOutput, invalidate_speculation m)"
| "apply_op Disqualify m = Some (NoOutput, disqualify_taps m)"
| "apply_op (Settle d e) m = Some (NoOutput, settle_device_event d e m)"
| "apply_op (ResetDevice d) m = Some (NoOutput, reset_device d m)"
| "apply_op Reset m = Some (NoOutput, matcher_reset m)"
| "apply_op (SwapRules rules) m = Some (NoOutput, swap_rules (rule_set_new rules) m)"

section \<open>Ownership of a press\<close>

datatype owner = Free | Consumed | Forwarded

definition own :: "matcher \<Rightarrow> press \<Rightarrow> owner" where
  "own m p = (if p \<in> m_swallowed_downs m then Consumed
     else if p \<in> m_forwarded_downs m then Forwarded else Free)"

fun next_owner :: "bool \<Rightarrow> event_kind \<Rightarrow> verdict \<Rightarrow> owner \<Rightarrow> owner" where
  "next_owner modifier k v Consumed = (if k = KeyUp then Free else Consumed)"
| "next_owner modifier k v Forwarded = (if k = KeyUp then Free else Forwarded)"
| "next_owner modifier k (Replace a) Free = (if modifier then Free else Consumed)"
| "next_owner modifier k v Free = Free"

fun owner_verdict :: "event_kind \<Rightarrow> owner \<Rightarrow> verdict \<Rightarrow> bool" where
  "owner_verdict ModifiersChanged Consumed v \<longleftrightarrow> v = Pass"
| "owner_verdict k Consumed v \<longleftrightarrow> v = Swallow"
| "owner_verdict k Forwarded v \<longleftrightarrow> v = Pass"
| "owner_verdict k Free v \<longleftrightarrow> v \<noteq> Swallow"

lemma rules_verdict_fields [simp]:
  "m_rules (snd (rules_verdict d e f now m)) = m_rules m"
  "m_forwarded_downs (snd (rules_verdict d e f now m)) = m_forwarded_downs m"
  "m_pending_deliveries (snd (rules_verdict d e f now m)) = m_pending_deliveries m"
  "m_delivery_active (snd (rules_verdict d e f now m)) = m_delivery_active m"
  "m_delivery_generation (snd (rules_verdict d e f now m)) = m_delivery_generation m"
  "m_swallowed_downs (snd (rules_verdict d e f now m)) =
     (if is_modifier (code e) \<or> fst (rules_verdict d e f now m) = Pass then m_swallowed_downs m
      else insert (d, code e) (m_swallowed_downs m))"
  by (simp_all add: rules_verdict_def Let_def)

lemma rules_verdict_not_swallow: "fst (rules_verdict d e f now m) \<noteq> Swallow"
  by (simp add: rules_verdict_def dispatch_key_def dispatch_modifier_def Let_def case_prod_beta
      split: option.splits)

lemma rules_verdict_key_pass:
  "\<not> is_modifier (code e) \<Longrightarrow> kind e \<noteq> KeyDown \<Longrightarrow> fst (rules_verdict d e f now m) = Pass"
  by (simp add: rules_verdict_def dispatch_key_def Let_def)

lemma own_not_modifier: "matcher_inv m \<Longrightarrow> own m p \<noteq> Free \<Longrightarrow> \<not> is_modifier (snd p)"
  by (auto simp: matcher_inv_def ownership_ok_def own_def split: if_splits)

text \<open>The four paths of a dispatch on a well-formed matcher.\<close>

lemma dispatch_device_cases [consumes 2, case_names forwarded released repeated rules]:
  assumes "matcher_inv m" and "dispatch_device d e f now m = Some (v, m')"
  obtains
    "(d, code e) \<in> m_forwarded_downs m" "(d, code e) \<notin> m_swallowed_downs m" "kind e \<noteq> ModifiersChanged"
    "\<not> is_modifier (code e)" "v = Pass"
    "m' = snd (reconcile_delivery_event (d, code e) (kind e) m)"
  | "(d, code e) \<in> m_swallowed_downs m" "(d, code e) \<notin> m_forwarded_downs m" "kind e = KeyUp"
    "\<not> is_modifier (code e)" "v = Swallow"
    "m' = (snd (reconcile_delivery_event (d, code e) (kind e) m))
       \<lparr>m_swallowed_downs := m_swallowed_downs m - {(d, code e)}\<rparr>"
  | "(d, code e) \<in> m_swallowed_downs m" "(d, code e) \<notin> m_forwarded_downs m" "kind e = KeyDown"
    "\<not> is_modifier (code e)" "v = Swallow"
    "m' = snd (reconcile_delivery_event (d, code e) (kind e) m)"
  | "kind e = ModifiersChanged \<or> (d, code e) \<notin> m_forwarded_downs m \<and> (d, code e) \<notin> m_swallowed_downs m"
    "fst (rules_verdict d e f now (snd (reconcile_delivery_event (d, code e) (kind e) m))) = v"
    "m' = snd (rules_verdict d e f now (snd (reconcile_delivery_event (d, code e) (kind e) m)))"
    "v \<noteq> Swallow" "(d, code e) \<in> m_forwarded_downs m \<union> m_swallowed_downs m \<Longrightarrow> v = Pass"
proof -
  let ?p = "(d, code e)" and ?m1 = "snd (reconcile_delivery_event (d, code e) (kind e) m)"
  have own: "?p \<in> m_swallowed_downs m \<Longrightarrow> ?p \<notin> m_forwarded_downs m"
    "?p \<in> m_swallowed_downs m \<union> m_forwarded_downs m \<Longrightarrow> \<not> is_modifier (code e)"
    using assms(1) by (force simp: matcher_inv_def ownership_ok_def)+
  note eq = dispatch_device_eq [OF assms(1) refl refl, of d e f now]
  consider "?p \<in> m_forwarded_downs m" "kind e \<noteq> ModifiersChanged"
    | "?p \<in> m_swallowed_downs m" "kind e = KeyUp" | "?p \<in> m_swallowed_downs m" "kind e = KeyDown"
    | "kind e = ModifiersChanged \<or> ?p \<notin> m_forwarded_downs m \<and> ?p \<notin> m_swallowed_downs m"
    by (cases "kind e") auto
  then show thesis
  proof cases
    case 4
    then have r: "rules_verdict d e f now ?m1 = (v, m')"
      using eq assms(2) by (auto split: if_splits)
    from 4 show thesis
      using rules_verdict_not_swallow [of d e f now ?m1] rules_verdict_key_pass [of e d f now ?m1] own(2) r
      by (intro that(4)) auto
  qed (use that(1-3) own eq assms(2) in auto)
qed

lemma dispatch_device_inv:
  assumes "matcher_inv m" and "dispatch_device d e f now m = Some (v, m')"
  shows "matcher_inv m'"
proof -
  let ?m1 = "snd (reconcile_delivery_event (d, code e) (kind e) m)"
  have m1: "matcher_inv ?m1"
    by (rule reconcile_inv [OF assms(1)])
  from assms show ?thesis
  proof (cases rule: dispatch_device_cases)
    case released
    with inv_unswallow [OF m1] show ?thesis by simp
  next
    case rules
    then show ?thesis
      using rules_verdict_inv [OF m1, of e d f now] by auto
  qed (simp_all add: reconcile_inv [OF assms(1)])
qed

lemma dispatch_device_total:
  "matcher_inv m \<Longrightarrow> \<exists>v m'. dispatch_device d e f now m = Some (v, m')"
  by (simp add: dispatch_device_eq [OF _ refl refl] flip: split_paired_Ex)

lemma dispatch_device_owner:
  assumes "matcher_inv m" and "dispatch_device d e f now m = Some (v, m')"
  shows "own m' = (own m)((d, code e) :=
    next_owner (is_modifier (code e)) (kind e) v (own m (d, code e)))"
  using assms
proof (cases rule: dispatch_device_cases)
  case rules
  then show ?thesis
    by (cases v) (auto simp: fun_eq_iff own_def)
qed (auto simp: fun_eq_iff own_def)

lemma dispatch_device_verdict:
  assumes "matcher_inv m" and "dispatch_device d e f now m = Some (v, m')"
  shows "owner_verdict (kind e) (own m (d, code e)) v"
  using assms
proof (cases rule: dispatch_device_cases)
  case rules
  then show ?thesis
    by (cases "kind e") (auto simp: own_def)
qed (cases "kind e"; simp add: own_def)+

section \<open>Every operation keeps the invariant\<close>

lemma inv_issue:
  assumes "matcher_inv m" and "p \<notin> m_forwarded_downs m"
    and "checked_add (m_delivery_generation m) 1 = Some g"
  shows "matcher_inv (m\<lparr>m_delivery_generation := g,
    m_pending_deliveries := hm_insert p g (m_pending_deliveries m), m_delivery_active := True\<rparr>)"
proof -
  have less: "m_delivery_generation m < g"
    using assms(3) by (rule checked_add_one_less)
  have old: "h < g" if "hm_get (m_pending_deliveries m) q = Some h" for q h
    using pending_le [OF assms(1) that] less by simp
  show ?thesis
    using assms(1,2) less old
    by (auto simp: matcher_inv_def fsms_ok_def ownership_ok_def delivery_ok_def hm_lookup hm.inv_insert
        hm.insert_not_empty simp del: split_paired_All intro: order.strict_implies_order dest: less_imp_neq)
qed

text \<open>A dispatch with delivery is a dispatch whose replacement, if any, is recorded as pending
  under the next generation.\<close>

lemma with_delivery_cases [consumes 1, case_names plain replaced]:
  assumes "dispatch_device_with_delivery d e f now m = Some ((v, t), m')"
  obtains
    "dispatch_device d e f now m = Some (v, m')" "t = None" "\<And>a. v \<noteq> Replace a"
  | m1 a g where "dispatch_device d e f now m = Some (v, m1)" "v = Replace a"
    "checked_add (m_delivery_generation m1) 1 = Some g"
    "t = Some \<lparr>rt_device = d, rt_key = code e, rt_generation = g\<rparr>"
    "m' = m1\<lparr>m_delivery_generation := g,
      m_pending_deliveries := hm_insert (d, code e) g (m_pending_deliveries m1), m_delivery_active := True\<rparr>"
  using assms
  by (auto simp: dispatch_device_with_delivery_def split: option.splits verdict.splits prod.splits)

lemma replace_not_forwarded:
  assumes "matcher_inv m" and "dispatch_device d e f now m = Some (Replace a, m')"
  shows "(d, code e) \<notin> m_forwarded_downs m'"
proof -
  have "own m (d, code e) = Free"
    using dispatch_device_verdict [OF assms] by (cases "kind e"; cases "own m (d, code e)") auto
  then have "own m' (d, code e) \<noteq> Forwarded"
    using dispatch_device_owner [OF assms] by simp
  moreover have "matcher_inv m'"
    using assms by (rule dispatch_device_inv)
  ultimately show ?thesis
    by (auto simp: own_def matcher_inv_def ownership_ok_def split: if_splits)
qed

lemma with_delivery_inv:
  assumes "matcher_inv m" and "dispatch_device_with_delivery d e f now m = Some ((v, t), m')"
  shows "matcher_inv m'"
  using assms(2)
proof (cases rule: with_delivery_cases)
  case plain
  with assms(1) show ?thesis by (simp add: dispatch_device_inv)
next
  case (replaced m1 a g)
  with assms(1) show ?thesis
    using inv_issue dispatch_device_inv replace_not_forwarded by blast
qed

lemma apply_op_inv:
  assumes "matcher_inv m" and "apply_op op m = Some (out, m')"
  shows "matcher_inv m'"
  using assms
  by (cases op)
    (auto simp: case_prod_beta Let_def rule_set_new_wf intro: inv_intros dispatch_device_inv with_delivery_inv)

interpretation matcher_ops: state_machine apply_op matcher_inv
  by unfold_locales (rule apply_op_inv)

section \<open>Consumed presses\<close>

text \<open>The operations that can end the consumed state of a press: its release, a reset of its
  device or of everything, and a report that its replacement was rejected.\<close>

fun settles :: "press \<Rightarrow> matcher_op \<Rightarrow> bool" where
  "settles p (Dispatch d e f now) = (kind e = KeyUp \<and> (d, code e) = p)"
| "settles p (DispatchDelivery d e f now) = (kind e = KeyUp \<and> (d, code e) = p)"
| "settles p (Report t r) = (r = RejectedOriginalForwarded \<and> token_press t = p)"
| "settles p (Settle d e) = (kind e = KeyUp \<and> (d, code e) = p)"
| "settles p (ResetDevice d) = (d = fst p)"
| "settles p Reset = True"
| "settles p _ = False"

fun swallows_repeats :: "press \<Rightarrow> matcher_op \<Rightarrow> op_output \<Rightarrow> bool" where
  "swallows_repeats p (Dispatch d e f now) out =
     (kind e = KeyDown \<and> (d, code e) = p \<longrightarrow> out = Decided Swallow None)"
| "swallows_repeats p (DispatchDelivery d e f now) out =
     (kind e = KeyDown \<and> (d, code e) = p \<longrightarrow> out = Decided Swallow None)"
| "swallows_repeats p _ out = True"

lemma consumed_dispatch:
  assumes "matcher_inv m" and "own m p = Consumed" and "dispatch_device d e f now m = Some (v, m')"
    and "\<not> (kind e = KeyUp \<and> (d, code e) = p)"
  shows "own m' p = Consumed" and "kind e = KeyDown \<Longrightarrow> (d, code e) = p \<Longrightarrow> v = Swallow"
  using dispatch_device_owner [OF assms(1,3)] dispatch_device_verdict [OF assms(1,3)] assms(2,4)
  by auto

lemma own_record_updates [simp]:
  "own (m\<lparr>m_delivery_generation := g, m_pending_deliveries := pd, m_delivery_active := b\<rparr>) = own m"
  by (simp add: own_def fun_eq_iff)

lemma consumed_with_delivery:
  assumes "matcher_inv m" and "own m p = Consumed"
    and "dispatch_device_with_delivery d e f now m = Some ((v, t), m')"
    and "\<not> (kind e = KeyUp \<and> (d, code e) = p)"
  shows "own m' p = Consumed \<and> (kind e = KeyDown \<and> (d, code e) = p \<longrightarrow> v = Swallow \<and> t = None)"
  using assms(3)
proof (cases rule: with_delivery_cases)
  case plain
  with consumed_dispatch [OF assms(1,2)] assms(4) show ?thesis by blast
next
  case (replaced m1 a g)
  with consumed_dispatch [OF assms(1,2) replaced(1) assms(4)] show ?thesis by auto
qed

lemma consumed_step:
  assumes "matcher_inv m" and "own m p = Consumed" and "\<not> settles p op"
    and "apply_op op m = Some (out, m')"
  shows "own m' p = Consumed \<and> swallows_repeats p op out"
proof (cases op)
  case (Dispatch d e f now)
  with assms consumed_dispatch [OF assms(1,2)] show ?thesis by auto
next
  case (DispatchDelivery d e f now)
  with assms consumed_with_delivery [OF assms(1,2)] show ?thesis by auto
qed (use assms in \<open>auto simp: own_def report_delivery_def invalidate_speculation_def disqualify_taps_def
    settle_device_event_def reset_device_def swap_rules_def Let_def split: if_splits\<close>)

interpretation consumed: stable_fact apply_op matcher_inv "\<lambda>m. own m p = Consumed" "settles p"
    "swallows_repeats p" for p
  by unfold_locales (use consumed_step in blast)+

section \<open>Delivery tokens\<close>

lemma dispatch_pending:
  assumes "matcher_inv m" and "dispatch_device d e f now m = Some (v, m')"
  shows "m_delivery_generation m' = m_delivery_generation m"
    and "hm_get (m_pending_deliveries m') q = Some g \<Longrightarrow> hm_get (m_pending_deliveries m) q = Some g"
  using assms
  by (cases rule: dispatch_device_cases; auto simp: hm_lookup split: if_splits)+

text \<open>An operation adds at most one pending delivery, under a generation not issued before.\<close>

lemma pending_step:
  assumes "matcher_inv m" and "apply_op op m = Some (out, m')"
    and "hm_get (m_pending_deliveries m') q = Some g"
  shows "hm_get (m_pending_deliveries m) q = Some g \<or> m_delivery_generation m < g"
proof (cases op)
  case (Dispatch d e f now)
  with assms show ?thesis by (auto dest: dispatch_pending)
next
  case (DispatchDelivery d e f now)
  with assms(2) obtain v t where "dispatch_device_with_delivery d e f now m = Some ((v, t), m')"
    by auto
  then show ?thesis
  proof (cases rule: with_delivery_cases)
    case plain
    with assms(1,3) show ?thesis by (auto dest: dispatch_pending)
  next
    case (replaced m1 a h)
    with assms(1,3) checked_add_one_less [OF replaced(3)] dispatch_pending [OF assms(1) replaced(1)]
    show ?thesis
      by (auto simp: hm_lookup split: if_splits)
  qed
qed (use assms in \<open>auto simp: hm_lookup report_delivery_def invalidate_speculation_def disqualify_taps_def
    settle_device_event_def reset_device_def matcher_reset_def swap_rules_def Let_def split: if_splits\<close>)

fun issued_generation :: "op_output \<Rightarrow> 64 word option" where
  "issued_generation (Decided v (Some t)) = Some (rt_generation t)"
| "issued_generation _ = None"

lemma generation_step:
  assumes "matcher_inv m" and "apply_op op m = Some (out, m')"
  shows "case issued_generation out of
      None \<Rightarrow> m_delivery_generation m \<le> m_delivery_generation m'
    | Some g \<Rightarrow> m_delivery_generation m < g \<and> g \<le> m_delivery_generation m'"
proof (cases op)
  case (Dispatch d e f now)
  with assms show ?thesis by (auto dest: dispatch_pending)
next
  case (DispatchDelivery d e f now)
  with assms(2) obtain v t where r: "dispatch_device_with_delivery d e f now m = Some ((v, t), m')"
    "out = Decided v t"
    by auto
  from r(1) show ?thesis
  proof (cases rule: with_delivery_cases)
    case plain
    with assms(1) r show ?thesis by (auto dest: dispatch_pending)
  next
    case (replaced m1 a h)
    with checked_add_one_less [OF replaced(3)] dispatch_pending(1) [OF assms(1) replaced(1)] r
    show ?thesis by simp
  qed
qed (use assms in \<open>auto simp: report_delivery_def invalidate_speculation_def disqualify_taps_def
    settle_device_event_def reset_device_def matcher_reset_def swap_rules_def Let_def split: if_splits\<close>)

interpretation tokens: issuing_machine apply_op matcher_inv m_delivery_generation issued_generation
  by unfold_locales (rule generation_step)

definition token_dead :: "replacement_token \<Rightarrow> matcher \<Rightarrow> bool" where
  "token_dead t m \<longleftrightarrow> rt_generation t \<le> m_delivery_generation m \<and>
     hm_get (m_pending_deliveries m) (token_press t) \<noteq> Some (rt_generation t)"

fun rejects_report :: "replacement_token \<Rightarrow> matcher_op \<Rightarrow> op_output \<Rightarrow> bool" where
  "rejects_report t (Report t' r) out = (t' = t \<longrightarrow> out = Reported False)"
| "rejects_report t _ out = True"

interpretation dead_token: stable_fact apply_op matcher_inv "token_dead t" "\<lambda>_. False"
    "rejects_report t" for t
proof unfold_locales
  fix m op out m'
  assume a: "matcher_inv m" "token_dead t m" "apply_op op m = Some (out, m')"
  have "m_delivery_generation m \<le> m_delivery_generation m'"
    by (rule tokens.counter_mono [OF a(1,3)])
  with pending_step [OF a(1,3), of "token_press t" "rt_generation t"] a(2) show "token_dead t m'"
    by (auto simp: token_dead_def)
  show "rejects_report t op out"
    using a(2,3) by (cases op) (auto simp: token_dead_def report_delivery_def Let_def)
qed

lemma report_kills:
  assumes "matcher_inv m"
  shows "report_delivery t r m = (True, m') \<Longrightarrow> token_dead t m'"
  using pending_le [OF assms, of "token_press t"]
  by (auto simp: report_delivery_def token_dead_def Let_def hm_lookup split: if_splits)

section \<open>What the application sees\<close>

text \<open>Alongside the matcher, the presses that are physically held and those whose key-down the
  application has received. A dispatched event reaches the application exactly on the verdict
  \<open>Pass\<close>; an accepted rejection report says that the original key-down was forwarded. A reset
  forgets the stream it resets. A release arrives only for a held press.\<close>

fun held_after :: "matcher_op \<Rightarrow> press set \<Rightarrow> press set" where
  "held_after (Dispatch d e f now) H = (case kind e of
      KeyDown \<Rightarrow> insert (d, code e) H | KeyUp \<Rightarrow> H - {(d, code e)} | ModifiersChanged \<Rightarrow> H)"
| "held_after (DispatchDelivery d e f now) H = (case kind e of
      KeyDown \<Rightarrow> insert (d, code e) H | KeyUp \<Rightarrow> H - {(d, code e)} | ModifiersChanged \<Rightarrow> H)"
| "held_after (Settle d e) H = (if kind e = KeyUp then H - {(d, code e)} else H)"
| "held_after (ResetDevice d) H = {p \<in> H. fst p \<noteq> d}"
| "held_after Reset H = {}"
| "held_after _ H = H"

definition seen_event :: "device_id \<Rightarrow> key_event \<Rightarrow> op_output \<Rightarrow> press set \<Rightarrow> press set" where
  "seen_event d e out V = (case out of
      Decided Pass _ \<Rightarrow> (case kind e of
          KeyDown \<Rightarrow> insert (d, code e) V | KeyUp \<Rightarrow> V - {(d, code e)} | ModifiersChanged \<Rightarrow> V)
    | _ \<Rightarrow> V)"

fun seen_after :: "matcher_op \<Rightarrow> op_output \<Rightarrow> press set \<Rightarrow> press set" where
  "seen_after (Dispatch d e f now) out V = seen_event d e out V"
| "seen_after (DispatchDelivery d e f now) out V = seen_event d e out V"
| "seen_after (Report t r) out V =
     (if out = Reported True \<and> r = RejectedOriginalForwarded then insert (token_press t) V else V)"
| "seen_after (Settle d e) out V = (if kind e = KeyUp then V - {(d, code e)} else V)"
| "seen_after (ResetDevice d) out V = {p \<in> V. fst p \<noteq> d}"
| "seen_after Reset out V = {}"
| "seen_after _ out V = V"

fun physically_possible :: "matcher_op \<Rightarrow> press set \<Rightarrow> bool" where
  "physically_possible (Dispatch d e f now) H = (kind e = KeyUp \<longrightarrow> (d, code e) \<in> H)"
| "physically_possible (DispatchDelivery d e f now) H = (kind e = KeyUp \<longrightarrow> (d, code e) \<in> H)"
| "physically_possible (Settle d e) H = (kind e = KeyUp \<longrightarrow> (d, code e) \<in> H)"
| "physically_possible _ H = True"

inductive observed :: "matcher \<Rightarrow> press set \<Rightarrow> press set \<Rightarrow> bool" where
  start: "observed (matcher_new (rule_set_new rules)) {} {}"
| step: "observed m H V \<Longrightarrow> physically_possible op H \<Longrightarrow> apply_op op m = Some (out, m') \<Longrightarrow>
    observed m' (held_after op H) (seen_after op out V)"

definition accounted :: "matcher \<Rightarrow> press set \<Rightarrow> press set \<Rightarrow> bool" where
  "accounted m H V \<longleftrightarrow> (\<forall>p \<in> H. \<not> is_modifier (snd p) \<longrightarrow> own m p = Consumed \<or> p \<in> V)"

lemma accounted_dispatch:
  assumes "matcher_inv m" and "accounted m H V" and "dispatch_device d e f now m = Some (v, m')"
    and "own m'' = own m'"
  shows "accounted m'' (held_after (Dispatch d e f now) H) (seen_event d e (Decided v t) V)"
proof -
  have o: "own m'' = (own m)((d, code e) := next_owner (is_modifier (code e)) (kind e) v (own m (d, code e)))"
    using dispatch_device_owner [OF assms(1,3)] assms(4) by simp
  have "owner_verdict (kind e) (own m (d, code e)) v"
    by (rule dispatch_device_verdict [OF assms(1,3)])
  with o assms(2) show ?thesis
    by (cases v; cases "kind e"; cases "own m (d, code e)")
      (auto simp: accounted_def seen_event_def)
qed

lemma accounted_with_delivery:
  assumes "matcher_inv m" and "accounted m H V"
    and "dispatch_device_with_delivery d e f now m = Some ((v, t), m')"
  shows "accounted m' (held_after (Dispatch d e f now) H) (seen_event d e (Decided v t) V)"
  using assms(3)
proof (cases rule: with_delivery_cases)
  case plain
  then show ?thesis using accounted_dispatch [OF assms(1,2)] by blast
next
  case (replaced m1 a g)
  then show ?thesis using accounted_dispatch [OF assms(1,2) replaced(1)] by simp
qed

lemma accounted_step:
  assumes "matcher_inv m" and "accounted m H V" and "apply_op op m = Some (out, m')"
  shows "accounted m' (held_after op H) (seen_after op out V)"
proof (cases op)
  case (Dispatch d e f now)
  with assms accounted_dispatch [OF assms(1,2)] show ?thesis by auto
next
  case (DispatchDelivery d e f now)
  with assms accounted_with_delivery [OF assms(1,2)] show ?thesis by auto
qed (use assms in \<open>auto simp: accounted_def own_def report_delivery_def invalidate_speculation_def
    disqualify_taps_def settle_device_event_def reset_device_def matcher_reset_def swap_rules_def
    Let_def split: if_splits\<close>)

lemma observed_accounted: "observed m H V \<Longrightarrow> matcher_inv m \<and> accounted m H V"
proof (induction rule: observed.induct)
  case (start rules)
  then show ?case
    by (simp add: matcher_new_inv rule_set_new_wf accounted_def)
next
  case (step m H V op out m')
  then show ?case
    using apply_op_inv accounted_step by blast
qed

section \<open>Forwarded presses\<close>

text \<open>The operations that end the forwarded state: release and resets.\<close>

fun retires :: "press \<Rightarrow> matcher_op \<Rightarrow> bool" where
  "retires p (Report t r) = False"
| "retires p op = settles p op"

fun passes_repeats :: "press \<Rightarrow> matcher_op \<Rightarrow> op_output \<Rightarrow> bool" where
  "passes_repeats p (Dispatch d e f now) out = ((d, code e) = p \<longrightarrow> out = Decided Pass None)"
| "passes_repeats p (DispatchDelivery d e f now) out = ((d, code e) = p \<longrightarrow> out = Decided Pass None)"
| "passes_repeats p _ out = True"

lemma forwarded_dispatch:
  assumes "matcher_inv m" and "own m p = Forwarded" and "dispatch_device d e f now m = Some (v, m')"
    and "\<not> (kind e = KeyUp \<and> (d, code e) = p)"
  shows "own m' p = Forwarded" and "(d, code e) = p \<Longrightarrow> v = Pass"
  using dispatch_device_owner [OF assms(1,3)] dispatch_device_verdict [OF assms(1,3)] assms(2,4)
  by auto

lemma forwarded_with_delivery:
  assumes "matcher_inv m" and "own m p = Forwarded"
    and "dispatch_device_with_delivery d e f now m = Some ((v, t), m')"
    and "\<not> (kind e = KeyUp \<and> (d, code e) = p)"
  shows "own m' p = Forwarded \<and> ((d, code e) = p \<longrightarrow> v = Pass \<and> t = None)"
  using assms(3)
proof (cases rule: with_delivery_cases)
  case plain
  with forwarded_dispatch [OF assms(1,2)] assms(4) show ?thesis by blast
next
  case (replaced m1 a g)
  with forwarded_dispatch [OF assms(1,2) replaced(1) assms(4)] show ?thesis by auto
qed

lemma forwarded_report:
  assumes "matcher_inv m" and "own m p = Forwarded"
  shows "own (snd (report_delivery t r m)) p = Forwarded"
proof -
  have "p \<notin> m_swallowed_downs m"
    using assms by (auto simp: own_def split: if_splits)
  with assms(2) show ?thesis
    by (auto simp: own_def report_delivery_def Let_def split: if_splits)
qed

lemma forwarded_step:
  assumes "matcher_inv m" and "own m p = Forwarded" and "\<not> retires p op"
    and "apply_op op m = Some (out, m')"
  shows "own m' p = Forwarded \<and> passes_repeats p op out"
proof (cases op)
  case (Dispatch d e f now)
  with assms forwarded_dispatch [OF assms(1,2)] show ?thesis by auto
next
  case (DispatchDelivery d e f now)
  with assms forwarded_with_delivery [OF assms(1,2)] show ?thesis by auto
next
  case (Report t r)
  with assms forwarded_report [OF assms(1,2), of t r] show ?thesis by (auto simp: case_prod_beta)
qed (use assms in \<open>auto simp: own_def invalidate_speculation_def disqualify_taps_def
    settle_device_event_def reset_device_def swap_rules_def Let_def split: if_splits\<close>)

interpretation forwarded: stable_fact apply_op matcher_inv "\<lambda>m. own m p = Forwarded" "retires p"
    "passes_repeats p" for p
  by unfold_locales (use forwarded_step in blast)+

section \<open>Properties\<close>

text \<open>A matcher with one hotkey, for the examples.\<close>

definition ex_rules :: "rule list" where
  "ex_rules = [\<lparr>r_trigger = Hotkey \<lparr>hk_key = KeyH, hk_mods = CTRL\<rparr>,
     r_action = SendKey ArrowLeft 0, r_when_app_in = None\<rparr>]"

definition ex_matcher :: matcher where "ex_matcher = matcher_new (rule_set_new ex_rules)"
definition ex_down :: key_event where "ex_down = key_event KeyH KeyDown CTRL"
definition ex_up :: key_event where "ex_up = key_event KeyH KeyUp 0"

definition ex_consumed :: matcher where
  "ex_consumed = ex_matcher\<lparr>m_tap_fsms := [(1, [])], m_swallowed_downs := {(1, KeyH)}\<rparr>"

definition ex_token :: replacement_token where
  "ex_token = \<lparr>rt_device = 1, rt_key = KeyH, rt_generation = 1\<rparr>"

definition ex_pending :: matcher where
  "ex_pending = ex_consumed\<lparr>m_pending_deliveries := [((1, KeyH), 1)],
     m_delivery_active := True, m_delivery_generation := 1\<rparr>"

definition ex_forwarded :: matcher where
  "ex_forwarded = ex_pending\<lparr>m_pending_deliveries := [], m_swallowed_downs := {},
     m_forwarded_downs := {(1, KeyH)}\<rparr>"

lemma ex_matcher_inv: "matcher_inv ex_matcher"
  by (simp add: ex_matcher_def matcher_new_inv rule_set_new_wf)

lemma ex_consumed_dispatch:
  "dispatch_device 1 ex_down None 0 ex_matcher = Some (Replace (SendKey ArrowLeft 0), ex_consumed)"
  by code_simp

lemma ex_pending_dispatch:
  "dispatch_device_with_delivery 1 ex_down None 0 ex_matcher =
     Some ((Replace (SendKey ArrowLeft 0), Some ex_token), ex_pending)"
  by code_simp

lemma ex_pending_inv: "matcher_inv ex_pending"
  by (rule with_delivery_inv [OF ex_matcher_inv ex_pending_dispatch])

text \<open>C1: Once a hotkey has consumed the press of an ordinary key, no sequence of events, reloads,
  invalidations, reports and other devices' resets gives the press back: as long as the key is
  not released, its stream not reset and its replacement not reported rejected, every repeat is
  swallowed, and then its release is swallowed too and frees the press.\<close>

theorem consumed_press_stays_silent:
  assumes "matcher_inv m" and "dispatch_device d e f now m = Some (Replace a, m1)"
    and "\<not> is_modifier (code e)" and "list_all (\<lambda>op. \<not> settles (d, code e) op) ops"
    and "run_steps apply_op ops m1 = Some (outs, m2)"
    and "code up = code e" and "kind up = KeyUp"
  shows "list_all2 (swallows_repeats (d, code e)) ops outs \<and>
    (\<exists>m3. dispatch_device d up f' now' m2 = Some (Swallow, m3) \<and> own m3 (d, code e) = Free)"
proof -
  have m1: "matcher_inv m1"
    by (rule dispatch_device_inv [OF assms(1,2)])
  have "own m (d, code e) = Free"
    using dispatch_device_verdict [OF assms(1,2)] by (cases "kind e"; cases "own m (d, code e)") auto
  then have "own m1 (d, code e) = Consumed"
    using dispatch_device_owner [OF assms(1,2)] assms(3) by simp
  then have m2: "own m2 (d, code e) = Consumed" "list_all2 (swallows_repeats (d, code e)) ops outs"
    using consumed.run_fact [OF m1 _ assms(4,5)] by auto
  have inv2: "matcher_inv m2"
    by (rule matcher_ops.run_inv [OF m1 assms(5)])
  obtain v m3 where r: "dispatch_device d up f' now' m2 = Some (v, m3)"
    using dispatch_device_total [OF inv2] by blast
  with dispatch_device_verdict [OF inv2 r] dispatch_device_owner [OF inv2 r] m2 assms(6,7)
  show ?thesis by simp
qed

theorem consumed_press_stays_silent_witness:
  "list_all2 (swallows_repeats (1, KeyH)) [Dispatch 1 ex_down None 5, Invalidate, SwapRules []]
      [Decided Swallow None, NoOutput, NoOutput] \<and>
   (\<exists>m3. dispatch_device 1 ex_up None 9 (swap_rules (rule_set_new []) (invalidate_speculation ex_consumed)) =
      Some (Swallow, m3) \<and> own m3 (1, KeyH) = Free)"
proof -
  have c: "code ex_down = KeyH" "code ex_up = KeyH" "kind ex_up = KeyUp" "kind ex_down = KeyDown"
    by (simp_all add: ex_down_def ex_up_def key_event_def)
  have r: "run_steps apply_op [Dispatch 1 ex_down None 5, Invalidate, SwapRules []] ex_consumed =
      Some ([Decided Swallow None, NoOutput, NoOutput],
        swap_rules (rule_set_new []) (invalidate_speculation ex_consumed))"
    by code_simp
  show ?thesis
    using consumed_press_stays_silent [OF ex_matcher_inv ex_consumed_dispatch _ _ r, of ex_up None 9]
    by (simp add: c is_modifier_def)
qed



text \<open>C12: Every state the matcher reaches is well formed: each device has one tap machine per tap
  rule with that rule's window, no press is both consumed and forwarded, no modifier is either,
  the cached delivery flag is exact, and the pending replacements have distinct generations
  that have been issued and never belong to a forwarded press.\<close>

theorem reachable_matcher_inv:
  assumes "run_steps apply_op ops (matcher_new (rule_set_new rules)) = Some (outs, m)"
  shows "matcher_inv m"
  using matcher_ops.run_inv [OF matcher_new_inv [OF rule_set_new_wf] assms] .

theorem reachable_matcher_inv_witness: "matcher_inv ex_forwarded"
proof (rule reachable_matcher_inv)
  show "run_steps apply_op [DispatchDelivery 1 ex_down None 0, Report ex_token RejectedOriginalForwarded]
      (matcher_new (rule_set_new ex_rules)) =
    Some ([Decided (Replace (SendKey ArrowLeft 0)) (Some ex_token), Reported True], ex_forwarded)"
    by code_simp
qed



text \<open>The cached flag that lets dispatch skip the delivery bookkeeping is only an optimisation:
  on a well-formed matcher dispatch gives the same verdict and the same state as the version that
  reconciles every event.\<close>

lemma delivery_gate_equivalence:
  assumes "matcher_inv m"
  shows "dispatch_device d e f now m =
    (let (forwarded, m1) = reconcile_delivery_event (d, code e) (kind e) m
     in if forwarded then Some (Pass, m1) else dispatch_owned d e f now m1)"
proof (cases "m_delivery_active m")
  case False
  from reconcile_inactive [OF assms this, of "(d, code e)" "kind e"] False show ?thesis
    by (simp add: dispatch_device_def)
qed (simp add: dispatch_device_def)

text \<open>Delivery tokens are never reused: along every sequence of operations, resets and reloads
  included, the generations of the tokens issued are strictly increasing.\<close>

lemma tokens_strictly_increase:
  assumes "matcher_inv m" and "run_steps apply_op ops m = Some (outs, m')"
  shows "sorted_wrt (<) (m_delivery_generation m # List.map_filter issued_generation outs)"
  using tokens.run_issued [OF assms] by simp

text \<open>C15: A delivery token settles at most once: after an accepted report, whatever happens next,
  every further report under the same token is refused.\<close>

theorem token_settles_once:
  assumes "matcher_inv m" and "report_delivery t r m = (True, m1)"
    and "run_steps apply_op ops m1 = Some (outs, m2)"
  shows "list_all2 (rejects_report t) ops outs"
proof -
  have "matcher_inv m1"
    using report_delivery_inv [OF assms(1), of t r] assms(2) by simp
  then show ?thesis
    using dead_token.run_fact [OF _ report_kills [OF assms(1,2)] _ assms(3)]
    by (simp add: list_all_iff)
qed

theorem token_settles_once_witness:
  "list_all2 (rejects_report ex_token)
    [DispatchDelivery 1 ex_down None 2, Report ex_token Delivered, Report ex_token RejectedOriginalForwarded]
    [Decided Pass None, Reported False, Reported False]"
proof (rule token_settles_once [OF ex_pending_inv])
  show "report_delivery ex_token RejectedOriginalForwarded ex_pending = (True, ex_forwarded)"
    by code_simp
  show "run_steps apply_op
      [DispatchDelivery 1 ex_down None 2, Report ex_token Delivered, Report ex_token RejectedOriginalForwarded]
      ex_forwarded = Some ([Decided Pass None, Reported False, Reported False], ex_forwarded)"
    by code_simp
qed

text \<open>When a consumed press's replacement is reported rejected with the original forwarded, the
  press is given back for good: every later repeat is passed, whatever rules are loaded or
  focus and deliveries say, until the release, which is passed as well and frees the press.\<close>

lemma rejected_press_stays_forwarded:
  assumes "matcher_inv m" and "own m (token_press t) = Consumed"
    and "report_delivery t RejectedOriginalForwarded m = (True, m1)"
    and "list_all (\<lambda>op. \<not> retires (token_press t) op) ops"
    and "run_steps apply_op ops m1 = Some (outs, m2)"
    and "(d, code up) = token_press t" and "kind up = KeyUp"
  shows "list_all2 (passes_repeats (token_press t)) ops outs \<and>
    (\<exists>m3. dispatch_device d up f now m2 = Some (Pass, m3) \<and> own m3 (token_press t) = Free)"
proof -
  have m1: "matcher_inv m1" "own m1 (token_press t) = Forwarded"
    using report_delivery_inv [OF assms(1), of t RejectedOriginalForwarded] assms(2,3)
    by (auto simp: own_def report_delivery_def Let_def split: if_splits)
  have m2: "own m2 (token_press t) = Forwarded" "list_all2 (passes_repeats (token_press t)) ops outs"
    using forwarded.run_fact [OF m1(1) m1(2) assms(4,5)] by auto
  have inv2: "matcher_inv m2"
    by (rule matcher_ops.run_inv [OF m1(1) assms(5)])
  obtain v m3 where r: "dispatch_device d up f now m2 = Some (v, m3)"
    using dispatch_device_total [OF inv2] by blast
  with dispatch_device_verdict [OF inv2 r] dispatch_device_owner [OF inv2 r] m2 assms(6,7)
  show ?thesis by simp
qed

end
