(* ===== verification/Isolation.thy ===== *)
theory Isolation
  imports Ownership
begin

text \<open>
  Devices do not interfere: the verdicts of one device's events are the same whether or not
  the events of other devices are interleaved with them. The argument is the usual one by
  unwinding, stated once for step functions in a locale and discharged for the matcher.
\<close>

section \<open>Unwinding\<close>

locale unwinding = state_machine step inv
  for step :: "'op \<Rightarrow> 's \<Rightarrow> ('out \<times> 's) option" and inv +
  fixes view :: "'s \<Rightarrow> 'v"
    and relevant :: "'op \<Rightarrow> bool"
    and plain :: "'op \<Rightarrow> bool"
  assumes local_respect:
      "inv s \<Longrightarrow> plain op \<Longrightarrow> \<not> relevant op \<Longrightarrow> step op s = Some (out, s') \<Longrightarrow> view s' = view s"
    and step_consistent:
      "inv s \<Longrightarrow> inv t \<Longrightarrow> view s = view t \<Longrightarrow> plain op \<Longrightarrow> relevant op \<Longrightarrow> step op s = Some (out, s') \<Longrightarrow>
       \<exists>t'. step op t = Some (out, t') \<and> view s' = view t'"
begin

lemma purge:
  "inv s \<Longrightarrow> inv t \<Longrightarrow> view s = view t \<Longrightarrow> list_all plain ops \<Longrightarrow>
   run_steps step ops s = Some (outs, s') \<Longrightarrow>
   \<exists>t'. run_steps step (filter relevant ops) t =
       Some (map snd (filter (\<lambda>(op, _). relevant op) (zip ops outs)), t') \<and> view s' = view t'"
proof (induction ops arbitrary: s t outs)
  case (Cons op ops)
  then obtain out s1 outs1 where s: "step op s = Some (out, s1)"
    "run_steps step ops s1 = Some (outs1, s')" "outs = out # outs1"
    by (auto simp del: run_steps.simps(2) simp: run_steps_Cons_Some)
  have s1: "inv s1" by (rule inv_step [OF Cons.prems(1) s(1)])
  show ?case
  proof (cases "relevant op")
    case True
    then obtain t1 where t1: "step op t = Some (out, t1)" "view s1 = view t1"
      using step_consistent [OF Cons.prems(1,2,3) _ _ s(1)] Cons.prems(4) by auto
    have "inv t1" by (rule inv_step [OF Cons.prems(2) t1(1)])
    with Cons.IH [OF s1 _ t1(2) _ s(2)] Cons.prems(4) True t1(1) s(3) show ?thesis
      by auto
  next
    case False
    then have "view s1 = view t"
      using local_respect [OF Cons.prems(1) _ _ s(1)] Cons.prems(3,4) by auto
    with Cons.IH [OF s1 Cons.prems(2) _ _ s(2)] Cons.prems(4) False s(3) show ?thesis
      by auto
  qed
qed simp

end

section \<open>The view of one device\<close>

definition device_view :: "device_id \<Rightarrow> matcher \<Rightarrow>
  rule_set \<times> tap_fsm list option \<times> (key_code \<Rightarrow> bool option) \<times> key_code set \<times> key_code set" where
  "device_view d m = (m_rules m, hm_get (m_tap_fsms m) d, \<lambda>k. hm_get (m_modifier_state m) (d, k),
     {k. (d, k) \<in> m_swallowed_downs m}, {k. (d, k) \<in> m_forwarded_downs m})"

text \<open>The operations considered here do not use delivery tokens, whose generations are shared
  between devices. Operations without a device concern all of them.\<close>

fun no_delivery :: "matcher_op \<Rightarrow> bool" where
  "no_delivery (DispatchDelivery d e f now) = False"
| "no_delivery (Report t r) = False"
| "no_delivery _ = True"

fun concerns :: "device_id \<Rightarrow> matcher_op \<Rightarrow> bool" where
  "concerns d (Dispatch d' e f now) = (d' = d)"
| "concerns d (DispatchDelivery d' e f now) = (d' = d)"
| "concerns d (Settle d' e) = (d' = d)"
| "concerns d (ResetDevice d') = (d' = d)"
| "concerns d _ = True"

lemma device_view_reconcile:
  "device_view d' (snd (reconcile_delivery_event (d, k) kd m)) =
     (if d' = d \<and> kd = KeyUp
      then (case device_view d' m of (r, fs, ms, S, F) \<Rightarrow> (r, fs, ms, S, F - {k}))
      else device_view d' m)"
  by (auto simp: device_view_def)

lemma device_view_eq_iff:
  "device_view d a = device_view d b \<longleftrightarrow>
     m_rules a = m_rules b \<and> hm_get (m_tap_fsms a) d = hm_get (m_tap_fsms b) d \<and>
     (\<forall>k. hm_get (m_modifier_state a) (d, k) = hm_get (m_modifier_state b) (d, k)) \<and>
     (\<forall>k. (d, k) \<in> m_swallowed_downs a \<longleftrightarrow> (d, k) \<in> m_swallowed_downs b) \<and>
     (\<forall>k. (d, k) \<in> m_forwarded_downs a \<longleftrightarrow> (d, k) \<in> m_forwarded_downs b)"
  by (auto simp: device_view_def fun_eq_iff)

lemma rules_verdict_other_device:
  "d' \<noteq> d \<Longrightarrow> device_view d' (snd (rules_verdict d e f now m)) = device_view d' m"
  by (auto simp: device_view_eq_iff rules_verdict_def dispatch_modifier_def dispatch_key_def Let_def
      hm_lookup case_prod_beta split: option.splits)

definition other_modifier_held :: "device_id \<Rightarrow> key_code \<Rightarrow> matcher \<Rightarrow> bool" where
  "other_modifier_held d c m \<longleftrightarrow> (\<exists>k. k \<noteq> c \<and> hm_get (m_modifier_state m) (d, k) = Some True)"

lemma hm_any_other_modifier:
  assumes "matcher_inv m"
  shows "hm_any (\<lambda>(id, key) down. id = d \<and> key \<noteq> c \<and> down)
      (hm_insert (d, c) b (m_modifier_state m)) = other_modifier_held d c m"
proof -
  have "hm_inv (hm_insert (d, c) b (m_modifier_state m))"
    using assms by (simp add: matcher_invD hm.inv_insert)
  from hm.any_iff [OF this] show ?thesis
    by (auto simp: other_modifier_held_def hm_lookup split: if_splits)
qed

lemma device_fsms_view: "device_view d a = device_view d b \<Longrightarrow> device_fsms d a = device_fsms d b"
  by (auto simp: device_view_eq_iff device_fsms_def split: option.splits)

lemma other_modifier_view:
  "device_view d a = device_view d b \<Longrightarrow> other_modifier_held d c a = other_modifier_held d c b"
  by (simp add: device_view_eq_iff other_modifier_held_def)

lemma dispatch_modifier_view:
  assumes "matcher_inv a" and "matcher_inv b" and v: "device_view d a = device_view d b"
  shows "fst (dispatch_modifier d e f now fsms a) = fst (dispatch_modifier d e f now fsms b) \<and>
    (hm_get (m_tap_fsms a) d = hm_get (m_tap_fsms b) d \<longrightarrow>
     device_view d (snd (dispatch_modifier d e f now fsms a)) =
     device_view d (snd (dispatch_modifier d e f now fsms b)))"
proof -
  have eqs: "m_rules a = m_rules b"
    "\<And>k. hm_get (m_modifier_state a) (d, k) = hm_get (m_modifier_state b) (d, k)"
    "\<And>k. (d, k) \<in> m_swallowed_downs a \<longleftrightarrow> (d, k) \<in> m_swallowed_downs b"
    "\<And>k. (d, k) \<in> m_forwarded_downs a \<longleftrightarrow> (d, k) \<in> m_forwarded_downs b"
    using v by (simp_all add: device_view_eq_iff)
  note any = hm_any_other_modifier [OF assms(1)] hm_any_other_modifier [OF assms(2)]
    other_modifier_view [OF v]
  show ?thesis
    by (simp add: dispatch_modifier_def Let_def any eqs device_view_eq_iff hm_lookup case_prod_beta)
qed

lemma dispatch_key_view:
  assumes v: "device_view d a = device_view d b"
  shows "fst (dispatch_key d e f fsms a) = fst (dispatch_key d e f fsms b) \<and>
    device_view d (snd (dispatch_key d e f fsms a)) = device_view d (snd (dispatch_key d e f fsms b))"
proof -
  have r: "m_rules a = m_rules b"
    using v by (simp add: device_view_eq_iff)
  show ?thesis
    using v by (cases "find (hotkey_rule_fires e f) (rs_hotkeys (m_rules b))")
      (auto simp: dispatch_key_def Let_def r device_view_eq_iff hm_lookup)
qed

lemma rules_verdict_view:
  assumes "matcher_inv a" and "matcher_inv b" and v: "device_view d a = device_view d b"
  shows "fst (rules_verdict d e f now a) = fst (rules_verdict d e f now b) \<and>
    device_view d (snd (rules_verdict d e f now a)) = device_view d (snd (rules_verdict d e f now b))"
proof -
  let ?u = "\<lambda>m. m\<lparr>m_tap_fsms := hm_insert d (device_fsms d b) (m_tap_fsms m)\<rparr>"
  have "map tf_within (device_fsms d b) = map rule_window (rs_taps (m_rules a))"
    using device_fsms_within [OF assms(2), of d] v by (simp add: device_view_eq_iff)
  then have "matcher_inv (?u a)" "matcher_inv (?u b)"
    using assms(1,2) by (simp_all add: inv_tap_fsms device_fsms_within)
  moreover have "device_view d (?u a) = device_view d (?u b)"
    using v by (simp add: device_view_eq_iff hm_lookup)
  ultimately show ?thesis
    using dispatch_modifier_view [of "?u a" "?u b" d e f now "device_fsms d b"]
      dispatch_key_view [of d "?u a" "?u b" e f "device_fsms d b"] device_fsms_view [OF v]
    by (simp add: rules_verdict_def Let_def hm_lookup)
qed

lemma dispatch_view:
  assumes "matcher_inv a" and "matcher_inv b" and v: "device_view d a = device_view d b"
    and "dispatch_device d e f now a = Some (w, a')"
  shows "\<exists>b'. dispatch_device d e f now b = Some (w, b') \<and> device_view d a' = device_view d b'"
proof -
  let ?r = "\<lambda>m. snd (reconcile_delivery_event (d, code e) (kind e) m)"
  have r: "device_view d (?r a) = device_view d (?r b)"
    using v by (simp add: device_view_reconcile)
  have own: "(d, code e) \<in> m_swallowed_downs a \<longleftrightarrow> (d, code e) \<in> m_swallowed_downs b"
    "(d, code e) \<in> m_forwarded_downs a \<longleftrightarrow> (d, code e) \<in> m_forwarded_downs b"
    using v by (simp_all add: device_view_eq_iff)
  note eq = dispatch_device_eq [OF assms(2) refl refl, of d e f now, folded own]
  from assms(1,4) show ?thesis
  proof (cases rule: dispatch_device_cases)
    case forwarded
    with eq r show ?thesis by simp
  next
    case released
    with eq r show ?thesis by (simp add: device_view_eq_iff)
  next
    case repeated
    with eq r show ?thesis by simp
  next
    case rules
    then have "dispatch_device d e f now b = Some (rules_verdict d e f now (?r b))"
      using eq by auto
    with rules rules_verdict_view [OF reconcile_inv [OF assms(1)] reconcile_inv [OF assms(2)] r, of e f now]
    show ?thesis
      by (metis prod.collapse)
  qed
qed

lemma dispatch_other_device:
  assumes "matcher_inv m" and "d' \<noteq> d" and "dispatch_device d e f now m = Some (v, m')"
  shows "device_view d' m' = device_view d' m"
  using assms(1,3)
proof (cases rule: dispatch_device_cases)
  case rules
  with assms(2) show ?thesis
    by (simp add: rules_verdict_other_device device_view_reconcile)
qed (use assms(2) in \<open>auto simp: device_view_eq_iff\<close>)

lemma settle_other_device: "d' \<noteq> d \<Longrightarrow> device_view d' (settle_device_event d e m) = device_view d' m"
  by (cases "kind e = KeyUp") (auto simp: device_view_eq_iff settle_device_event_def Let_def hm_lookup)

lemma reset_other_device: "d' \<noteq> d \<Longrightarrow> device_view d' (reset_device d m) = device_view d' m"
  by (auto simp: device_view_eq_iff reset_device_def hm_lookup)

lemma settle_view:
  "device_view d a = device_view d b \<Longrightarrow>
   device_view d (settle_device_event d e a) = device_view d (settle_device_event d e b)"
  by (cases "kind e = KeyUp") (auto simp: device_view_eq_iff settle_device_event_def Let_def hm_lookup)

lemma global_views:
  assumes "device_view d a = device_view d b"
  shows "device_view d (reset_device d a) = device_view d (reset_device d b)"
    and "device_view d (matcher_reset a) = device_view d (matcher_reset b)"
    and "device_view d (invalidate_speculation a) = device_view d (invalidate_speculation b)"
    and "device_view d (disqualify_taps a) = device_view d (disqualify_taps b)"
    and "device_view d (swap_rules rs a) = device_view d (swap_rules rs b)"
  using assms
  by (auto simp: device_view_eq_iff reset_device_def matcher_reset_def invalidate_speculation_def
      disqualify_taps_def swap_rules_def hm_lookup)

lemma isolation_respect:
  assumes "matcher_inv m" and "no_delivery op" and "\<not> concerns d op" and "apply_op op m = Some (out, m')"
  shows "device_view d m' = device_view d m"
proof (cases op)
  case (Dispatch d' e f now)
  with assms obtain v where "dispatch_device d' e f now m = Some (v, m')" by auto
  with Dispatch assms(3) show ?thesis
    by (intro dispatch_other_device [OF assms(1)]) auto
qed (use assms in \<open>auto simp: settle_other_device reset_other_device\<close>)

lemma isolation_consistent:
  assumes "matcher_inv a" and "matcher_inv b" and "device_view d a = device_view d b"
    and "no_delivery op" and "concerns d op" and "apply_op op a = Some (out, a')"
  shows "\<exists>b'. apply_op op b = Some (out, b') \<and> device_view d a' = device_view d b'"
proof (cases op)
  case (Dispatch d' e f now)
  with assms obtain v where v: "dispatch_device d e f now a = Some (v, a')" "out = Decided v None" by auto
  with Dispatch assms(5) dispatch_view [OF assms(1-3) v(1)] show ?thesis
    by auto
qed (use assms(4-6) global_views [OF assms(3)] settle_view [OF assms(3)] in auto)

interpretation isolation: unwinding apply_op matcher_inv "device_view d" "concerns d" no_delivery for d
  by unfold_locales (fact isolation_respect isolation_consistent)+

section \<open>Properties\<close>

text \<open>C3: Devices are isolated. Take any interleaving of events, settlements and resets of several
  devices with reloads, invalidations and global resets: removing everything that concerns only
  other devices leaves every verdict of a device unchanged, and leaves its tap machines, modifier
  states and press ownership unchanged too.\<close>

theorem device_isolation:
  assumes "matcher_inv m" and "list_all no_delivery ops" and "run_steps apply_op ops m = Some (outs, m1)"
  shows "\<exists>m2. run_steps apply_op (filter (concerns d) ops) m =
      Some (map snd (filter (\<lambda>(op, _). concerns d op) (zip ops outs)), m2) \<and>
    device_view d m1 = device_view d m2"
  using isolation.purge [OF assms(1,1) refl assms(2,3)] .

theorem device_isolation_witness:
  "\<exists>m2. run_steps apply_op [Dispatch 1 ex_down None 0, Dispatch 1 ex_up None 3] ex_matcher =
      Some ([Decided (Replace (SendKey ArrowLeft 0)) None, Decided Swallow None], m2)"
proof -
  have "run_steps apply_op [Dispatch 1 ex_down None 0, ResetDevice 2, Dispatch 2 ex_up None 2,
      Dispatch 1 ex_up None 3] ex_matcher =
    Some ([Decided (Replace (SendKey ArrowLeft 0)) None, NoOutput, Decided Pass None, Decided Swallow None],
      ex_matcher\<lparr>m_tap_fsms := [(1, []), (2, [])]\<rparr>)"
    by code_simp
  from device_isolation [OF ex_matcher_inv _ this, of 1] show ?thesis
    by simp blast
qed

end
