(* ===== verification/Tap_Rules.thy ===== *)
theory Tap_Rules
  imports Isolation
begin

text \<open>
  What the rules decide. A hotkey is the first rule, in configuration order, that matches the
  event in its scope. A tap rule is decided by the history of the device's clean taps: all the
  machines of a device, whatever their windows, represent one history.
\<close>

section \<open>Hotkeys\<close>

lemma find_filter: "(\<And>x. P x \<Longrightarrow> Q x) \<Longrightarrow> find P (filter Q xs) = find P xs"
  by (induction xs) auto

lemma hotkey_rule_fires_is_hotkey: "hotkey_rule_fires e f r \<Longrightarrow> is_hotkey_rule r"
  by (auto simp: hotkey_rule_fires_def is_hotkey_rule_def split: trigger.splits)

lemma find_hotkeys:
  "find (hotkey_rule_fires e f) (rs_hotkeys (rule_set_new rules)) = find (hotkey_rule_fires e f) rules"
  by (simp add: rule_set_new_filter find_filter hotkey_rule_fires_is_hotkey)

lemma hotkey_verdict:
  assumes "matcher_inv m" and "own m (d, code e) = Free" and "\<not> is_modifier (code e)" and "kind e = KeyDown"
    and "dispatch_device d e f now m = Some (v, m')"
  shows "v = (case find (hotkey_rule_fires e f) (rs_hotkeys (m_rules m)) of
    Some r \<Rightarrow> Replace (r_action r) | None \<Rightarrow> Pass)"
  using assms(1,5)
proof (cases rule: dispatch_device_cases)
  case rules
  with assms(3,4) show ?thesis
    by (auto simp: rules_verdict_def dispatch_key_def Let_def split: option.splits)
qed (use assms(2,4) in \<open>auto simp: own_def\<close>)

section \<open>Tap rules\<close>

definition taps_represent :: "device_id \<Rightarrow> matcher \<Rightarrow> tap_history \<Rightarrow> bool" where
  "taps_represent d m h \<longleftrightarrow> (\<forall>fsm \<in> set (device_fsms d m). represents fsm h)"

definition modifier_was_down :: "device_id \<Rightarrow> key_code \<Rightarrow> matcher \<Rightarrow> bool" where
  "modifier_was_down d c m = (hm_get (m_modifier_state m) (d, c) = Some True)"

definition modifier_goes_down :: "key_event \<Rightarrow> bool" where
  "modifier_goes_down e = (case kind e of
      KeyDown \<Rightarrow> True
    | KeyUp \<Rightarrow> False
    | ModifiersChanged \<Rightarrow> mods_contains (mods e) (modifier_bit (code e)))"

text \<open>What an event means for the tap history of its device, if anything: a second modifier that
  goes down while another is held, or an ordinary key-down, interrupts; any other modifier event
  is a transition. Consumed and forwarded presses, and modifier changes whose direction cannot
  be told, do not touch it.\<close>

definition history_input :: "device_id \<Rightarrow> key_event \<Rightarrow> instant \<Rightarrow> matcher \<Rightarrow> tap_input option" where
  "history_input d e now m =
     (if own m (d, code e) \<noteq> Free then None
      else if is_modifier (code e) then
        (if kind e = ModifiersChanged \<and> modifier_bit (code e) = 0 then None
         else if modifier_goes_down e \<and> \<not> modifier_was_down d (code e) m \<and>
             other_modifier_held d (code e) m
         then Some OtherKey
         else Some (Transition (code e) (modifier_was_down d (code e) m) (modifier_goes_down e)
                (mods e) now))
      else if kind e = KeyDown then Some OtherKey
      else None)"

definition history_after :: "tap_input option \<Rightarrow> tap_history \<Rightarrow> tap_history" where
  "history_after i h = (case i of None \<Rightarrow> h | Some i \<Rightarrow> fst (history_step 0 i h))"

definition tap_verdict ::
  "rule list \<Rightarrow> string option \<Rightarrow> tap_input option \<Rightarrow> tap_history \<Rightarrow> verdict" where
  "tap_verdict rules f i h = (case i of
      None \<Rightarrow> Pass
    | Some i \<Rightarrow> (case find (\<lambda>r. tap_rule_fires r (snd (history_step (rule_window r) i h)) f) rules of
          Some r \<Rightarrow> Replace (r_action r)
        | None \<Rightarrow> Pass))"

lemma history_step_window: "fst (history_step w i h) = fst (history_step 0 i h)"
  by (cases "(w, i, h)" rule: history_step.cases) simp_all

lemma represents_step:
  "represents fsm h \<Longrightarrow> represents (fst (fsm_step i fsm)) (fst (history_step 0 i h)) \<and>
   snd (fsm_step i fsm) = snd (history_step (tf_within fsm) i h)"
  using step_simulation [of fsm h i] by (simp add: history_step_window [of "tf_within fsm"])

lemma feed_taps_some: "snd (feed_taps step f rules fsms (Some a)) = Some a"
proof (induction rules arbitrary: fsms)
  case (Cons r rules)
  then show ?case by (cases fsms) (simp_all add: Let_def case_prod_beta)
qed simp

lemma feed_taps_represent:
  assumes "map tf_within fsms = map rule_window rules" and "\<forall>fsm \<in> set fsms. represents fsm h"
  shows "(\<forall>fsm \<in> set (fst (feed_taps (fsm_step i) f rules fsms a)). represents fsm (fst (history_step 0 i h))) \<and>
    snd (feed_taps (fsm_step i) f rules fsms None) =
      map_option r_action (find (\<lambda>r. tap_rule_fires r (snd (history_step (rule_window r) i h)) f) rules)"
  using assms
proof (induction rules arbitrary: fsms a)
  case (Cons r rules)
  then obtain fsm rest where f: "fsms = fsm # rest" "tf_within fsm = rule_window r"
      "map tf_within rest = map rule_window rules"
    by (cases fsms) auto
  with Cons.prems(2) have rep: "represents fsm h" "\<forall>fsm \<in> set rest. represents fsm h"
    by auto
  with Cons.IH [OF f(3)] represents_step [OF rep(1), of i] f(2) show ?case
    by (simp add: f(1) Let_def case_prod_beta feed_taps_some)
qed simp

lemma fsm_step_transition: "on_transition k w dn ms now = fsm_step (Transition k w dn ms now)"
  by (simp add: fun_eq_iff)

lemma device_fsms_insert [simp]:
  "device_fsms d (m\<lparr>m_tap_fsms := hm_insert d fsms T\<rparr>) = fsms"
  "device_fsms d (m\<lparr>m_tap_fsms := hm_insert d fsms T, m_swallowed_downs := S\<rparr>) = fsms"
  "device_fsms d (m\<lparr>m_modifier_state := ms, m_tap_fsms := hm_insert d fsms T\<rparr>) = fsms"
  "device_fsms d (m\<lparr>m_tap_fsms := hm_insert d fsms T', m_modifier_state := ms\<rparr>) = fsms"
  by (simp_all add: device_fsms_def hm_lookup)

lemma device_fsms_frame [simp]:
  "device_fsms d (snd (reconcile_delivery_event p k m)) = device_fsms d m"
  "device_fsms d (m\<lparr>m_swallowed_downs := S\<rparr>) = device_fsms d m"
  by (auto simp: device_fsms_def split: option.splits)

lemma represent_other_key:
  "\<forall>fsm \<in> set fsms. represents fsm h \<Longrightarrow>
   \<forall>fsm \<in> set (map on_other_key fsms). represents fsm (fst (history_step 0 OtherKey h))"
  using represents_other_key [of _ h 0] by (auto simp del: history_step.simps)

lemma was_down_eq:
  "(case hm_get (m_modifier_state m) (d, c) of Some b \<Rightarrow> b | None \<Rightarrow> False) = modifier_was_down d c m"
  by (simp add: modifier_was_down_def split: option.splits)

lemma tap_verdict_OtherKey: "tap_verdict rules f (Some OtherKey) h = Pass"
  by (simp add: tap_verdict_def tap_rule_fires_def find_None_iff split: option.splits)

lemma dispatch_modifier_taps:
  assumes inv: "matcher_inv m" and fsms: "fsms = device_fsms d m" and rep: "taps_represent d m h"
    and modifier: "is_modifier (code e)" and free: "own m (d, code e) = Free"
  shows "taps_represent d (snd (dispatch_modifier d e f now fsms m))
      (history_after (history_input d e now m) h) \<and>
    fst (dispatch_modifier d e f now fsms m) =
      tap_verdict (rs_taps (m_rules m)) f (history_input d e now m) h"
proof -
  let ?c = "code e" and ?dn = "modifier_goes_down e" and ?wd = "modifier_was_down d (code e) m"
  have eq: "dispatch_modifier d e f now fsms m =
    (if kind e = ModifiersChanged \<and> modifier_bit ?c = 0 then (Pass, m)
     else
       let m' = m\<lparr>m_modifier_state := hm_insert (d, ?c) ?dn (m_modifier_state m)\<rparr>
       in if ?dn \<and> \<not> ?wd \<and> other_modifier_held d ?c m
          then (Pass, m'\<lparr>m_tap_fsms := hm_insert d (map on_other_key fsms) (m_tap_fsms m)\<rparr>)
          else
            let r = feed_taps (fsm_step (Transition ?c ?wd ?dn (mods e) now)) f (rs_taps (m_rules m)) fsms None
            in (case snd r of Some a \<Rightarrow> Replace a | None \<Rightarrow> Pass,
                m'\<lparr>m_tap_fsms := hm_insert d (fst r) (m_tap_fsms m)\<rparr>))"
    by (simp add: dispatch_modifier_def Let_def was_down_eq hm_any_other_modifier [OF inv] fsm_step_transition
        case_prod_beta mods_is_empty_def flip: modifier_goes_down_def)
  have r: "\<forall>fsm \<in> set fsms. represents fsm h"
    using rep fsms by (simp add: taps_represent_def)
  have w: "map tf_within fsms = map rule_window (rs_taps (m_rules m))"
    using device_fsms_within [OF inv] fsms by simp
  note fed = feed_taps_represent [OF w r, of "Transition ?c ?wd ?dn (mods e) now" f None]
  consider (unknown) "kind e = ModifiersChanged \<and> modifier_bit ?c = 0"
    | (interrupt) "\<not> (kind e = ModifiersChanged \<and> modifier_bit ?c = 0)"
      "?dn \<and> \<not> ?wd \<and> other_modifier_held d ?c m"
    | (transition) "\<not> (kind e = ModifiersChanged \<and> modifier_bit ?c = 0)"
      "\<not> (?dn \<and> \<not> ?wd \<and> other_modifier_held d ?c m)"
    by blast
  then show ?thesis
  proof cases
    case unknown
    with modifier free rep show ?thesis
      by (simp add: eq history_input_def history_after_def tap_verdict_def)
  next
    case interrupt
    then have "history_input d e now m = Some OtherKey"
      using modifier free by (simp add: history_input_def)
    with interrupt represent_other_key [OF r] show ?thesis
      by (auto simp: eq history_after_def tap_verdict_OtherKey taps_represent_def Let_def
          simp del: history_step.simps)
  next
    case transition
    then have i: "history_input d e now m = Some (Transition ?c ?wd ?dn (mods e) now)"
      using modifier free by (auto simp: history_input_def)
    have "snd (feed_taps (fsm_step (Transition ?c ?wd ?dn (mods e) now)) f (rs_taps (m_rules m)) fsms None) =
      map_option r_action (find (\<lambda>r. tap_rule_fires r
        (snd (history_step (rule_window r) (Transition ?c ?wd ?dn (mods e) now) h)) f) (rs_taps (m_rules m)))"
      using fed by blast
    with transition i fed show ?thesis
      by (auto simp: eq history_after_def taps_represent_def Let_def tap_verdict_def
          simp del: history_step.simps fsm_step.simps split: option.splits)
  qed
qed

lemma dispatch_key_taps:
  assumes rep: "taps_represent d m h" and "fsms = device_fsms d m" and "\<not> is_modifier (code e)"
    and free: "own m (d, code e) = Free \<or> kind e \<noteq> KeyDown"
  shows "taps_represent d (snd (dispatch_key d e f fsms m)) (history_after (history_input d e now m) h)"
proof (cases "kind e = KeyDown")
  case True
  with assms have i: "history_input d e now m = Some OtherKey"
    by (simp add: history_input_def)
  have "\<forall>fsm \<in> set (map on_other_key fsms). represents fsm (fst (history_step 0 OtherKey h))"
    by (rule represent_other_key) (use assms in \<open>simp add: taps_represent_def\<close>)
  then have "\<forall>fsm \<in> set (device_fsms d (snd (dispatch_key d e f fsms m))).
      represents fsm (fst (history_step 0 OtherKey h))"
    using True by (simp add: dispatch_key_def Let_def del: history_step.simps split: option.splits)
  then show ?thesis
    by (simp add: taps_represent_def i history_after_def del: history_step.simps)
next
  case False
  with assms show ?thesis
    by (simp add: dispatch_key_def history_input_def history_after_def)
qed

lemma history_input_cong:
  assumes "m_modifier_state a = m_modifier_state b" and "own a (d, code e) = own b (d, code e)"
  shows "history_input d e now a = history_input d e now b"
proof -
  have "modifier_was_down d (code e) a = modifier_was_down d (code e) b"
    "other_modifier_held d (code e) a = other_modifier_held d (code e) b"
    using assms(1) by (simp_all add: modifier_was_down_def other_modifier_held_def)
  then show ?thesis
    by (simp add: history_input_def assms(2))
qed

lemma rules_verdict_taps:
  assumes inv: "matcher_inv m" and rep: "taps_represent d m h"
    and own: "own m (d, code e) = Free \<or> \<not> is_modifier (code e) \<and> kind e \<noteq> KeyDown"
  shows "taps_represent d (snd (rules_verdict d e f now m)) (history_after (history_input d e now m) h)
    \<and> (is_modifier (code e) \<longrightarrow> fst (rules_verdict d e f now m) =
        tap_verdict (rs_taps (m_rules m)) f (history_input d e now m) h)"
proof -
  let ?m = "m\<lparr>m_tap_fsms := hm_insert d (device_fsms d m) (m_tap_fsms m)\<rparr>"
  have m: "matcher_inv ?m"
    using inv by (simp add: inv_tap_fsms device_fsms_within)
  have r: "taps_represent d ?m h" and o: "own ?m = own m"
    using rep by (simp_all add: taps_represent_def own_def fun_eq_iff)
  have i: "history_input d e now ?m = history_input d e now m"
    by (rule history_input_cong) (simp_all add: own_def)
  show ?thesis
    using dispatch_modifier_taps [OF m _ r, of _ e f now] dispatch_key_taps [OF r, of _ e f now] own o i
    by (auto simp: rules_verdict_def Let_def)
qed

lemma dispatch_taps:
  assumes inv: "matcher_inv m" and rep: "taps_represent d m h"
    and d: "dispatch_device d e f now m = Some (v, m')"
  shows "taps_represent d m' (history_after (history_input d e now m) h) \<and>
    (is_modifier (code e) \<longrightarrow> v = tap_verdict (rs_taps (m_rules m)) f (history_input d e now m) h)"
proof -
  let ?m1 = "snd (reconcile_delivery_event (d, code e) (kind e) m)"
  have r1: "taps_represent d ?m1 h"
    using rep by (simp add: taps_represent_def)
  from inv d show ?thesis
  proof (cases rule: dispatch_device_cases)
    case rules
    have own: "own ?m1 (d, code e) = Free \<or> \<not> is_modifier (code e) \<and> kind e \<noteq> KeyDown"
      using rules(1) own_not_modifier [OF reconcile_inv [OF inv], of "(d, code e)" "kind e" "(d, code e)"]
      by (auto simp: own_def)
    have "history_input d e now ?m1 = history_input d e now m"
      by (rule history_input_cong) (use rules(1) in \<open>auto simp: own_def\<close>)
    with rules_verdict_taps [OF reconcile_inv [OF inv] r1 own, of f now] rules(2,3) show ?thesis
      by auto
  qed (use rep in \<open>auto simp: history_input_def history_after_def own_def taps_represent_def\<close>)
qed

section \<open>Properties\<close>

text \<open>C14: The key-down of an ordinary key that nobody owns is decided by the first rule of the
  configuration, in the order in which the rules are written, whose hotkey matches key and
  modifiers and whose scope admits the focused application; without one it passes.\<close>

theorem first_matching_hotkey_wins:
  assumes "matcher_inv m" and "m_rules m = rule_set_new rules" and "own m (d, code e) = Free"
    and "\<not> is_modifier (code e)" and "kind e = KeyDown"
  shows "\<exists>m'. dispatch_device d e f now m =
    Some (case find (hotkey_rule_fires e f) rules of Some r \<Rightarrow> Replace (r_action r) | None \<Rightarrow> Pass, m')"
  using dispatch_device_total [OF assms(1), of d e f now] hotkey_verdict [OF assms(1,3,4,5)] assms(2)
  by (metis find_hotkeys)

theorem first_matching_hotkey_wins_witness:
  "\<exists>m'. dispatch_device 1 ex_down None 0 ex_matcher = Some (Replace (SendKey ArrowLeft 0), m')"
proof -
  have "find (hotkey_rule_fires ex_down None) ex_rules = Some (hd ex_rules)" "r_action (hd ex_rules) = SendKey ArrowLeft 0"
    by code_simp+
  moreover have "own ex_matcher (1, code ex_down) = Free" "\<not> is_modifier (code ex_down)" "kind ex_down = KeyDown"
    by code_simp+
  ultimately show ?thesis
    using first_matching_hotkey_wins [OF ex_matcher_inv, of ex_rules 1 ex_down None 0]
    by (simp add: ex_matcher_def matcher_new_def)
qed

text \<open>C5: Tap rules are decided by the device's tap history. If all machines of a device represent a
  history, then after any dispatched event they all represent the history extended by what the
  event means; and a modifier event gets the action of the first tap rule in configuration order
  whose modifier, count and scope match the tap the history reports under that rule's own
  window, and passes if there is none.\<close>

theorem taps_follow_history:
  assumes "matcher_inv m" and "m_rules m = rule_set_new rules" and "taps_represent d m h"
  shows "\<exists>v m'. dispatch_device d e f now m = Some (v, m') \<and>
    taps_represent d m' (history_after (history_input d e now m) h) \<and>
    (is_modifier (code e) \<longrightarrow> v = tap_verdict rules f (history_input d e now m) h)"
proof -
  obtain v m' where r: "dispatch_device d e f now m = Some (v, m')"
    using dispatch_device_total [OF assms(1)] by blast
  have "find (\<lambda>r. tap_rule_fires r (g r) f) (rs_taps (m_rules m)) = find (\<lambda>r. tap_rule_fires r (g r) f) rules" for g
    unfolding assms(2) rule_set_new_filter rule_set.simps
    by (rule find_filter) (auto simp: tap_rule_fires_def is_hotkey_rule_def split: tap_result.splits trigger.splits)
  then have "tap_verdict (rs_taps (m_rules m)) f i h = tap_verdict rules f i h" for i
    by (simp add: tap_verdict_def split: option.splits)
  with dispatch_taps [OF assms(1,3) r] r show ?thesis
    by auto
qed

text \<open>A double tap of the left shift key, for the example.\<close>

definition ex_tap_rules :: "rule list" where
  "ex_tap_rules = [\<lparr>r_trigger = Tap \<lparr>tt_tap = LeftShift, tt_count = 2, tt_within_ms = 250\<rparr>,
     r_action = SetInputSource ''us'', r_when_app_in = None\<rparr>]"

definition ex_tap_matcher :: matcher where
  "ex_tap_matcher = (matcher_new (rule_set_new ex_tap_rules))
     \<lparr>m_tap_fsms := [(1, [\<lparr>tf_within = 250000000,
          tf_states = [(LeftShift, \<lparr>ts_count = 1, ts_last_tap_at = Some 100\<rparr>)],
          tf_active_key = Some LeftShift, tf_active_down_at = Some 200, tf_active_tainted = False\<rparr>])],
       m_modifier_state := [((1, LeftShift), True)]\<rparr>"

definition ex_tap_history :: tap_history where
  "ex_tap_history = \<lparr>th_press = Some (LeftShift, False), th_taps = Some (LeftShift, [100])\<rparr>"

lemma ex_tap_rule_set: "rule_set_new ex_tap_rules = \<lparr>rs_hotkeys = [], rs_taps = ex_tap_rules\<rparr>"
  by (simp add: rule_set_new_filter ex_tap_rules_def is_hotkey_rule_def)

lemma ex_tap_matcher_inv: "matcher_inv ex_tap_matcher"
proof -
  have "map rule_window (rs_taps (rule_set_new ex_tap_rules)) = [250000000]"
    unfolding ex_tap_rule_set by (simp add: rule_window_def ex_tap_rules_def from_millis_def)
  then show ?thesis
    using rule_set_new_wf [of ex_tap_rules]
    by (simp add: matcher_inv_defs ex_tap_matcher_def matcher_new_def hm_inv_def hm_get_def hm_is_empty_def)
qed

lemma ex_tap_represents: "taps_represent 1 ex_tap_matcher ex_tap_history"
  by (simp add: taps_represent_def device_fsms_def ex_tap_matcher_def hm_get_def represents_def
      ex_tap_history_def saturated_one)

theorem taps_follow_history_witness:
  "\<exists>m'. dispatch_device 1 (key_event LeftShift KeyUp 0) None 300 ex_tap_matcher =
    Some (Replace (SetInputSource ''us''), m')"
proof -
  let ?e = "key_event LeftShift KeyUp 0"
  have i: "history_input 1 ?e 300 ex_tap_matcher = Some (Transition LeftShift True False 0 300)"
    by (simp add: history_input_def key_event_def own_def ex_tap_matcher_def matcher_new_def is_modifier_def
        modifier_goes_down_def modifier_was_down_def hm_get_def)
  have r: "m_rules ex_tap_matcher = rule_set_new ex_tap_rules" and k: "is_modifier (code ?e)"
    by (simp_all add: ex_tap_matcher_def matcher_new_def key_event_def is_modifier_def)
  have "tap_verdict ex_tap_rules None (Some (Transition LeftShift True False 0 300)) ex_tap_history =
      Replace (SetInputSource ''us'')"
    by (simp add: tap_verdict_def ex_tap_rules_def ex_tap_history_def tap_rule_fires_def history_of_def
        rule_window_def chained_def saturated_def scope_matches_def from_millis_def)
  then show ?thesis
    using taps_follow_history [OF ex_tap_matcher_inv r ex_tap_represents, of ?e None 300] k
    unfolding i by auto
qed

end
