(* ===== verification/Bytes.thy ===== *)
theory Bytes
  imports Prelude
begin

unbundle bit_operations_syntax

text \<open>
  Little-endian fixed-width integers, as \<^verbatim>\<open>to_le_bytes\<close> and \<^verbatim>\<open>from_le_bytes\<close> convert
  them. Both frame formats of the Linux backend are built from these.
\<close>

type_synonym byte = "8 word"

definition to_le :: "nat \<Rightarrow> 'a::len word \<Rightarrow> byte list" where
  "to_le n w = map (\<lambda>i. ucast (drop_bit (8 * i) w)) [0..<n]"

fun from_le :: "byte list \<Rightarrow> 'a::len word" where
  "from_le [] = 0"
| "from_le (b # bs) = ucast b OR push_bit 8 (from_le bs)"

definition slice :: "nat \<Rightarrow> nat \<Rightarrow> 'a list \<Rightarrow> 'a list" where
  "slice i j xs = take (j - i) (drop i xs)"

lemma length_to_le [simp]: "length (to_le n w) = n"
  by (simp add: to_le_def)

lemma bit_from_le:
  "bit (from_le bs :: 'a::len word) k \<longleftrightarrow>
     k < LENGTH('a) \<and> k div 8 < length bs \<and> bit (bs ! (k div 8)) (k mod 8)"
proof (induction bs arbitrary: k)
  case (Cons b bs)
  show ?case
  proof (cases "k < 8")
    case True
    then show ?thesis
      by (auto simp: bit_or_iff bit_push_bit_iff bit_unsigned_iff)
  next
    case False
    then have "k div 8 = Suc ((k - 8) div 8)" "(k - 8) mod 8 = k mod 8"
      by (simp_all add: le_div_geq mod_if [of k])
    with False Cons.IH [of "k - 8"] show ?thesis
      by (auto simp: bit_or_iff bit_push_bit_iff bit_unsigned_iff dest: bit_imp_le_length)
  qed
qed simp

lemma from_le_to_le:
  assumes "8 * n = LENGTH('a)"
  shows "from_le (to_le n w) = (w :: 'a::len word)"
proof (rule bit_word_eqI)
  fix k
  assume k: "k < LENGTH('a)"
  with assms have "k div 8 < n" by auto
  moreover have "8 * (k div 8) + k mod 8 = k" by simp
  ultimately show "bit (from_le (to_le n w) :: 'a word) k = bit w k"
    using k by (simp add: bit_from_le to_le_def bit_unsigned_iff bit_drop_bit_eq)
qed

lemma to_le_from_le:
  assumes "8 * n = LENGTH('a)" and "length bs = n"
  shows "to_le n (from_le bs :: 'a::len word) = bs"
proof (rule nth_equalityI)
  fix i
  assume "i < length (to_le n (from_le bs :: 'a word))"
  then have i: "i < n" by simp
  show "to_le n (from_le bs :: 'a word) ! i = bs ! i"
  proof (rule bit_word_eqI)
    fix k
    assume "k < LENGTH(8)"
    then have k: "k < 8" by simp
    have "8 * i + k < LENGTH('a)" using i k assms(1) by linarith
    moreover have "(8 * i + k) div 8 = i" "(8 * i + k) mod 8 = k" using k by simp_all
    ultimately show "bit (to_le n (from_le bs :: 'a word) ! i) k = bit (bs ! i) k"
      using i k assms(2)
      by (simp add: to_le_def bit_unsigned_iff bit_drop_bit_eq bit_from_le)
  qed
qed (simp add: assms(2))

lemmas le_roundtrip =
  from_le_to_le [where 'a = 16 and n = 2, simplified]
  from_le_to_le [where 'a = 32 and n = 4, simplified]
  from_le_to_le [where 'a = 64 and n = 8, simplified]

lemmas le_canonical =
  to_le_from_le [where 'a = 16 and n = 2, simplified]
  to_le_from_le [where 'a = 32 and n = 4, simplified]
  to_le_from_le [where 'a = 64 and n = 8, simplified]

lemma slice_append1: "j \<le> length xs \<Longrightarrow> slice i j (xs @ ys) = slice i j xs"
  by (simp add: slice_def)

lemma slice_append2: "length xs \<le> i \<Longrightarrow> slice i j (xs @ ys) = slice (i - length xs) (j - length xs) ys"
  by (simp add: slice_def)

lemma slice_all: "length xs = j \<Longrightarrow> slice 0 j xs = xs"
  by (simp add: slice_def)

lemma length_slice: "j \<le> length xs \<Longrightarrow> length (slice i j xs) = j - i"
  by (simp add: slice_def)

lemma slice_split:
  assumes "i \<le> j" and "j \<le> k"
  shows "slice i k xs = slice i j xs @ slice j k xs"
proof -
  have "take ((j - i) + (k - j)) (drop i xs) = take (j - i) (drop i xs) @ take (k - j) (drop j xs)"
    using assms by (simp only: take_add drop_drop) simp
  with assms show ?thesis
    by (simp add: slice_def)
qed

end
