(* ===== verification/Broker_Protocol.thy ===== *)
theory Broker_Protocol
  imports Bytes
begin

text \<open>
  The fixed-size frames of the privileged input broker, \<^verbatim>\<open>packages/linux/src/protocol.rs\<close>.
  A reader is the list of bytes still to come; \<open>read_exact\<close> fails when too few are left.
\<close>

definition DECISION_TIMEOUT :: duration where
  "DECISION_TIMEOUT = from_millis 10"

definition MAGIC :: "byte list" where
  "MAGIC = [0x53, 0x4C, 0x47, 0x31]"

definition SIZE :: nat where "SIZE = 40"

record raw_event =
  re_type :: "16 word"
  re_code :: "16 word"
  re_value :: "32 word"

definition raw_event_default :: raw_event where
  "raw_event_default = \<lparr>re_type = 0, re_code = 0, re_value = 0\<rparr>"

datatype operation =
  EventOp | PassOp | SwallowOp | ReplaceOp | DeviceReset | SnapshotKey | DeviceRetire

record message =
  msg_operation :: operation
  msg_generation :: "64 word"
  msg_epoch :: "64 word"
  msg_sequence :: "64 word"
  msg_event :: raw_event

datatype frame_error = UnexpectedEof | InvalidFrame | DeadlineExceeded

text \<open>The budget left for a fragment of a frame whose deadline covers the whole of it.\<close>

definition frame_remaining :: "instant \<Rightarrow> instant \<Rightarrow> (duration, frame_error) result" where
  "frame_remaining deadline now = (case checked_duration_since deadline now of
      None \<Rightarrow> Err DeadlineExceeded
    | Some left \<Rightarrow> if left = 0 then Err DeadlineExceeded else Ok left)"

definition operation_code :: "operation \<Rightarrow> byte" where
  "operation_code oper = (case oper of EventOp \<Rightarrow> 1 | PassOp \<Rightarrow> 2 | SwallowOp \<Rightarrow> 3 | ReplaceOp \<Rightarrow> 4
     | DeviceReset \<Rightarrow> 5 | SnapshotKey \<Rightarrow> 6 | DeviceRetire \<Rightarrow> 7)"

definition message_write :: "message \<Rightarrow> byte list" where
  "message_write m =
     MAGIC @ [operation_code (msg_operation m)] @ [0, 0, 0] @
     to_le 8 (msg_generation m) @ to_le 8 (msg_epoch m) @ to_le 8 (msg_sequence m) @
     to_le 2 (re_type (msg_event m)) @ to_le 2 (re_code (msg_event m)) @ to_le 4 (re_value (msg_event m))"

definition operation_of_code :: "byte \<Rightarrow> (operation, frame_error) result" where
  "operation_of_code b =
     (if b = 1 then Ok EventOp else if b = 2 then Ok PassOp else if b = 3 then Ok SwallowOp
      else if b = 4 then Ok ReplaceOp else if b = 5 then Ok DeviceReset
      else if b = 6 then Ok SnapshotKey else if b = 7 then Ok DeviceRetire
      else Err InvalidFrame)"

definition read_exact :: "nat \<Rightarrow> byte list \<Rightarrow> (byte list \<times> byte list, frame_error) result" where
  "read_exact n input = (if length input < n then Err UnexpectedEof else Ok (take n input, drop n input))"

definition message_read :: "byte list \<Rightarrow> (message \<times> byte list, frame_error) result" where
  "message_read input =
     and_then (read_exact SIZE input) (\<lambda>(bytes, rest).
     and_then (ensure (slice 0 4 bytes = MAGIC \<and> slice 5 8 bytes = [0, 0, 0]) InvalidFrame) (\<lambda>_.
     and_then (operation_of_code (bytes ! 4)) (\<lambda>oper.
       Ok (\<lparr>msg_operation = oper,
            msg_generation = from_le (slice 8 16 bytes),
            msg_epoch = from_le (slice 16 24 bytes),
            msg_sequence = from_le (slice 24 32 bytes),
            msg_event = \<lparr>re_type = from_le (slice 32 34 bytes),
                         re_code = from_le (slice 34 36 bytes),
                         re_value = from_le (slice 36 40 bytes)\<rparr>\<rparr>, rest))))"

definition answers :: "message \<Rightarrow> message \<Rightarrow> bool" where
  "answers reply request \<longleftrightarrow>
     msg_operation reply \<in> {PassOp, SwallowOp, ReplaceOp} \<and>
     msg_generation reply = msg_generation request \<and>
     msg_epoch reply = msg_epoch request \<and>
     msg_sequence reply = msg_sequence request"

section \<open>Frames round-trip\<close>

lemma operation_of_code_code [simp]: "operation_of_code (operation_code oper) = Ok oper"
  by (cases oper) (simp_all add: operation_of_code_def operation_code_def)

lemma operation_code_of_code: "operation_of_code b = Ok oper \<Longrightarrow> operation_code oper = b"
  by (auto simp: operation_of_code_def operation_code_def split: if_splits)

lemma length_message_write [simp]: "length (message_write m) = SIZE"
  by (simp add: message_write_def MAGIC_def SIZE_def)

lemma read_exact_append: "length xs = n \<Longrightarrow> read_exact n (xs @ ys) = Ok (xs, ys)"
  by (auto simp: read_exact_def)

lemma message_write_slices:
  "slice 0 4 (message_write m) = MAGIC" "slice 5 8 (message_write m) = [0, 0, 0]"
  "message_write m ! 4 = operation_code (msg_operation m)"
  "slice 8 16 (message_write m) = to_le 8 (msg_generation m)"
  "slice 16 24 (message_write m) = to_le 8 (msg_epoch m)"
  "slice 24 32 (message_write m) = to_le 8 (msg_sequence m)"
  "slice 32 34 (message_write m) = to_le 2 (re_type (msg_event m))"
  "slice 34 36 (message_write m) = to_le 2 (re_code (msg_event m))"
  "slice 36 40 (message_write m) = to_le 4 (re_value (msg_event m))"
  by (simp_all add: message_write_def MAGIC_def slice_def)

lemma message_read_write: "message_read (message_write m @ rest) = Ok (m, rest)"
  by (simp add: message_read_def read_exact_append message_write_slices le_roundtrip)

lemma message_bytes_split:
  assumes "length bs = 40"
  shows "bs = slice 0 4 bs @ [bs ! 4] @ slice 5 8 bs @ slice 8 16 bs @ slice 16 24 bs @ slice 24 32 bs @
    slice 32 34 bs @ slice 34 36 bs @ slice 36 40 bs"
proof -
  have "slice 4 5 bs = [bs ! 4]"
    using assms by (simp add: slice_def take_Suc_conv_app_nth flip: drop_Suc)
  moreover have "bs = slice 0 40 bs"
    using assms by (simp add: slice_def)
  ultimately show ?thesis
    by (simp add: slice_split [of 0 4 40] slice_split [of 4 5 40] slice_split [of 5 8 40] slice_split [of 8 16 40]
        slice_split [of 16 24 40] slice_split [of 24 32 40] slice_split [of 32 34 40] slice_split [of 34 36 40])
qed

lemma message_write_read:
  assumes "message_read input = Ok (m, rest)"
  shows "input = message_write m @ rest"
proof -
  from assms have len: "length (take 40 input) = 40" and rest: "rest = drop 40 input"
    by (auto simp: message_read_def read_exact_def SIZE_def split: if_splits)
  have "message_write m = take 40 input"
    using assms message_bytes_split [OF len]
    by (auto simp: message_read_def message_write_def read_exact_def SIZE_def le_canonical length_slice len
        operation_code_of_code split: if_splits)
  with rest show ?thesis
    by simp
qed

section \<open>Properties\<close>

text \<open>C16: The broker frame codec is exact: reading a byte stream yields a message and the rest of the
  stream if and only if the stream is the encoding of that message followed by that rest. So
  every message survives the round trip, and no other bytes are accepted for it.\<close>

theorem frame_codec_exact:
  "message_read input = Ok (m, rest) \<longleftrightarrow> input = message_write m @ rest"
  using message_read_write message_write_read by blast

end
