(* ===== verification/Wire.thy ===== *)
theory Wire
  imports Bytes
begin

text \<open>
  The packet format between the native compositor plugin and the worker,
  \<^verbatim>\<open>packages/linux/src/hyprland/wire.rs\<close>: 512-byte packets, strict decoding and canonical
  encoding. A \<^verbatim>\<open>String\<close> is the list of its UTF-8 bytes; the validity check of
  \<^verbatim>\<open>std::str::from_utf8\<close> is written out.
\<close>

section \<open>Packets\<close>

definition PACKET_SIZE :: nat where "PACKET_SIZE = 512"

definition MAX_WAIT_NS :: "64 word" where "MAX_WAIT_NS = 10000000"

record scope =
  sc_generation :: "64 word"
  sc_lock_epoch :: "64 word"
  sc_sequence :: "64 word"
  sc_deadline_ns :: "64 word"
  sc_nonce :: "64 word"

record native_identity =
  ni_capabilities :: "64 word"
  ni_api_hash :: string
  ni_artifact :: string

record native_event =
  ne_key :: "32 word"
  ne_state :: "32 word"
  ne_time_ms :: "32 word"
  ne_modifiers :: "32 word"
  ne_focus_epoch :: "64 word"
  ne_focus_kind :: "16 word"
  ne_focus :: string

datatype decision =
    PassDecision
  | SwallowDecision
  | ReplaceDecision "32 word" "32 word"

datatype result_kind =
    Replaced
  | RejectedOriginalAdmitted
  | PartialUncertainFatal
  | TimeoutOriginalAdmitted
  | SwallowCommitted
  | StockConsumed
  | OriginalAdmitted
  | MergedOriginal
  | LockerOwned
  | Quarantined

record outcome =
  oc_result :: result_kind
  oc_reason :: "32 word"
  oc_key :: "32 word"
  oc_state :: "32 word"
  oc_focus_epoch :: "64 word"

datatype body =
    HelloBody native_identity
  | HelloAckBody native_identity
  | EventBody native_event
  | DecisionBody decision
  | OutcomeBody outcome
  | InjectBody decision
  | ResetBody "32 word"
  | RetireBody "32 word"
  | LockBody "32 word" "32 word"

record packet =
  pk_scope :: scope
  pk_body :: body

text \<open>Errors of the worker's I/O functions: the kind and the message.\<close>

datatype io_error =
    InvalidData string
  | TimedOut string
  | ConnectionAborted string
  | ConnectionReset string
  | UnexpectedEof string
  | BrokenPipe
  | PermissionDenied string
  | WriteZero
  | OtherError string
  | OsError nat

definition invalid :: io_error where
  "invalid = InvalidData ''invalid Hyprland SHP1 packet/scope''"

section \<open>Decoding\<close>

definition u16_at :: "byte list \<Rightarrow> nat \<Rightarrow> 16 word" where
  "u16_at b p = from_le (slice p (p + 2) b)"

definition u32_at :: "byte list \<Rightarrow> nat \<Rightarrow> 32 word" where
  "u32_at b p = from_le (slice p (p + 4) b)"

definition u64_at :: "byte list \<Rightarrow> nat \<Rightarrow> 64 word" where
  "u64_at b p = from_le (slice p (p + 8) b)"

definition zero_bytes :: "byte list \<Rightarrow> (unit, io_error) result" where
  "zero_bytes b = (if list_ex (\<lambda>v. v \<noteq> 0) b then Err invalid else Ok ())"

definition continuation :: "byte \<Rightarrow> bool" where
  "continuation b \<longleftrightarrow> 0x80 \<le> b \<and> b \<le> 0xBF"

fun utf8_valid :: "byte list \<Rightarrow> bool" where
  "utf8_valid [] = True"
| "utf8_valid (a # bs) =
     (if a < 0x80 then utf8_valid bs
      else if 0xC2 \<le> a \<and> a \<le> 0xDF then
        (case bs of b # r \<Rightarrow> continuation b \<and> utf8_valid r | _ \<Rightarrow> False)
      else if 0xE0 \<le> a \<and> a \<le> 0xEF then
        (case bs of b # c # r \<Rightarrow> continuation b \<and> (a = 0xE0 \<longrightarrow> 0xA0 \<le> b) \<and> (a = 0xED \<longrightarrow> b \<le> 0x9F) \<and>
           continuation c \<and> utf8_valid r | _ \<Rightarrow> False)
      else if 0xF0 \<le> a \<and> a \<le> 0xF4 then
        (case bs of b # c # d # r \<Rightarrow> continuation b \<and> (a = 0xF0 \<longrightarrow> 0x90 \<le> b) \<and> (a = 0xF4 \<longrightarrow> b \<le> 0x8F) \<and>
           continuation c \<and> continuation d \<and> utf8_valid r | _ \<Rightarrow> False)
      else False)"

definition decode_text :: "byte list \<Rightarrow> (string, io_error) result" where
  "decode_text b =
     (if list_ex (\<lambda>v. v = 0) b then Err invalid
      else if utf8_valid b then Ok (string_of_bytes b) else Err invalid)"

definition decode_hello :: "byte list \<Rightarrow> (native_identity, io_error) result" where
  "decode_hello b =
     (let h = unat (u16_at b 8); a = unat (u16_at b 10); capabilities = u64_at b 0 in
      if 192 < h \<or> 192 < a \<or> capabilities AND NOT 15 \<noteq> 0 then Err invalid
      else and_then (zero_bytes (slice 12 16 b)) (\<lambda>_.
        and_then (zero_bytes (slice (16 + h) 208 b)) (\<lambda>_.
        and_then (zero_bytes (slice (208 + a) 400 b)) (\<lambda>_.
        and_then (decode_text (slice 16 (16 + h) b)) (\<lambda>api_hash.
        and_then (decode_text (slice 208 (208 + a) b)) (\<lambda>artifact.
          Ok \<lparr>ni_capabilities = capabilities, ni_api_hash = api_hash, ni_artifact = artifact\<rparr>))))))"

definition decode_event :: "byte list \<Rightarrow> (native_event, io_error) result" where
  "decode_event b =
     (let len = unat (u16_at b 26); focus_kind = u16_at b 24 in
      if 256 < len \<or> length b \<noteq> 32 + len \<or> 2 < focus_kind \<or> (focus_kind = 0 \<and> len \<noteq> 0) \<or>
         (focus_kind \<noteq> 0 \<and> len = 0) \<or> 2 < u32_at b 4 \<or> u32_at b 12 AND NOT 255 \<noteq> 0 then Err invalid
      else and_then (zero_bytes (slice 28 32 b)) (\<lambda>_.
        and_then (decode_text (drop 32 b)) (\<lambda>focus.
          Ok \<lparr>ne_key = u32_at b 0, ne_state = u32_at b 4, ne_time_ms = u32_at b 8,
              ne_modifiers = u32_at b 12, ne_focus_epoch = u64_at b 16,
              ne_focus_kind = focus_kind, ne_focus = focus\<rparr>)))"

definition decode_decision :: "byte list \<Rightarrow> (decision, io_error) result" where
  "decode_decision b =
     and_then (zero_bytes (slice 12 16 b)) (\<lambda>_.
       (let key = u32_at b 4; modifiers = u32_at b 8; verdict = u32_at b 0 in
        if verdict = 0 \<and> key = 0 \<and> modifiers = 0 then Ok PassDecision
        else if verdict = 1 \<and> key = 0 \<and> modifiers = 0 then Ok SwallowDecision
        else if verdict = 2 \<and> modifiers AND NOT 255 = 0 then Ok (ReplaceDecision key modifiers)
        else Err invalid))"

definition decode_result_kind :: "32 word \<Rightarrow> (result_kind, io_error) result" where
  "decode_result_kind v =
     (if v = 0 then Ok Replaced
      else if v = 1 then Ok RejectedOriginalAdmitted
      else if v = 2 then Ok PartialUncertainFatal
      else if v = 3 then Ok TimeoutOriginalAdmitted
      else if v = 4 then Ok SwallowCommitted
      else if v = 5 then Ok StockConsumed
      else if v = 6 then Ok OriginalAdmitted
      else if v = 7 then Ok MergedOriginal
      else if v = 8 then Ok LockerOwned
      else if v = 9 then Ok Quarantined
      else Err invalid)"

definition decode_outcome :: "byte list \<Rightarrow> (outcome, io_error) result" where
  "decode_outcome b =
     and_then (decode_result_kind (u32_at b 0)) (\<lambda>result.
       if 7 < u32_at b 4 \<or> 2 < u32_at b 12 then Err invalid
       else Ok \<lparr>oc_result = result, oc_reason = u32_at b 4, oc_key = u32_at b 8,
                oc_state = u32_at b 12, oc_focus_epoch = u64_at b 16\<rparr>)"

definition decode_body :: "16 word \<Rightarrow> scope \<Rightarrow> byte list \<Rightarrow> (body, io_error) result" where
  "decode_body opcode scope b =
     (let len = length b in
      if opcode = 1 \<and> len = 400 then and_then (decode_hello b) (\<lambda>i. Ok (HelloBody i))
      else if opcode = 2 \<and> len = 400 then and_then (decode_hello b) (\<lambda>i. Ok (HelloAckBody i))
      else if opcode = 3 \<and> 32 \<le> len then and_then (decode_event b) (\<lambda>e. Ok (EventBody e))
      else if opcode = 4 \<and> len = 16 then and_then (decode_decision b) (\<lambda>d. Ok (DecisionBody d))
      else if opcode = 5 \<and> len = 24 then and_then (decode_outcome b) (\<lambda>oc. Ok (OutcomeBody oc))
      else if opcode = 6 \<and> len = 16 \<and> sc_generation scope = 0 then
        and_then (decode_decision b) (\<lambda>d. case d of
            ReplaceDecision _ _ \<Rightarrow> Ok (InjectBody d)
          | _ \<Rightarrow> Err invalid)
      else if (opcode = 7 \<or> opcode = 8) \<and> len = 8 then
        and_then (zero_bytes (drop 4 b)) (\<lambda>_.
          let reason = u32_at b 0 in
          if 8 < reason \<or> (opcode = 8 \<and> reason = 8) then Err invalid
          else if opcode = 7 then Ok (ResetBody reason)
          else if sc_generation scope \<noteq> 0 then Ok (RetireBody reason)
          else Err invalid)
      else if opcode = 9 \<and> len = 8 \<and> u32_at b 0 \<le> 2 \<and> u32_at b 4 \<le> 7 then
        Ok (LockBody (u32_at b 0) (u32_at b 4))
      else Err invalid)"

definition SHP1 :: "byte list" where "SHP1 = as_bytes ''SHP1''"

definition decode :: "byte list \<Rightarrow> (packet, io_error) result" where
  "decode bytes =
     (if length bytes \<noteq> PACKET_SIZE \<or> slice 0 4 bytes \<noteq> SHP1 \<or> u16_at bytes 4 \<noteq> 1 then Err invalid
      else let len = unat (u32_at bytes 8) in
        if 448 < len then Err invalid
        else and_then (zero_bytes (slice 12 16 bytes)) (\<lambda>_.
          and_then (zero_bytes (slice 56 64 bytes)) (\<lambda>_.
          and_then (zero_bytes (drop (64 + len) bytes)) (\<lambda>_.
            let scope = \<lparr>sc_generation = u64_at bytes 16, sc_lock_epoch = u64_at bytes 24,
                  sc_sequence = u64_at bytes 32, sc_deadline_ns = u64_at bytes 40,
                  sc_nonce = u64_at bytes 48\<rparr> in
            and_then (decode_body (u16_at bytes 6) scope (slice 64 (64 + len) bytes)) (\<lambda>body.
              Ok \<lparr>pk_scope = scope, pk_body = body\<rparr>)))))"

section \<open>Encoding\<close>

definition zeros :: "nat \<Rightarrow> byte list" where
  "zeros n = replicate n 0"

definition put :: "nat \<Rightarrow> byte list \<Rightarrow> byte list \<Rightarrow> byte list" where
  "put p v b = take p b @ v @ drop (p + length v) b"

fun result_code :: "result_kind \<Rightarrow> 32 word" where
  "result_code Replaced = 0"
| "result_code RejectedOriginalAdmitted = 1"
| "result_code PartialUncertainFatal = 2"
| "result_code TimeoutOriginalAdmitted = 3"
| "result_code SwallowCommitted = 4"
| "result_code StockConsumed = 5"
| "result_code OriginalAdmitted = 6"
| "result_code MergedOriginal = 7"
| "result_code LockerOwned = 8"
| "result_code Quarantined = 9"

definition put_identity :: "native_identity \<Rightarrow> byte list \<Rightarrow> (byte list, io_error) result" where
  "put_identity i b =
     (if 192 < length (ni_api_hash i) \<or> 192 < length (ni_artifact i) then Err invalid
      else let b = put 0 (to_le 8 (ni_capabilities i)) b;
               b = put 8 (to_le 2 (of_nat (length (ni_api_hash i)) :: 16 word)) b;
               b = put 10 (to_le 2 (of_nat (length (ni_artifact i)) :: 16 word)) b;
               b = put 16 (as_bytes (ni_api_hash i)) b in
           Ok (put 208 (as_bytes (ni_artifact i)) b))"

definition put_event :: "native_event \<Rightarrow> byte list \<Rightarrow> byte list" where
  "put_event e b =
     (let b = put 0 (to_le 4 (ne_key e)) b;
          b = put 4 (to_le 4 (ne_state e)) b;
          b = put 8 (to_le 4 (ne_time_ms e)) b;
          b = put 12 (to_le 4 (ne_modifiers e)) b;
          b = put 16 (to_le 8 (ne_focus_epoch e)) b;
          b = put 24 (to_le 2 (ne_focus_kind e)) b;
          b = put 26 (to_le 2 (of_nat (length (ne_focus e)) :: 16 word)) b in
      put 32 (as_bytes (ne_focus e)) b)"

definition put_decision :: "decision \<Rightarrow> byte list \<Rightarrow> byte list" where
  "put_decision d b =
     (let (verdict, key, modifiers) = (case d of
            PassDecision \<Rightarrow> (0, 0, 0)
          | SwallowDecision \<Rightarrow> (1, 0, 0)
          | ReplaceDecision key modifiers \<Rightarrow> (2 :: 32 word, key, modifiers));
          b = put 0 (to_le 4 verdict) b;
          b = put 4 (to_le 4 key) b in
      put 8 (to_le 4 modifiers) b)"

definition put_outcome :: "outcome \<Rightarrow> byte list \<Rightarrow> byte list" where
  "put_outcome oc b =
     (let b = put 0 (to_le 4 (result_code (oc_result oc))) b;
          b = put 4 (to_le 4 (oc_reason oc)) b;
          b = put 8 (to_le 4 (oc_key oc)) b;
          b = put 12 (to_le 4 (oc_state oc)) b in
      put 16 (to_le 8 (oc_focus_epoch oc)) b)"

fun encode_body :: "body \<Rightarrow> (16 word \<times> byte list, io_error) result" where
  "encode_body (HelloBody i) = and_then (put_identity i (zeros 400)) (\<lambda>b. Ok (1, b))"
| "encode_body (HelloAckBody i) = and_then (put_identity i (zeros 400)) (\<lambda>b. Ok (2, b))"
| "encode_body (EventBody e) =
     (if length (ne_focus e) \<le> 256 then Ok (3, put_event e (zeros (32 + length (ne_focus e)))) else Err invalid)"
| "encode_body (DecisionBody d) = Ok (4, put_decision d (zeros 16))"
| "encode_body (OutcomeBody oc) = Ok (5, put_outcome oc (zeros 24))"
| "encode_body (InjectBody d) = Ok (6, put_decision d (zeros 16))"
| "encode_body (ResetBody r) = Ok (7, put 0 (to_le 4 r) (zeros 8))"
| "encode_body (RetireBody r) = Ok (8, put 0 (to_le 4 r) (zeros 8))"
| "encode_body (LockBody state reason) =
     Ok (9, put 4 (to_le 4 reason) (put 0 (to_le 4 state) (zeros 8)))"

definition put_scope :: "scope \<Rightarrow> byte list \<Rightarrow> byte list" where
  "put_scope s b =
     (let b = put 16 (to_le 8 (sc_generation s)) b;
          b = put 24 (to_le 8 (sc_lock_epoch s)) b;
          b = put 32 (to_le 8 (sc_sequence s)) b;
          b = put 40 (to_le 8 (sc_deadline_ns s)) b in
      put 48 (to_le 8 (sc_nonce s)) b)"

definition encode :: "packet \<Rightarrow> (byte list, io_error) result" where
  "encode p =
     (let bytes = put 0 SHP1 (zeros PACKET_SIZE);
          bytes = put 4 (to_le 2 (1 :: 16 word)) bytes;
          bytes = put_scope (pk_scope p) bytes in
      and_then (encode_body (pk_body p)) (\<lambda>(opcode, body).
        let bytes = put 6 (to_le 2 opcode) bytes;
            bytes = put 8 (to_le 4 (of_nat (length body) :: 32 word)) bytes;
            bytes = put 64 body bytes in
        and_then (decode bytes) (\<lambda>_. Ok bytes)))"

section \<open>Layouts\<close>

lemma length_zeros [simp]: "length (zeros n) = n"
  by (simp add: zeros_def)

lemma take_zeros [simp]: "take m (zeros n) = zeros (min m n)"
  by (simp add: zeros_def min.commute)

lemma drop_zeros [simp]: "drop m (zeros n) = zeros (n - m)"
  by (simp add: zeros_def)

lemma zeros_0 [simp]: "zeros 0 = []"
  by (simp add: zeros_def)

lemma put_0: "put 0 v b = v @ drop (length v) b"
  by (simp add: put_def)

lemma put_left: "p + length v \<le> length xs \<Longrightarrow> put p v (xs @ ys) = put p v xs @ ys"
  by (simp add: put_def)

lemma put_right: "length xs \<le> p \<Longrightarrow> put p v (xs @ ys) = xs @ put (p - length xs) v ys"
  by (simp add: put_def)

lemma put_zeros: "put p v (zeros n) = zeros (min p n) @ v @ zeros (n - (p + length v))"
  by (simp add: put_def)

lemma length_put: "p + length v \<le> length b \<Longrightarrow> length (put p v b) = length b"
  by (simp add: put_def)

lemmas put_simps = put_0 put_left put_right put_zeros

lemma length_SHP1 [simp]: "length SHP1 = 4"
  by (simp add: SHP1_def)

lemma zero_bytes_ok [simp]: "zero_bytes b = Ok u \<longleftrightarrow> b = zeros (length b)"
proof -
  have "list_ex (\<lambda>v. v \<noteq> 0) b \<longleftrightarrow> b \<noteq> zeros (length b)"
    by (induction b) (auto simp: zeros_def)
  then show ?thesis
    by (simp add: zero_bytes_def)
qed

lemma zero_bytes_zeros [simp]: "zero_bytes (zeros n) = Ok ()"
  by simp

lemma decode_text_ok [simp]: "decode_text b = Ok s \<longleftrightarrow> s = string_of_bytes b \<and> 0 \<notin> set b \<and> utf8_valid b"
  by (auto simp: decode_text_def list_ex_iff)

definition header :: "16 word \<Rightarrow> scope \<Rightarrow> byte list \<Rightarrow> byte list" where
  "header opcode s body = SHP1 @ to_le 2 (1 :: 16 word) @ to_le 2 opcode @ to_le 4 (of_nat (length body) :: 32 word) @
     zeros 4 @ to_le 8 (sc_generation s) @ to_le 8 (sc_lock_epoch s) @ to_le 8 (sc_sequence s) @
     to_le 8 (sc_deadline_ns s) @ to_le 8 (sc_nonce s) @ zeros 8"

lemma length_header [simp]: "length (header opcode s body) = 64"
  by (simp add: header_def)

text \<open>What the writes of an encoder leave in its buffer.\<close>

lemma encode_layout:
  assumes "encode_body (pk_body p) = Ok (opcode, body)" and "length body \<le> 448"
  shows "encode p = (let bytes = header opcode (pk_scope p) body @ body @ zeros (448 - length body) in
    and_then (decode bytes) (\<lambda>_. Ok bytes))"
  using assms by (simp add: encode_def PACKET_SIZE_def put_scope_def put_simps header_def)

lemma header_fields:
  assumes "bs = header opcode s body @ rest"
  shows "slice 0 4 bs = SHP1" "u16_at bs 4 = 1" "u16_at bs 6 = opcode"
    "u32_at bs 8 = of_nat (length body)" "slice 12 16 bs = zeros 4" "slice 56 64 bs = zeros 8"
    "u64_at bs 16 = sc_generation s" "u64_at bs 24 = sc_lock_epoch s" "u64_at bs 32 = sc_sequence s"
    "u64_at bs 40 = sc_deadline_ns s" "u64_at bs 48 = sc_nonce s" "drop (64 + n) bs = drop n rest"
    "slice 64 (64 + n) bs = take n rest"
  using assms by (simp_all add: header_def slice_def u16_at_def u32_at_def u64_at_def le_roundtrip)

lemma scope_fields:
  "\<lparr>sc_generation = sc_generation s, sc_lock_epoch = sc_lock_epoch s, sc_sequence = sc_sequence s,
     sc_deadline_ns = sc_deadline_ns s, sc_nonce = sc_nonce s\<rparr> = (s :: scope)"
  by simp

lemma decode_layout:
  assumes "length body \<le> 448"
  shows "decode (header opcode s body @ body @ zeros (448 - length body)) =
    and_then (decode_body opcode s body) (\<lambda>b. Ok \<lparr>pk_scope = s, pk_body = b\<rparr>)"
proof -
  have "unat (of_nat (length body) :: 32 word) = length body"
    using assms by (simp add: unat_of_nat)
  with assms show ?thesis
    by (simp add: decode_def header_fields [OF refl] PACKET_SIZE_def Let_def scope_fields)
qed

lemma put_identity_layout:
  "put_identity i (zeros 400) = Ok b \<longleftrightarrow>
     length (ni_api_hash i) \<le> 192 \<and> length (ni_artifact i) \<le> 192 \<and>
     b = to_le 8 (ni_capabilities i) @ to_le 2 (of_nat (length (ni_api_hash i)) :: 16 word) @
       to_le 2 (of_nat (length (ni_artifact i)) :: 16 word) @ zeros 4 @
       as_bytes (ni_api_hash i) @ zeros (192 - length (ni_api_hash i)) @
       as_bytes (ni_artifact i) @ zeros (192 - length (ni_artifact i))"
  by (auto simp: put_identity_def put_simps)

lemma put_event_layout:
  "put_event e (zeros (32 + length (ne_focus e))) =
     to_le 4 (ne_key e) @ to_le 4 (ne_state e) @ to_le 4 (ne_time_ms e) @ to_le 4 (ne_modifiers e) @
     to_le 8 (ne_focus_epoch e) @ to_le 2 (ne_focus_kind e) @
     to_le 2 (of_nat (length (ne_focus e)) :: 16 word) @ zeros 4 @ as_bytes (ne_focus e)"
  by (simp add: put_event_def put_simps)

fun decision_fields :: "decision \<Rightarrow> 32 word \<times> 32 word \<times> 32 word" where
  "decision_fields PassDecision = (0, 0, 0)"
| "decision_fields SwallowDecision = (1, 0, 0)"
| "decision_fields (ReplaceDecision key modifiers) = (2, key, modifiers)"

lemma put_decision_layout:
  "put_decision d (zeros 16) = (case decision_fields d of
     (verdict, key, modifiers) \<Rightarrow> to_le 4 verdict @ to_le 4 key @ to_le 4 modifiers @ zeros 4)"
  by (cases d) (simp_all add: put_decision_def put_simps)

lemma put_outcome_layout:
  "put_outcome oc (zeros 24) = to_le 4 (result_code (oc_result oc)) @ to_le 4 (oc_reason oc) @
     to_le 4 (oc_key oc) @ to_le 4 (oc_state oc) @ to_le 8 (oc_focus_epoch oc)"
  by (simp add: put_outcome_def put_simps)

lemmas body_layouts = put_identity_layout put_event_layout put_decision_layout put_outcome_layout put_simps

lemma encode_body_length: "encode_body body = Ok (opcode, b) \<Longrightarrow> length b \<le> 448"
  by (cases body) (auto simp: body_layouts split: prod.splits if_splits)

section \<open>Bodies round-trip\<close>

lemmas fields_at = slice_def u16_at_def u32_at_def u64_at_def le_roundtrip

lemma decode_result_kind_iff: "decode_result_kind v = Ok r \<longleftrightarrow> v = result_code r"
  by (cases r) (auto simp: decode_result_kind_def)

lemma result_code_inj [simp]: "result_code r = result_code r' \<longleftrightarrow> r = r'"
  by (cases r; cases r') simp_all

lemma decode_hello_encoded:
  assumes "put_identity i (zeros 400) = Ok b" and "decode_hello b = Ok i'"
  shows "i' = i"
  using assms by (auto simp: put_identity_layout decode_hello_def fields_at unat_of_nat Let_def split: if_splits)

lemma decode_event_encoded:
  assumes "length (ne_focus e) \<le> 256" and "decode_event (put_event e (zeros (32 + length (ne_focus e)))) = Ok e'"
  shows "e' = e"
  using assms by (auto simp: put_event_layout decode_event_def fields_at unat_of_nat Let_def split: if_splits)

lemma decode_decision_encoded: "decode_decision (put_decision d (zeros 16)) = Ok d' \<Longrightarrow> d' = d"
  by (cases d) (auto simp: put_decision_layout decode_decision_def fields_at Let_def split: if_splits)

lemma decode_outcome_encoded: "decode_outcome (put_outcome oc (zeros 24)) = Ok oc' \<Longrightarrow> oc' = oc"
  by (auto simp: put_outcome_layout decode_outcome_def fields_at decode_result_kind_iff split: if_splits)

text \<open>Conversely, accepted bytes are the bytes the encoder would write.\<close>

lemmas slice_join = slice_split [symmetric]

lemma slice_whole: "length b = n \<Longrightarrow> slice 0 n b = b"
  by (simp add: slice_def)

lemma canonical_at:
  "p + 2 \<le> length b \<Longrightarrow> to_le 2 (u16_at b p) = slice p (p + 2) b"
  "p + 4 \<le> length b \<Longrightarrow> to_le 4 (u32_at b p) = slice p (p + 4) b"
  "p + 8 \<le> length b \<Longrightarrow> to_le 8 (u64_at b p) = slice p (p + 8) b"
  by (simp_all add: u16_at_def u32_at_def u64_at_def le_canonical length_slice)

lemma encode_decoded_hello:
  assumes "length b = 400" and "decode_hello b = Ok i"
  shows "put_identity i (zeros 400) = Ok b"
proof -
  define h a where "h = unat (u16_at b 8)" and "a = unat (u16_at b 10)"
  have i: "i = \<lparr>ni_capabilities = u64_at b 0, ni_api_hash = string_of_bytes (slice 16 (16 + h) b),
      ni_artifact = string_of_bytes (slice 208 (208 + a) b)\<rparr>"
    and le: "h \<le> 192" "a \<le> 192"
    and z: "slice 12 16 b = zeros (length (slice 12 16 b))"
      "slice (16 + h) 208 b = zeros (length (slice (16 + h) 208 b))"
      "slice (208 + a) 400 b = zeros (length (slice (208 + a) 400 b))"
    using assms(2) unfolding decode_hello_def Let_def h_def [symmetric] a_def [symmetric]
    by (auto split: if_splits)
  have w: "of_nat h = u16_at b 8" "of_nat a = u16_at b 10"
    by (simp_all add: h_def a_def)
  have z': "zeros 4 = slice 12 16 b" "zeros (192 - h) = slice (16 + h) 208 b"
    "zeros (192 - a) = slice (208 + a) 400 b"
    using z le assms(1) by (simp_all add: length_slice)
  show ?thesis
    using le assms(1)
    by (simp add: put_identity_layout i length_slice w canonical_at z' slice_join slice_whole)
qed

lemma encode_decoded_event:
  assumes "decode_event b = Ok e" and "32 \<le> length b"
  shows "length (ne_focus e) \<le> 256" "put_event e (zeros (32 + length (ne_focus e))) = b"
proof -
  define n where "n = unat (u16_at b 26)"
  have e: "e = \<lparr>ne_key = u32_at b 0, ne_state = u32_at b 4, ne_time_ms = u32_at b 8, ne_modifiers = u32_at b 12,
      ne_focus_epoch = u64_at b 16, ne_focus_kind = u16_at b 24, ne_focus = string_of_bytes (drop 32 b)\<rparr>"
    and len: "length b = 32 + n" "n \<le> 256"
    and z: "slice 28 32 b = zeros (length (slice 28 32 b))"
    using assms(1) unfolding decode_event_def Let_def n_def [symmetric]
    by (auto split: if_splits)
  have "of_nat n = u16_at b 26" "zeros 4 = slice 28 32 b" "drop 32 b = slice 32 (32 + n) b"
    using z len by (simp_all add: n_def length_slice slice_def)
  with e len show "length (ne_focus e) \<le> 256" "put_event e (zeros (32 + length (ne_focus e))) = b"
    unfolding put_event_layout by (simp_all add: length_slice canonical_at slice_join slice_whole)
qed

lemma encode_decoded_decision:
  assumes "length b = 16" and "decode_decision b = Ok d"
  shows "put_decision d (zeros 16) = b"
proof -
  have "slice 12 16 b = zeros 4" "decision_fields d = (u32_at b 0, u32_at b 4, u32_at b 8)"
    using assms by (auto simp: decode_decision_def Let_def length_slice split: if_splits)
  with assms(1) show ?thesis
    by (simp add: put_decision_layout canonical_at slice_join slice_whole flip: \<open>slice 12 16 b = zeros 4\<close>)
qed

lemma encode_decoded_outcome:
  assumes "length b = 24" and "decode_outcome b = Ok oc"
  shows "put_outcome oc (zeros 24) = b"
proof -
  obtain r where "result_code r = u32_at b 0"
    "oc = \<lparr>oc_result = r, oc_reason = u32_at b 4, oc_key = u32_at b 8, oc_state = u32_at b 12,
      oc_focus_epoch = u64_at b 16\<rparr>"
    using assms(2) by (auto simp: decode_outcome_def decode_result_kind_iff split: if_splits)
  then show ?thesis
    using assms(1)
    by (simp add: put_outcome_layout canonical_at slice_join slice_whole)
qed

lemma inject_ok:
  "(case d of ReplaceDecision _ _ \<Rightarrow> Ok (InjectBody d) | _ \<Rightarrow> Err invalid) = Ok body \<longleftrightarrow>
     body = InjectBody d \<and> d \<noteq> PassDecision \<and> d \<noteq> SwallowDecision"
  by (cases d) auto

lemma decode_body_encoded:
  assumes "encode_body body = Ok (opcode, b)" and "decode_body opcode s b = Ok body'"
  shows "body' = body"
proof (cases body)
  case (EventBody e)
  with assms show ?thesis
    by (auto simp: decode_body_def put_event_layout Let_def dest: decode_event_encoded split: if_splits)
next
  case (ResetBody r)
  with assms show ?thesis
    by (auto simp: decode_body_def put_simps fields_at Let_def split: if_splits)
next
  case (RetireBody r)
  with assms show ?thesis
    by (auto simp: decode_body_def put_simps fields_at Let_def split: if_splits)
next
  case (LockBody state reason)
  with assms show ?thesis
    by (auto simp: decode_body_def put_simps fields_at Let_def split: if_splits)
qed (use assms in \<open>auto simp: decode_body_def Let_def inject_ok dest: decode_hello_encoded decode_decision_encoded
    decode_outcome_encoded split: if_splits\<close>)

lemma encode_decoded_reason:
  assumes "length b = 8"
  shows "drop 4 b = zeros 4 \<Longrightarrow> put 0 (to_le 4 (u32_at b 0)) (zeros 8) = b"
    "put 4 (to_le 4 (u32_at b 4)) (put 0 (to_le 4 (u32_at b 0)) (zeros 8)) = b"
proof -
  have s: "slice 0 4 b @ slice 4 8 b = b"
    using assms by (simp add: slice_join slice_whole)
  moreover have "drop 4 b = slice 4 8 b"
    using assms by (simp add: slice_def)
  ultimately show "drop 4 b = zeros 4 \<Longrightarrow> put 0 (to_le 4 (u32_at b 0)) (zeros 8) = b"
    using assms by (simp add: put_0 canonical_at length_slice)
  show "put 4 (to_le 4 (u32_at b 4)) (put 0 (to_le 4 (u32_at b 0)) (zeros 8)) = b"
    using assms s by (simp add: put_simps canonical_at length_slice)
qed

lemma encode_decoded_body:
  assumes "decode_body opcode s b = Ok body"
  shows "encode_body body = Ok (opcode, b)"
  using assms
  by (auto simp: decode_body_def Let_def encode_decoded_hello encode_decoded_event encode_decoded_decision
      encode_decoded_outcome encode_decoded_reason inject_ok split: if_splits)

lemma decode_splits:
  assumes "decode bytes = Ok p"
  shows "\<exists>opcode body. decode_body opcode (pk_scope p) body = Ok (pk_body p) \<and> length body \<le> 448 \<and>
    bytes = header opcode (pk_scope p) body @ body @ zeros (448 - length body)"
proof -
  define n body where "n = unat (u32_at bytes 8)" and "body = slice 64 (64 + n) bytes"
  have len: "length bytes = 512" "n \<le> 448" and m: "slice 0 4 bytes = SHP1" "u16_at bytes 4 = 1"
    and z: "slice 12 16 bytes = zeros (length (slice 12 16 bytes))"
      "slice 56 64 bytes = zeros (length (slice 56 64 bytes))" "drop (64 + n) bytes = zeros (448 - n)"
    and p: "decode_body (u16_at bytes 6) (pk_scope p) body = Ok (pk_body p)"
      "pk_scope p = \<lparr>sc_generation = u64_at bytes 16, sc_lock_epoch = u64_at bytes 24,
         sc_sequence = u64_at bytes 32, sc_deadline_ns = u64_at bytes 40, sc_nonce = u64_at bytes 48\<rparr>"
    using assms unfolding decode_def Let_def n_def [symmetric] body_def [symmetric]
    by (auto simp: PACKET_SIZE_def split: if_splits)
  have w: "length body = n" "of_nat n = u32_at bytes 8" "drop (64 + n) bytes = slice (64 + n) 512 bytes"
    "to_le 2 (1 :: 16 word) = slice 4 6 bytes"
    using len m(2) canonical_at(1) [of 4 bytes] by (simp_all add: n_def body_def length_slice slice_def)
  have z': "zeros 4 = slice 12 16 bytes" "zeros 8 = slice 56 64 bytes" "zeros (448 - n) = slice (64 + n) 512 bytes"
    using z len w(3) by (simp_all add: length_slice)
  have "header (u16_at bytes 6) (pk_scope p) body @ body @ zeros (448 - n) = bytes"
    unfolding header_def w m(1) [symmetric] z' p(2)
    using len by (simp add: body_def canonical_at slice_join slice_whole)
  with p(1) w(1) len(2) show ?thesis
    by metis
qed

lemma decode_encoded:
  assumes e: "encode p = Ok bytes"
  shows "decode bytes = Ok p"
proof -
  obtain opcode body where b: "encode_body (pk_body p) = Ok (opcode, body)"
    using e by (auto simp: encode_def Let_def)
  have "decode bytes = and_then (decode_body opcode (pk_scope p) body) (\<lambda>b. Ok \<lparr>pk_scope = pk_scope p, pk_body = b\<rparr>)"
    "is_ok (decode bytes)"
    using e encode_layout [OF b encode_body_length [OF b]] decode_layout [OF encode_body_length [OF b]]
    by (auto simp: Let_def)
  then show "decode bytes = Ok p"
    using decode_body_encoded [OF b] by (auto simp: is_ok_iff)
qed

section \<open>Properties\<close>

text \<open>C23: The packet codec is exact: bytes decode to a packet if and only if that packet encodes to those
  bytes. So every packet that can be encoded survives the round trip, no packet has two encodings,
  and nothing but canonical packets (zero padding, known operation codes, bounded fields, valid text) is
  accepted.\<close>

theorem packet_codec_exact: "decode bytes = Ok p \<longleftrightarrow> encode p = Ok bytes"
proof
  assume d: "decode bytes = Ok p"
  then obtain opcode body where b: "decode_body opcode (pk_scope p) body = Ok (pk_body p)" "length body \<le> 448"
    "bytes = header opcode (pk_scope p) body @ body @ zeros (448 - length body)"
    using decode_splits by blast
  show "encode p = Ok bytes"
    using encode_layout [OF encode_decoded_body [OF b(1)] b(2)] d b(3) by (simp add: Let_def)
qed (rule decode_encoded)

end
