(* ===== verification/Text.thy ===== *)
theory Text
  imports Prelude
begin

text \<open>
  What the sources use of Rust's text and path types: Unicode white space, splitting into words and
  lines, integer parsing, and paths as their components. A string is its UTF-8 bytes throughout.
\<close>

section \<open>White space\<close>

text \<open>\<^verbatim>\<open>str::trim\<close> removes characters with the Unicode property \<^verbatim>\<open>White_Space\<close>; here are their
  UTF-8 encodings. A trimmed string is empty exactly when it consists of them.\<close>

definition strip_white2 :: "nat set \<Rightarrow> nat list \<Rightarrow> nat list option" where
  "strip_white2 B bs = (case bs of b # rest \<Rightarrow> if b \<in> B then Some rest else None | _ \<Rightarrow> None)"

definition strip_white3 :: "(nat \<times> nat) set \<Rightarrow> nat list \<Rightarrow> nat list option" where
  "strip_white3 B bs = (case bs of b # c # rest \<Rightarrow> if (b, c) \<in> B then Some rest else None | _ \<Rightarrow> None)"

definition strip_white :: "nat list \<Rightarrow> nat list option" where
  "strip_white bs = (case bs of
      [] \<Rightarrow> None
    | a # rest \<Rightarrow>
        if a \<in> {9, 10, 11, 12, 13, 32} then Some rest
        else if a = 0xC2 then strip_white2 {0x85, 0xA0} rest
        else if a = 0xE1 then strip_white3 {(0x9A, 0x80)} rest
        else if a = 0xE2 then strip_white3
          {(0x80, 0x80), (0x80, 0x81), (0x80, 0x82), (0x80, 0x83), (0x80, 0x84), (0x80, 0x85),
           (0x80, 0x86), (0x80, 0x87), (0x80, 0x88), (0x80, 0x89), (0x80, 0x8A),
           (0x80, 0xA8), (0x80, 0xA9), (0x80, 0xAF), (0x81, 0x9F)} rest
        else if a = 0xE3 then strip_white3 {(0x80, 0x80)} rest
        else None)"

lemma strip_white_shorter: "strip_white bs = Some rest \<Longrightarrow> length rest < length bs"
  by (auto simp: strip_white_def strip_white2_def strip_white3_def split: if_splits list.splits)

function all_white :: "nat list \<Rightarrow> bool" where
  "all_white bs = (bs = [] \<or> (case strip_white bs of None \<Rightarrow> False | Some rest \<Rightarrow> all_white rest))"
  by pat_completeness auto
termination by (relation "measure length") (auto dest: strip_white_shorter)

text \<open>The words of a text: its maximal runs without white space.\<close>

function split_words :: "nat list \<Rightarrow> nat list \<Rightarrow> nat list list" where
  "split_words word bs = (case strip_white bs of
      Some rest \<Rightarrow> (if word = [] then split_words [] rest else word # split_words [] rest)
    | None \<Rightarrow> (case bs of
          [] \<Rightarrow> (if word = [] then [] else [word])
        | b # rest \<Rightarrow> split_words (word @ [b]) rest))"
  by pat_completeness auto
termination by (relation "measure (length \<circ> snd)") (auto dest: strip_white_shorter)

declare split_words.simps [simp del]

definition split_whitespace :: "string \<Rightarrow> string list" where
  "split_whitespace s = map (map char_of) (split_words [] (map of_char s))"

section \<open>Splitting at a character\<close>

fun split_at :: "char \<Rightarrow> string \<Rightarrow> string list" where
  "split_at c [] = [[]]"
| "split_at c (x # xs) = (if x = c then [] # split_at c xs
     else (case split_at c xs of [] \<Rightarrow> [[x]] | w # ws \<Rightarrow> (x # w) # ws))"

text \<open>\<^verbatim>\<open>str::lines\<close>: no line for a final newline, and a carriage return before the newline dropped.\<close>

definition strip_cr :: "string \<Rightarrow> string" where
  "strip_cr s = (if s \<noteq> [] \<and> last s = CHR 0x0D then butlast s else s)"

definition text_lines :: "string \<Rightarrow> string list" where
  "text_lines s = (let ls = split_at CHR 0x0A s in
     map strip_cr (butlast ls) @ (if last ls = [] then [] else [last ls]))"

definition split_once :: "char \<Rightarrow> string \<Rightarrow> (string \<times> string) option" where
  "split_once c s = (case dropWhile (\<lambda>x. x \<noteq> c) s of
      [] \<Rightarrow> None
    | _ # rest \<Rightarrow> Some (takeWhile (\<lambda>x. x \<noteq> c) s, rest))"

text \<open>The text after the last occurrence of a character.\<close>

definition after_last :: "char \<Rightarrow> string \<Rightarrow> string option" where
  "after_last c s = (if c \<in> set s then Some (last (split_at c s)) else None)"

section \<open>Integers\<close>

definition digit_value :: "nat \<Rightarrow> char \<Rightarrow> nat option" where
  "digit_value radix c = (let n = of_char c :: nat;
      d = (if 48 \<le> n \<and> n \<le> 57 then n - 48
           else if 97 \<le> n \<and> n \<le> 122 then n - 87
           else if 65 \<le> n \<and> n \<le> 90 then n - 55 else radix)
    in if d < radix then Some d else None)"

fun parse_digits :: "nat \<Rightarrow> nat \<Rightarrow> string \<Rightarrow> nat option" where
  "parse_digits radix acc [] = Some acc"
| "parse_digits radix acc (c # cs) = (case digit_value radix c of
      None \<Rightarrow> None
    | Some d \<Rightarrow> parse_digits radix (acc * radix + d) cs)"

text \<open>\<^verbatim>\<open>u64::from_str_radix\<close>: an optional plus sign, at least one digit and no overflow.\<close>

definition parse_u64 :: "nat \<Rightarrow> string \<Rightarrow> 64 word option" where
  "parse_u64 radix s = (let ds = (if s \<noteq> [] \<and> hd s = CHR ''+'' then tl s else s) in
     if ds = [] then None
     else case parse_digits radix 0 ds of
        None \<Rightarrow> None
      | Some n \<Rightarrow> if n < 2 ^ 64 then Some (of_nat n) else None)"

lemma digit_value_decimal: "d < 10 \<Longrightarrow> digit_value 10 (char_of (48 + d)) = Some d"
  by (simp add: digit_value_def Let_def)

lemma parse_digits_append:
  "parse_digits radix acc (s @ t) =
     (case parse_digits radix acc s of None \<Rightarrow> None | Some n \<Rightarrow> parse_digits radix n t)"
  by (induction s arbitrary: acc) (auto split: option.splits)

lemma parse_digits_show_nat: "parse_digits 10 0 (show_nat n) = Some n"
proof (induction n rule: show_nat.induct)
  case (1 n)
  then show ?case
    by (subst show_nat.simps) (simp add: digit_value_decimal parse_digits_append)
qed

lemma show_nat_nonempty [simp]: "show_nat n \<noteq> []"
  by (subst show_nat.simps) simp

lemma digit_value_plus: "digit_value 10 CHR ''+'' = None"
  by (simp add: digit_value_def)

lemma digit_char_no_plus: "d < 10 \<Longrightarrow> char_of (48 + d :: nat) \<noteq> CHR ''+''"
  by (metis digit_value_decimal option.distinct(1) digit_value_plus)

lemma hd_show_nat: "hd (show_nat n) \<noteq> CHR ''+''"
proof (induction n rule: show_nat.induct)
  case (1 n)
  then show ?case
    by (subst show_nat.simps) (simp add: digit_char_no_plus)
qed

text \<open>Printing and parsing a 64-bit integer round-trips.\<close>

lemma parse_u64_show: "parse_u64 10 (show_nat (unat v)) = Some v"
  using hd_show_nat [of "unat v"] unsigned_less [of v, where ?'a = nat]
  by (simp add: parse_u64_def Let_def parse_digits_show_nat)

section \<open>Paths\<close>

text \<open>A path by its components, which is what \<^verbatim>\<open>Path\<close> compares.\<close>

record path =
  pt_absolute :: bool
  pt_components :: "string list"

definition path_of :: "string \<Rightarrow> path" where
  "path_of s = \<lparr>pt_absolute = (s \<noteq> [] \<and> hd s = CHR ''/''),
     pt_components = (let cs = filter (\<lambda>c. c \<noteq> []) (split_at CHR ''/'' s) in
       if s \<noteq> [] \<and> hd s = CHR ''/'' then filter (\<lambda>c. c \<noteq> ''.'') cs
       else take 1 cs @ filter (\<lambda>c. c \<noteq> ''.'') (drop 1 cs))\<rparr>"

definition path_parent :: "path \<Rightarrow> path option" where
  "path_parent p = (if pt_components p = [] then None else Some (p\<lparr>pt_components := butlast (pt_components p)\<rparr>))"

definition path_file_name :: "path \<Rightarrow> string option" where
  "path_file_name p = (if pt_components p = [] \<or> last (pt_components p) \<in> {''..'', ''.''} then None
     else Some (last (pt_components p)))"

definition path_join :: "path \<Rightarrow> string \<Rightarrow> path" where
  "path_join p name = p\<lparr>pt_components := pt_components p @ [name]\<rparr>"

text \<open>\<^verbatim>\<open>Path::strip_prefix\<close> of an absolute prefix.\<close>

definition strip_prefix :: "string list \<Rightarrow> path \<Rightarrow> string list option" where
  "strip_prefix prefix p = (if pt_absolute p \<and> take (length prefix) (pt_components p) = prefix
     then Some (drop (length prefix) (pt_components p)) else None)"

definition path_str :: "path \<Rightarrow> string" where
  "path_str p = (if pt_components p = [] then (if pt_absolute p then ''/'' else [])
     else (if pt_absolute p then ''/'' else []) @
       concat (hd (pt_components p) # map (\<lambda>c. CHR ''/'' # c) (tl (pt_components p))))"

end
