(* ===== verification/World.thy ===== *)
theory World
  imports Wire Text
begin

unbundle bit_operations_syntax

text \<open>
  The operating system under the Linux worker, as a record of the calls the sources make, each a function
  of the world it runs in, and the actions built from them. An action returns a result and a new world;
  \<open>None\<close> is an action that never returns, which a loop around a system call can be.
\<close>

section \<open>Actions\<close>

type_synonym ('w, 'a) io = "'w \<Rightarrow> (('a, io_error) result \<times> 'w) option"

definition io_of :: "('a, io_error) result \<Rightarrow> ('w, 'a) io" where
  "io_of r w = Some (r, w)"

definition io_total :: "('w \<Rightarrow> ('a, io_error) result \<times> 'w) \<Rightarrow> ('w, 'a) io" where
  "io_total f w = Some (f w)"

definition io_bind :: "('w, 'a) io \<Rightarrow> ('a \<Rightarrow> ('w, 'b) io) \<Rightarrow> ('w, 'b) io" where
  "io_bind m f w = (case m w of
      None \<Rightarrow> None
    | Some (Err e, w) \<Rightarrow> Some (Err e, w)
    | Some (Ok a, w) \<Rightarrow> f a w)"

definition io_seq :: "('w, 'a) io \<Rightarrow> ('w, 'b) io \<Rightarrow> ('w, 'b) io" where
  "io_seq m f = io_bind m (\<lambda>_. f)"

text \<open>An early return.\<close>

definition io_ensure :: "bool \<Rightarrow> io_error \<Rightarrow> ('w, unit) io" where
  "io_ensure c e = io_of (ensure c e)"

text \<open>An optional value that must be there, and bytes that must be text.\<close>

definition io_some :: "'a option \<Rightarrow> io_error \<Rightarrow> ('w, 'a) io" where
  "io_some x e = io_of (case x of None \<Rightarrow> Err e | Some a \<Rightarrow> Ok a)"

definition io_utf8 :: "byte list \<Rightarrow> io_error \<Rightarrow> ('w, string) io" where
  "io_utf8 bytes e = io_of (if utf8_valid bytes then Ok (string_of_bytes bytes) else Err e)"

text \<open>A system call fails with an error number, which becomes an error of that number.\<close>

type_synonym errno = nat

definition io_sys :: "('w \<Rightarrow> ('a, errno) result \<times> 'w) \<Rightarrow> ('w, 'a) io" where
  "io_sys call w = (case call w of
      (Ok a, w) \<Rightarrow> Some (Ok a, w)
    | (Err n, w) \<Rightarrow> Some (Err (OsError n), w))"

lemma io_bind_ok_iff [simp]:
  "io_bind m f w = Some (Ok b, w') \<longleftrightarrow> (\<exists>a w1. m w = Some (Ok a, w1) \<and> f a w1 = Some (Ok b, w'))"
  by (auto simp: io_bind_def split: option.splits result.splits)

lemma io_seq_ok_iff [simp]:
  "io_seq m f w = Some (Ok b, w') \<longleftrightarrow> (\<exists>a w1. m w = Some (Ok a, w1) \<and> f w1 = Some (Ok b, w'))"
  by (simp add: io_seq_def)

lemma io_of_iff [simp]: "io_of r w = Some (r', w') \<longleftrightarrow> r = r' \<and> w' = w"
  by (auto simp: io_of_def)

lemma io_ensure_ok_iff [simp]: "io_ensure c e w = Some (Ok u, w') \<longleftrightarrow> c \<and> w' = w"
  by (auto simp: io_ensure_def ensure_def split: if_splits)

lemma io_sys_ok_iff [simp]: "io_sys call w = Some (Ok a, w') \<longleftrightarrow> call w = (Ok a, w')"
  by (auto simp: io_sys_def split: prod.splits result.splits)

lemma io_bind_mono [partial_function_mono]:
  fixes B :: "('x \<Rightarrow> 'y option) \<Rightarrow> ('w, 'a) io" and C :: "'a \<Rightarrow> ('x \<Rightarrow> 'y option) \<Rightarrow> ('w, 'b) io"
  assumes "\<And>w. mono_option (\<lambda>g. B g w)" and "\<And>y w. mono_option (\<lambda>g. C y g w)"
  shows "mono_option (\<lambda>g. io_bind (B g) (\<lambda>y. C y g) w)"
proof (rule monotoneI)
  fix f g :: "'x \<Rightarrow> 'y option"
  assume fg: "option.le_fun f g"
  have B: "B f w = None \<or> B f w = B g w" and C: "C y f w' = None \<or> C y f w' = C y g w'" for y w'
    using monotoneD [OF assms(1), OF fg, of w] monotoneD [OF assms(2), OF fg, of y w']
    by (simp_all add: flat_ord_def)
  show "option_ord (io_bind (B f) (\<lambda>y. C y f) w) (io_bind (B g) (\<lambda>y. C y g) w)"
    using B
  proof
    assume "B f w = B g w"
    then show ?thesis
      using C by (cases "B g w") (auto simp: io_bind_def flat_ord_def split: result.splits, metis C)
  qed (simp add: io_bind_def flat_ord_def)
qed

section \<open>Kinds of errors\<close>

text \<open>The kinds the sources distinguish; an operating-system error has the kind of its number.\<close>

datatype error_kind =
    TimedOutKind | BrokenPipeKind | UnexpectedEofKind | ConnectionResetKind | ConnectionAbortedKind
  | PermissionDeniedKind | InvalidDataKind | OtherKind

definition errno_kind :: "errno \<Rightarrow> error_kind" where
  "errno_kind n = (if n = 110 then TimedOutKind else if n = 32 then BrokenPipeKind
     else if n = 104 then ConnectionResetKind else if n = 103 then ConnectionAbortedKind
     else if n = 1 \<or> n = 13 then PermissionDeniedKind else OtherKind)"

fun kind_of :: "io_error \<Rightarrow> error_kind" where
  "kind_of (InvalidData _) = InvalidDataKind"
| "kind_of (TimedOut _) = TimedOutKind"
| "kind_of (ConnectionAborted _) = ConnectionAbortedKind"
| "kind_of (ConnectionReset _) = ConnectionResetKind"
| "kind_of (UnexpectedEof _) = UnexpectedEofKind"
| "kind_of BrokenPipe = BrokenPipeKind"
| "kind_of (PermissionDenied _) = PermissionDeniedKind"
| "kind_of WriteZero = OtherKind"
| "kind_of (OtherError _) = OtherKind"
| "kind_of (OsError n) = errno_kind n"

definition EINTR :: errno where "EINTR = 4"
definition EAGAIN :: errno where "EAGAIN = 11"
definition EINPROGRESS :: errno where "EINPROGRESS = 115"

section \<open>The calls\<close>

record stat =
  st_uid :: "32 word"
  st_mode :: "32 word"
  st_dev :: "64 word"
  st_ino :: "64 word"
  st_device :: "64 word \<times> 64 word"
  st_size :: "64 word"

definition POLLIN :: "16 word" where "POLLIN = 1"
definition POLLOUT :: "16 word" where "POLLOUT = 4"
definition POLLHUP :: "16 word" where "POLLHUP = 0x10"
definition POLLNVAL :: "16 word" where "POLLNVAL = 0x20"

text \<open>Handles are descriptors; \<open>st_device\<close> is the device as its major and minor number. A receive reports the length of the datagram and the buffer; a poll the
  number of ready descriptors and the events of the polled one, when it knows them all.\<close>

record ('c, 'w) os =
  os_clock_gettime :: "'w \<Rightarrow> (64 word \<times> 64 word, errno) result \<times> 'w"
  os_sleep :: "nat \<Rightarrow> 'w \<Rightarrow> 'w"
  os_poll :: "'c \<Rightarrow> 16 word \<Rightarrow> 16 word \<Rightarrow> 'w \<Rightarrow> (nat \<times> 16 word option, errno) result \<times> 'w"
  os_recv :: "'c \<Rightarrow> 'w \<Rightarrow> (nat \<times> byte list, errno) result \<times> 'w"
  os_send :: "'c \<Rightarrow> byte list \<Rightarrow> 'w \<Rightarrow> (nat, errno) result \<times> 'w"
  os_geteuid :: "32 word"
  os_peer_credentials :: "'c \<Rightarrow> 'w \<Rightarrow> (32 word \<times> 32 word, errno) result \<times> 'w"
  os_socket :: "'w \<Rightarrow> ('c, errno) result \<times> 'w"
  os_unix_addr :: "path \<Rightarrow> 'w \<Rightarrow> (unit, errno) result \<times> 'w"
  os_connect :: "'c \<Rightarrow> path \<Rightarrow> 'w \<Rightarrow> (unit, errno) result \<times> 'w"
  os_socket_error :: "'c \<Rightarrow> 'w \<Rightarrow> (nat, errno) result \<times> 'w"
  os_bind :: "'c \<Rightarrow> path \<Rightarrow> 'w \<Rightarrow> (unit, errno) result \<times> 'w"
  os_listen :: "'c \<Rightarrow> 'w \<Rightarrow> (unit, errno) result \<times> 'w"
  os_accept :: "'c \<Rightarrow> 'w \<Rightarrow> ('c, errno) result \<times> 'w"
  os_open_directory :: "path \<Rightarrow> 'w \<Rightarrow> ('c, errno) result \<times> 'w"
  os_raw_fd :: "'c \<Rightarrow> nat"
  os_fstat :: "'c \<Rightarrow> 'w \<Rightarrow> (stat, errno) result \<times> 'w"
  os_fstatat :: "'c \<Rightarrow> string \<Rightarrow> 'w \<Rightarrow> (stat, errno) result \<times> 'w"
  os_symlink_metadata :: "path \<Rightarrow> 'w \<Rightarrow> (stat, errno) result \<times> 'w"
  os_set_permissions :: "path \<Rightarrow> 32 word \<Rightarrow> 'w \<Rightarrow> (unit, errno) result \<times> 'w"
  os_unlinkat :: "'c \<Rightarrow> string \<Rightarrow> 'w \<Rightarrow> (unit, errno) result \<times> 'w"
  os_canonicalize :: "path \<Rightarrow> 'w \<Rightarrow> (path, errno) result \<times> 'w"
  os_metadata :: "path \<Rightarrow> 'w \<Rightarrow> (stat, errno) result \<times> 'w"
  os_read_prefix :: "path \<Rightarrow> nat \<Rightarrow> 'w \<Rightarrow> (byte list, errno) result \<times> 'w"
  os_open_file :: "path \<Rightarrow> 'w \<Rightarrow> ('c, errno) result \<times> 'w"
  os_open_nofollow :: "path \<Rightarrow> 'w \<Rightarrow> ('c, errno) result \<times> 'w"
  os_read_to_end :: "'c \<Rightarrow> nat \<Rightarrow> 'w \<Rightarrow> (byte list, errno) result \<times> 'w"
  os_read :: "'c \<Rightarrow> nat \<Rightarrow> 'w \<Rightarrow> (byte list, errno) result \<times> 'w"

text \<open>What the loops rely on: time, read off the world, passes during every call, and a clock reading is
  not before the call.\<close>

definition takes_time :: "('w \<Rightarrow> nat) \<Rightarrow> ('w \<Rightarrow> 'a \<times> 'w) \<Rightarrow> bool" where
  "takes_time time call \<longleftrightarrow> (\<forall>w r w'. call w = (r, w') \<longrightarrow> time w < time w')"

definition ticking :: "('c, 'w) os \<Rightarrow> ('w \<Rightarrow> nat) \<Rightarrow> bool" where
  "ticking os time \<longleftrightarrow>
     (\<forall>w s n w'. os_clock_gettime os w = (Ok (s, n), w') \<longrightarrow> time w \<le> unat s * 1000000000 + unat n) \<and>
     takes_time time (os_clock_gettime os) \<and>
     (\<forall>c f t. takes_time time (os_poll os c f t)) \<and>
     (\<forall>c. takes_time time (os_recv os c)) \<and>
     (\<forall>c b. takes_time time (os_send os c b)) \<and>
     (\<forall>c. takes_time time (os_peer_credentials os c)) \<and>
     (\<forall>c. takes_time time (os_accept os c)) \<and>
     (\<forall>c. takes_time time (os_fstat os c)) \<and>
     (\<forall>c n. takes_time time (os_fstatat os c n)) \<and>
     (\<forall>p. takes_time time (os_canonicalize os p)) \<and>
     (\<forall>p. takes_time time (os_metadata os p)) \<and>
     (\<forall>p n. takes_time time (os_read_prefix os p n)) \<and>
     (\<forall>p. takes_time time (os_open_file os p)) \<and>
     (\<forall>p. takes_time time (os_open_nofollow os p)) \<and>
     (\<forall>c n. takes_time time (os_read_to_end os c n)) \<and>
     (\<forall>c n. takes_time time (os_read os c n))"

section \<open>Actions that return\<close>

text \<open>When time passes, an action returns and takes no negative time.\<close>

named_theorems returns_intros
  \<open>actions built from actions that return do\<close>

definition returns :: "('w \<Rightarrow> nat) \<Rightarrow> ('w, 'a) io \<Rightarrow> 'w \<Rightarrow> bool" where
  "returns time m w \<longleftrightarrow> (\<exists>r w'. m w = Some (r, w') \<and> time w \<le> time w')"

lemma returnsE:
  assumes "returns time m w"
  obtains r w' where "m w = Some (r, w')" and "time w \<le> time w'"
  using assms by (auto simp: returns_def)

lemma returns_of [simp]: "returns time (io_of r) w"
  by (simp add: returns_def)

lemma returns_ensure [simp]: "returns time (io_ensure c e) w"
  by (simp add: io_ensure_def)

lemma returns_bind:
  assumes "returns time m w" and "\<And>a w'. m w = Some (Ok a, w') \<Longrightarrow> time w \<le> time w' \<Longrightarrow> returns time (f a) w'"
  shows "returns time (io_bind m f) w"
proof -
  obtain r w1 where m: "m w = Some (r, w1)" "time w \<le> time w1"
    using assms(1) by (rule returnsE)
  then show ?thesis
    using assms(2) [of _ w1] by (cases r) (auto simp: returns_def io_bind_def intro: le_trans)
qed

lemma returns_seq:
  "returns time m w \<Longrightarrow> (\<And>w'. time w \<le> time w' \<Longrightarrow> returns time f w') \<Longrightarrow> returns time (io_seq m f) w"
  by (simp add: io_seq_def returns_bind)

lemma returns_unfold: "(\<And>w. m w = f w) \<Longrightarrow> returns time f w \<Longrightarrow> returns time m w"
  by (simp add: returns_def)

lemma returns_call:
  assumes "\<And>r w1. f w = (r, w1) \<Longrightarrow> time w \<le> time w1 \<and> returns time (K r) w1"
  shows "returns time (\<lambda>w. case f w of (r, w) \<Rightarrow> K r w) w"
  using assms [of "fst (f w)" "snd (f w)"] by (auto simp: returns_def case_prod_beta intro: le_trans)

lemma returns_if: "returns time (if c then f else g) w \<Longrightarrow> returns time (\<lambda>w. if c then f w else g w) w"
  by (simp split: if_splits)

lemma returns_result:
  "(\<And>a. r = Ok a \<Longrightarrow> returns time (F a) w) \<Longrightarrow> (\<And>e. r = Err e \<Longrightarrow> returns time (G e) w) \<Longrightarrow>
   returns time (\<lambda>w. case r of Ok a \<Rightarrow> F a w | Err e \<Rightarrow> G e w) w"
  by (cases r) simp_all

lemma returns_pair:
  "(\<And>a b. p = (a, b) \<Longrightarrow> returns time (F a b) w) \<Longrightarrow> returns time (\<lambda>w. case p of (a, b) \<Rightarrow> F a b w) w"
  by (cases p) simp

lemma returns_value [simp]: "returns time (\<lambda>w. Some (r, w)) w"
  by (simp add: returns_def)

lemma returns_the: "returns time m w \<Longrightarrow> m w = Some (the (m w))"
  by (auto simp: returns_def)

lemma returns_sys: "takes_time time call \<Longrightarrow> returns time (io_sys call) w"
  by (auto simp: returns_def io_sys_def takes_time_def less_imp_le split: prod.splits result.splits)

lemma io_some_returns [returns_intros]: "returns time (io_some x e) w"
  by (simp add: io_some_def)

lemma io_utf8_returns [returns_intros]: "returns time (io_utf8 bytes e) w"
  by (simp add: io_utf8_def)

lemmas [returns_intros] = returns_bind returns_seq returns_of returns_ensure

text \<open>A loop that gives up at a deadline returns if every pass that starts before it ends later than it
  started.\<close>

lemma loop_returns:
  assumes "\<And>w. (\<And>w'. time w < time w' \<Longrightarrow> time w < D \<Longrightarrow> returns time loop w') \<Longrightarrow> returns time loop w"
  shows "returns time loop w"
proof (induction "D - time w" arbitrary: w rule: less_induct)
  case less
  show ?case
    by (rule assms, rule less) simp
qed

lemma ticking_calls [returns_intros]:
  assumes "ticking os time"
  shows "returns time (io_sys (os_clock_gettime os)) w" "returns time (io_sys (os_peer_credentials os c)) w"
    "returns time (io_sys (os_accept os c)) w" "returns time (io_sys (os_fstat os c)) w"
    "returns time (io_sys (os_fstatat os c name)) w" "returns time (io_sys (os_canonicalize os p)) w"
    "returns time (io_sys (os_metadata os p)) w" "returns time (io_sys (os_read_prefix os p n)) w"
    "returns time (io_sys (os_open_file os p)) w" "returns time (io_sys (os_open_nofollow os p)) w"
    "returns time (io_sys (os_read_to_end os c n)) w"
  using assms by (simp_all add: ticking_def returns_sys)

end
