(* ===== verification/Broker_Socket.thy ===== *)
theory Broker_Socket
  imports Broker_Protocol World
begin

text \<open>
  The stream socket between the broker and the daemon, \<^verbatim>\<open>DeadlineSocket\<close> and the socket operations of
  \<^verbatim>\<open>packages/linux/src/protocol.rs\<close>. One deadline covers all fragments of a frame; the loops of
  \<^verbatim>\<open>read_exact\<close> and \<^verbatim>\<open>write_all\<close> repeat interrupted calls.
\<close>

record ('c, 'w) stream =
  so_now :: "'w \<Rightarrow> instant \<times> 'w"
  so_set_read_timeout :: "'c \<Rightarrow> duration \<Rightarrow> 'w \<Rightarrow> (unit, errno) result \<times> 'w"
  so_set_write_timeout :: "'c \<Rightarrow> duration \<Rightarrow> 'w \<Rightarrow> (unit, errno) result \<times> 'w"
  so_read :: "'c \<Rightarrow> nat \<Rightarrow> 'w \<Rightarrow> (byte list, errno) result \<times> 'w"
  so_write :: "'c \<Rightarrow> byte list \<Rightarrow> 'w \<Rightarrow> (nat, errno) result \<times> 'w"
  so_peer_credentials :: "'c \<Rightarrow> 'w \<Rightarrow> (32 word \<times> 32 word, errno) result \<times> 'w"
  so_poll :: "'c \<Rightarrow> 16 word \<Rightarrow> 16 word \<Rightarrow> 'w \<Rightarrow> (nat \<times> 16 word option, errno) result \<times> 'w"

definition so_instant :: "('c, 'w, 'x) stream_scheme \<Rightarrow> ('w, instant) io" where
  "so_instant so = io_total (\<lambda>w. case so_now so w of (now, w) \<Rightarrow> (Ok now, w))"

definition frame_io_error :: "frame_error \<Rightarrow> io_error" where
  "frame_io_error e = (case e of
      frame_error.UnexpectedEof \<Rightarrow> io_error.UnexpectedEof ''failed to fill whole buffer''
    | InvalidFrame \<Rightarrow> InvalidData ''invalid sledge broker frame''
    | DeadlineExceeded \<Rightarrow> TimedOut ''broker frame deadline exceeded'')"

definition io_frame :: "('a, frame_error) result \<Rightarrow> ('w, 'a) io" where
  "io_frame r = io_of (case r of Ok a \<Rightarrow> Ok a | Err e \<Rightarrow> Err (frame_io_error e))"

definition remaining :: "('c, 'w, 'x) stream_scheme \<Rightarrow> instant \<Rightarrow> ('w, duration) io" where
  "remaining so deadline = io_bind (so_instant so) (\<lambda>now. io_frame (frame_remaining deadline now))"

definition deadline_read :: "('c, 'w, 'x) stream_scheme \<Rightarrow> 'c \<Rightarrow> instant \<Rightarrow> nat \<Rightarrow> ('w, byte list) io" where
  "deadline_read so c deadline n = io_bind (remaining so deadline) (\<lambda>left.
     io_seq (io_sys (so_set_read_timeout so c left)) (io_sys (so_read so c n)))"

definition deadline_write :: "('c, 'w, 'x) stream_scheme \<Rightarrow> 'c \<Rightarrow> instant \<Rightarrow> byte list \<Rightarrow> ('w, nat) io" where
  "deadline_write so c deadline bytes = io_bind (remaining so deadline) (\<lambda>left.
     io_seq (io_sys (so_set_write_timeout so c left)) (io_sys (so_write so c bytes)))"

text \<open>The standard library's loops. A count beyond the buffer would panic.\<close>

partial_function (option) read_fully ::
  "(nat \<Rightarrow> ('w, byte list) io) \<Rightarrow> nat \<Rightarrow> byte list \<Rightarrow> ('w, byte list) io" where
  "read_fully rd n got w =
     (if n = 0 then Some (Ok got, w)
      else (case rd n w of
          None \<Rightarrow> None
        | Some (Err e, w) \<Rightarrow> if e = OsError EINTR then read_fully rd n got w else Some (Err e, w)
        | Some (Ok bytes, w) \<Rightarrow>
            if bytes = [] then Some (Err (frame_io_error frame_error.UnexpectedEof), w)
            else if n < length bytes then None
            else read_fully rd (n - length bytes) (got @ bytes) w))"

partial_function (option) write_fully :: "(byte list \<Rightarrow> ('w, nat) io) \<Rightarrow> byte list \<Rightarrow> ('w, unit) io" where
  "write_fully wr bytes w =
     (if bytes = [] then Some (Ok (), w)
      else (case wr bytes w of
          None \<Rightarrow> None
        | Some (Err e, w) \<Rightarrow> if e = OsError EINTR then write_fully wr bytes w else Some (Err e, w)
        | Some (Ok n, w) \<Rightarrow>
            if n = 0 then Some (Err WriteZero, w)
            else if length bytes < n then None
            else write_fully wr (drop n bytes) w))"

definition read_message :: "(nat \<Rightarrow> ('w, byte list) io) \<Rightarrow> ('w, message) io" where
  "read_message rd = io_bind (read_fully rd SIZE []) (\<lambda>bytes. io_bind (io_frame (message_read bytes)) (\<lambda>(m, _). io_of (Ok m)))"

definition write_message :: "(byte list \<Rightarrow> ('w, nat) io) \<Rightarrow> message \<Rightarrow> ('w, unit) io" where
  "write_message wr m = write_fully wr (message_write m)"

definition read_socket :: "('c, 'w, 'x) stream_scheme \<Rightarrow> 'c \<Rightarrow> instant \<Rightarrow> ('w, message) io" where
  "read_socket so c deadline = read_message (deadline_read so c deadline)"

definition write_socket :: "('c, 'w, 'x) stream_scheme \<Rightarrow> message \<Rightarrow> 'c \<Rightarrow> instant \<Rightarrow> ('w, unit) io" where
  "write_socket so m c deadline = write_message (deadline_write so c deadline) m"

section \<open>The deadline bounds a frame\<close>

text \<open>What the loops rely on: time passes during every call, a clock reading is not before the call, and a
  call moves at most the bytes it was given room for.\<close>

definition streaming :: "('c, 'w, 'x) stream_scheme \<Rightarrow> ('w \<Rightarrow> nat) \<Rightarrow> bool" where
  "streaming so time \<longleftrightarrow>
     (\<forall>w now w'. so_now so w = (now, w') \<longrightarrow> time w \<le> now) \<and>
     takes_time time (so_now so) \<and>
     (\<forall>c d. takes_time time (so_set_read_timeout so c d)) \<and>
     (\<forall>c d. takes_time time (so_set_write_timeout so c d)) \<and>
     (\<forall>c n. takes_time time (so_read so c n)) \<and>
     (\<forall>c b. takes_time time (so_write so c b)) \<and>
     (\<forall>c. takes_time time (so_peer_credentials so c)) \<and>
     (\<forall>c f t. takes_time time (so_poll so c f t)) \<and>
     (\<forall>c n w bytes w'. so_read so c n w = (Ok bytes, w') \<longrightarrow> length bytes \<le> n) \<and>
     (\<forall>c bytes w n w'. so_write so c bytes w = (Ok n, w') \<longrightarrow> n \<le> length bytes)"

text \<open>A reader or writer is timely for a deadline if each call returns and takes time, fails once the deadline
  has passed, and stays within its buffer.\<close>

definition timely_io :: "('w \<Rightarrow> nat) \<Rightarrow> instant \<Rightarrow> ('w, 'a) io \<Rightarrow> ('a \<Rightarrow> nat) \<Rightarrow> nat \<Rightarrow> bool" where
  "timely_io time deadline m count n \<longleftrightarrow> (\<forall>w. \<exists>r w'. m w = Some (r, w') \<and> time w < time w' \<and>
     (deadline \<le> time w \<longrightarrow> (\<exists>e. r = Err e \<and> e \<noteq> OsError EINTR)) \<and> (\<forall>a. r = Ok a \<longrightarrow> count a \<le> n))"

lemma timely_ioE:
  assumes "timely_io time deadline m count n"
  obtains r w' where "m w = Some (r, w')" "time w < time w'"
    "deadline \<le> time w \<Longrightarrow> \<exists>e. r = Err e \<and> e \<noteq> OsError EINTR" "\<And>a. r = Ok a \<Longrightarrow> count a \<le> n"
  using assms unfolding timely_io_def by blast

lemma read_fully_returns:
  assumes "\<And>n. timely_io time deadline (rd n) length n"
  shows "returns time (read_fully rd n got) w"
proof (induction "deadline - time w" arbitrary: n got w rule: less_induct)
  case less
  obtain r w1 where r: "rd n w = Some (r, w1)" "time w < time w1"
    "deadline \<le> time w \<Longrightarrow> \<exists>e. r = Err e \<and> e \<noteq> OsError EINTR" "\<And>a. r = Ok a \<Longrightarrow> length a \<le> n"
    using timely_ioE [OF assms [of n]] by metis
  have again: "\<exists>r' w'. read_fully rd n' got' w1 = Some (r', w') \<and> time w \<le> time w'"
    if "\<not> deadline \<le> time w" for n' got'
    using less [of w1 n' got'] that r(2) by (fastforce simp: returns_def)
  show ?case
  proof (cases r)
    case (Ok bytes)
    then have "\<not> deadline \<le> time w" and "length bytes \<le> n"
      using r(3,4) by auto
    then show ?thesis
      using again [of "n - length bytes" "got @ bytes"] r(1,2) Ok
      by (subst (1) returns_def, subst read_fully.simps) auto
  next
    case (Err e)
    show ?thesis
    proof (cases "e = OsError EINTR")
      case True
      then have "\<not> deadline \<le> time w"
        using r(3) Err by auto
      then show ?thesis
        using again [of n got] r(1,2) Err True by (subst (1) returns_def, subst read_fully.simps) auto
    next
      case False
      then show ?thesis
        using r(1,2) Err by (subst returns_def, subst read_fully.simps) auto
    qed
  qed
qed

lemma write_fully_returns:
  assumes "\<And>bytes. timely_io time deadline (wr bytes) id (length bytes)"
  shows "returns time (write_fully wr bytes) w"
proof (induction "deadline - time w" arbitrary: bytes w rule: less_induct)
  case less
  obtain r w1 where r: "wr bytes w = Some (r, w1)" "time w < time w1"
    "deadline \<le> time w \<Longrightarrow> \<exists>e. r = Err e \<and> e \<noteq> OsError EINTR" "\<And>n. r = Ok n \<Longrightarrow> n \<le> length bytes"
    using timely_ioE [OF assms [of bytes]] by (metis id_apply)
  have again: "\<exists>r' w'. write_fully wr bytes' w1 = Some (r', w') \<and> time w \<le> time w'"
    if "\<not> deadline \<le> time w" for bytes'
    using less [of w1 bytes'] that r(2) by (fastforce simp: returns_def)
  show ?case
  proof (cases r)
    case (Ok n)
    then have "\<not> deadline \<le> time w" and "n \<le> length bytes"
      using r(3,4) by auto
    then show ?thesis
      using again [of "drop n bytes"] r(1,2) Ok
      by (subst (1) returns_def, subst write_fully.simps) auto
  next
    case (Err e)
    show ?thesis
    proof (cases "e = OsError EINTR")
      case True
      then have "\<not> deadline \<le> time w"
        using r(3) Err by auto
      then show ?thesis
        using again [of bytes] r(1,2) Err True by (subst (1) returns_def, subst write_fully.simps) auto
    next
      case False
      then show ?thesis
        using r(1,2) Err by (subst returns_def, subst write_fully.simps) auto
    qed
  qed
qed

lemma remaining_spec:
  assumes "streaming so time"
  shows "\<exists>r w'. remaining so deadline w = Some (r, w') \<and> time w < time w' \<and>
    (deadline \<le> time w \<longrightarrow> (\<exists>e. r = Err e \<and> e \<noteq> OsError EINTR)) \<and> (\<forall>e. r = Err e \<longrightarrow> e \<noteq> OsError EINTR)"
proof -
  obtain now w1 where n: "so_now so w = (now, w1)" by fastforce
  with assms have t: "time w \<le> now" "time w < time w1"
    unfolding streaming_def takes_time_def by metis+
  have "remaining so deadline w = io_frame (frame_remaining deadline now) w1"
    by (simp add: remaining_def so_instant_def io_total_def io_bind_def n)
  with t show ?thesis
    by (auto simp: io_frame_def io_of_def frame_remaining_def checked_duration_since_def frame_io_error_def)
qed

lemma deadline_io_timely:
  assumes s: "streaming so time" and set: "\<And>left. takes_time time (setting left)" and call: "takes_time time call"
    and within: "\<And>w a w'. call w = (Ok a, w') \<Longrightarrow> count a \<le> n"
  shows "timely_io time deadline
    (io_bind (remaining so deadline) (\<lambda>left. io_seq (io_sys (setting left)) (io_sys call))) count n"
  unfolding timely_io_def
proof
  fix w
  obtain r w1 where r: "remaining so deadline w = Some (r, w1)" "time w < time w1"
    "deadline \<le> time w \<longrightarrow> (\<exists>e. r = Err e \<and> e \<noteq> OsError EINTR)" "\<forall>e. r = Err e \<longrightarrow> e \<noteq> OsError EINTR"
    using remaining_spec [OF s] by blast
  show "\<exists>r w'. io_bind (remaining so deadline) (\<lambda>left. io_seq (io_sys (setting left)) (io_sys call)) w = Some (r, w') \<and>
    time w < time w' \<and> (deadline \<le> time w \<longrightarrow> (\<exists>e. r = Err e \<and> e \<noteq> OsError EINTR)) \<and> (\<forall>a. r = Ok a \<longrightarrow> count a \<le> n)"
  proof (cases r)
    case (Err e)
    with r show ?thesis by (simp add: io_bind_def)
  next
    case (Ok left)
    obtain r2 w2 r3 w3 where c: "setting left w1 = (r2, w2)" "call w2 = (r3, w3)" by fastforce
    with set [of left] call have "time w1 < time w2" "time w2 < time w3"
      unfolding takes_time_def by blast+
    with r Ok c within [of w2 _ w3] show ?thesis
      by (cases r2; cases r3) (auto simp: io_bind_def io_seq_def io_sys_def)
  qed
qed

lemma deadline_read_timely: "streaming so time \<Longrightarrow> timely_io time deadline (deadline_read so c deadline n) length n"
  unfolding deadline_read_def
  by (rule deadline_io_timely) (simp_all add: streaming_def, blast)

lemma deadline_write_timely:
  "streaming so time \<Longrightarrow> timely_io time deadline (deadline_write so c deadline bytes) id (length bytes)"
  unfolding deadline_write_def
  by (rule deadline_io_timely) (simp_all add: streaming_def, blast)

lemma read_socket_returns [returns_intros]:
  assumes "streaming so time"
  shows "returns time (read_socket so c deadline) w"
  unfolding read_socket_def read_message_def
  by (intro returns_bind read_fully_returns [OF deadline_read_timely [OF assms]])
    (auto simp: io_frame_def split: prod.splits)

lemma write_socket_returns [returns_intros]:
  "streaming so time \<Longrightarrow> returns time (write_socket so m c deadline) w"
  unfolding write_socket_def write_message_def by (rule write_fully_returns [OF deadline_write_timely])

end
