(* ===== verification/Authorization.thy ===== *)
theory Authorization
  imports Broker_Socket
begin

text \<open>
  Who may have a keyboard captured: peer credentials and session proofs, \<^verbatim>\<open>packages/linux/src/authorization.rs\<close>,
  and the logind adapter, \<^verbatim>\<open>packages/linux/src/logind.rs\<close>. The trait \<^verbatim>\<open>SessionAuthority\<close> is a record of its
  methods. The system bus is a parameter.
\<close>

record peer_identity =
  pi_uid :: "32 word"
  pi_pid :: "32 word"

definition peer_identity_of :: "('c, 'w, 'x) stream_scheme \<Rightarrow> 'c \<Rightarrow> ('w, peer_identity) io" where
  "peer_identity_of so c = io_bind (io_sys (so_peer_credentials so c)) (\<lambda>(uid, pid).
     io_of (Ok \<lparr>pi_uid = uid, pi_pid = pid\<rparr>))"

definition authorize_socket_peer :: "('c, 'w, 'x) stream_scheme \<Rightarrow> 32 word \<Rightarrow> 'c \<Rightarrow> ('w, peer_identity) io" where
  "authorize_socket_peer so euid c = io_bind (peer_identity_of so c) (\<lambda>peer.
     io_seq (io_ensure (\<not> (pi_uid peer \<noteq> euid \<or> sint (pi_pid peer) \<le> 0))
       (PermissionDenied ''IPC peer is not the daemon user''))
     (io_of (Ok peer)))"

record session_proof =
  sp_peer :: peer_identity
  sp_seat :: string
  sp_session :: string
  sp_active :: bool
  sp_unlocked :: "bool option"
  sp_local :: bool

definition permits :: "session_proof \<Rightarrow> peer_identity \<Rightarrow> bool" where
  "permits evidence peer \<longleftrightarrow>
     sp_peer evidence = peer \<and> pi_uid peer \<noteq> 0 \<and> 0 < sint (pi_pid peer) \<and> sp_local evidence \<and> sp_active evidence \<and>
     sp_unlocked evidence = Some True \<and> sp_seat evidence \<noteq> [] \<and> sp_session evidence \<noteq> []"

text \<open>Descriptors are of type \<open>'d\<close>.\<close>

record ('d, 'w) session_authority =
  au_verify :: "peer_identity \<Rightarrow> ('w, session_proof) io"
  au_verify_output_ready :: "'d \<Rightarrow> peer_identity \<Rightarrow> ('w, unit) io"
  au_verify_device :: "'d \<Rightarrow> peer_identity \<Rightarrow> ('w, unit) io"

definition default_verify_output_ready :: "'d \<Rightarrow> peer_identity \<Rightarrow> ('w, unit) io" where
  "default_verify_output_ready fd peer =
     io_of (Err (PermissionDenied ''verified output consumer readiness unavailable''))"

definition default_verify_device :: "'d \<Rightarrow> peer_identity \<Rightarrow> ('w, unit) io" where
  "default_verify_device fd peer = io_of (Err (PermissionDenied ''verified device/seat admission unavailable''))"

definition unavailable_authority :: "('d, 'w) session_authority" where
  "unavailable_authority =
     \<lparr>au_verify = (\<lambda>peer. io_of (Err (PermissionDenied ''verified session/seat/lock authority unavailable''))),
      au_verify_output_ready = default_verify_output_ready, au_verify_device = default_verify_device\<rparr>"

section \<open>logind\<close>

text \<open>The bus: a proxy for an object and interface, the one method called, and typed property reads. Errors are
  their display text.\<close>

record 'w login_bus =
  lb_connect :: "'w \<Rightarrow> (unit, string) result \<times> 'w"
  lb_proxy :: "string \<Rightarrow> string \<Rightarrow> 'w \<Rightarrow> (unit, string) result \<times> 'w"
  lb_session_by_pid :: "32 word \<Rightarrow> 'w \<Rightarrow> (string, string) result \<times> 'w"
  lb_user :: "string \<Rightarrow> 'w \<Rightarrow> (32 word \<times> string, string) result \<times> 'w"
  lb_seat :: "string \<Rightarrow> 'w \<Rightarrow> (string \<times> string, string) result \<times> 'w"
  lb_string :: "string \<Rightarrow> string \<Rightarrow> 'w \<Rightarrow> (string, string) result \<times> 'w"
  lb_bool :: "string \<Rightarrow> string \<Rightarrow> 'w \<Rightarrow> (bool, string) result \<times> 'w"

definition bus_error :: "string \<Rightarrow> io_error" where
  "bus_error message = OtherError (''logind: '' @ message)"

definition io_bus :: "('w \<Rightarrow> ('a, string) result \<times> 'w) \<Rightarrow> ('w, 'a) io" where
  "io_bus call w = (case call w of
      (Ok a, w) \<Rightarrow> Some (Ok a, w)
    | (Err e, w) \<Rightarrow> Some (Err (bus_error e), w))"

definition inspect :: "'w login_bus \<Rightarrow> peer_identity \<Rightarrow> ('w, session_proof) io" where
  "inspect bus peer =
     io_seq (io_ensure (0 \<le> sint (pi_pid peer)) (bus_error ''out of range integral type conversion attempted''))
     (io_seq (io_bus (lb_proxy bus ''/org/freedesktop/login1'' ''org.freedesktop.login1.Manager''))
     (io_bind (io_bus (lb_session_by_pid bus (pi_pid peer))) (\<lambda>path.
     io_seq (io_bus (lb_proxy bus path ''org.freedesktop.login1.Session''))
     (io_bind (io_bus (lb_user bus path)) (\<lambda>(uid, _).
     io_seq (io_ensure (uid = pi_uid peer) (PermissionDenied ''peer does not own logind session''))
     (io_bind (io_bus (lb_seat bus path)) (\<lambda>(seat, _).
     io_bind (io_bus (lb_string bus path ''Id'')) (\<lambda>ident.
     io_bind (io_bus (lb_bool bus path ''Active'')) (\<lambda>active.
     io_bind (io_bus (lb_bool bus path ''Remote'')) (\<lambda>remote.
     io_bind (io_bus (lb_string bus path ''Type'')) (\<lambda>kind.
     io_bind (io_bus (lb_bool bus path ''LockedHint'')) (\<lambda>locked.
     io_of (Ok \<lparr>sp_peer = peer, sp_seat = seat, sp_session = ident, sp_active = active,
       sp_unlocked = (if locked then Some False else None),
       sp_local = (\<not> remote \<and> kind \<in> {''wayland'', ''x11''})\<rparr>)))))))))))))"

definition logind_authority :: "'w login_bus \<Rightarrow> ('d, 'w) session_authority" where
  "logind_authority bus = \<lparr>au_verify = inspect bus,
     au_verify_output_ready = default_verify_output_ready, au_verify_device = default_verify_device\<rparr>"

section \<open>What logind can prove\<close>

text \<open>An authority is denying if no proof it gives permits its peer.\<close>

definition denying :: "('d, 'w) session_authority \<Rightarrow> bool" where
  "denying au \<longleftrightarrow> (\<forall>peer w evidence w'. au_verify au peer w = Some (Ok evidence, w') \<longrightarrow> \<not> permits evidence peer)"

lemma inspect_never_unlocked: "inspect bus peer w = Some (Ok evidence, w') \<Longrightarrow> sp_unlocked evidence \<noteq> Some True"
  by (auto simp: inspect_def split: prod.splits if_splits)

lemma logind_denying: "denying (logind_authority bus)"
  by (auto simp: denying_def logind_authority_def permits_def dest: inspect_never_unlocked)

lemma unavailable_denying: "denying unavailable_authority"
  by (simp add: denying_def unavailable_authority_def)

end
