(* ===== verification/Key_State.thy ===== *)
theory Key_State
  imports Broker_Protocol Machines
begin

text \<open>
  Physical and output ownership of one proxied keyboard, \<^verbatim>\<open>packages/linux/src/state.rs\<close>.
  A \<^verbatim>\<open>BTreeSet\<close> of key numbers is a set; the events it is turned into are listed in
  ascending order. Output is speculative until the frame that carries it is accepted.
\<close>

definition MAX_KEY :: "16 word" where "MAX_KEY = 767"

record key_state =
  ks_physical :: "16 word set"
  ks_output :: "16 word set"
  ks_committed_output :: "16 word set"
  ks_swallowed :: "16 word set"
  ks_dropping :: bool

definition key_state_default :: key_state where
  "key_state_default = \<lparr>ks_physical = {}, ks_output = {}, ks_committed_output = {},
     ks_swallowed = {}, ks_dropping = False\<rparr>"

definition raw_key :: "16 word \<Rightarrow> 32 word \<Rightarrow> raw_event" where
  "raw_key c v = \<lparr>re_type = 1, re_code = c, re_value = v\<rparr>"

definition commit_output :: "key_state \<Rightarrow> key_state" where
  "commit_output s = s\<lparr>ks_committed_output := ks_output s\<rparr>"

definition rollback_output :: "key_state \<Rightarrow> key_state" where
  "rollback_output s = s\<lparr>ks_output := ks_committed_output s\<rparr>"

definition state_press :: "raw_event \<Rightarrow> operation \<Rightarrow> key_state \<Rightarrow> raw_event list \<times> key_state" where
  "state_press event decision s =
     (if re_code event \<in> ks_physical s then ([], s)
      else
        let s = s\<lparr>ks_physical := insert (re_code event) (ks_physical s)\<rparr>
        in if decision = PassOp
           then ([event], s\<lparr>ks_output := insert (re_code event) (ks_output s)\<rparr>)
           else ([], s\<lparr>ks_swallowed := insert (re_code event) (ks_swallowed s)\<rparr>))"

definition state_apply :: "raw_event \<Rightarrow> operation \<Rightarrow> key_state \<Rightarrow> raw_event list \<times> key_state" where
  "state_apply event decision s =
     (if decision \<notin> {PassOp, SwallowOp} then ([], s)
      else if re_type event = 0 \<and> re_code event = 3 then ([], s\<lparr>ks_dropping := True\<rparr>)
      else if ks_dropping s then ([], s)
      else if re_type event \<noteq> 1 then ([event], s)
      else if MAX_KEY < re_code event \<or> \<not> (0 \<le> sint (re_value event) \<and> sint (re_value event) \<le> 2)
      then ([], s)
      else if re_value event = 0 then
        (if re_code event \<in> ks_output s then [event] else [],
         s\<lparr>ks_physical := ks_physical s - {re_code event},
           ks_swallowed := ks_swallowed s - {re_code event},
           ks_output := ks_output s - {re_code event}\<rparr>)
      else if re_value event = 2 then (if re_code event \<in> ks_output s then [event] else [], s)
      else state_press event decision s)"

fun resync_presses ::
  "16 word list \<Rightarrow> 16 word set \<Rightarrow> 16 word set \<Rightarrow> raw_event list \<times> 16 word set" where
  "resync_presses [] swallowed output = ([], output)"
| "resync_presses (c # cs) swallowed output =
     (if c \<le> MAX_KEY \<and> c \<notin> output \<and> c \<notin> swallowed
      then let (events, output) = resync_presses cs swallowed (insert c output)
           in (raw_key c 1 # events, output)
      else resync_presses cs swallowed output)"

definition resync :: "16 word set \<Rightarrow> key_state \<Rightarrow> raw_event list \<times> key_state" where
  "resync keys s =
     (let releases = map (\<lambda>c. raw_key c 0) (sorted_list_of_set (ks_output s - keys));
          output = ks_output s \<inter> keys;
          swallowed = ks_swallowed s \<inter> keys;
          (presses, output) = resync_presses (sorted_list_of_set keys) swallowed output
      in (releases @ presses,
          s\<lparr>ks_output := output, ks_swallowed := swallowed, ks_physical := keys, ks_dropping := False\<rparr>))"

definition release_all :: "key_state \<Rightarrow> raw_event list \<times> key_state" where
  "release_all s =
     (map (\<lambda>c. raw_key c 0) (sorted_list_of_set (ks_output s \<union> ks_committed_output s)), key_state_default)"

section \<open>The virtual keyboard\<close>

text \<open>What a list of events does to the set of keys the virtual output device holds down, and
  which lists are well behaved for it: a press only of a key that is up, a release or repeat
  only of one that is down.\<close>

definition device_event :: "raw_event \<Rightarrow> 16 word set \<Rightarrow> 16 word set" where
  "device_event e D =
     (if re_type e = 1 \<and> re_value e = 1 then insert (re_code e) D
      else if re_type e = 1 \<and> re_value e = 0 then D - {re_code e} else D)"

definition device_after :: "raw_event list \<Rightarrow> 16 word set \<Rightarrow> 16 word set" where
  "device_after es D = fold device_event es D"

definition legal_event :: "raw_event \<Rightarrow> 16 word set \<Rightarrow> bool" where
  "legal_event e D \<longleftrightarrow> re_type e = 1 \<longrightarrow>
     (if re_value e = 1 then re_code e \<notin> D else re_code e \<in> D)"

fun legal_events :: "raw_event list \<Rightarrow> 16 word set \<Rightarrow> bool" where
  "legal_events [] D = True"
| "legal_events (e # es) D = (legal_event e D \<and> legal_events es (device_event e D))"

lemma device_after_append: "device_after (es @ fs) D = device_after fs (device_after es D)"
  by (simp add: device_after_def)

lemma device_after_simps [simp]:
  "device_after [] D = D" "device_after (e # es) D = device_after es (device_event e D)"
  by (simp_all add: device_after_def)

lemma legal_events_append:
  "legal_events (es @ fs) D \<longleftrightarrow> legal_events es D \<and> legal_events fs (device_after es D)"
  by (induction es arbitrary: D) auto

lemma device_after_releases: "device_after (map (\<lambda>c. raw_key c 0) cs) D = D - set cs"
  by (induction cs arbitrary: D) (auto simp: device_event_def raw_key_def)

lemma legal_releases:
  "distinct cs \<Longrightarrow> set cs \<subseteq> D \<Longrightarrow> legal_events (map (\<lambda>c. raw_key c 0) cs) D"
  by (induction cs arbitrary: D)
    (simp_all add: device_event_def raw_key_def legal_event_def subset_Diff_insert)

lemma resync_presses_correct:
  "resync_presses cs S D = (es, D') \<Longrightarrow>
     D' = D \<union> {c \<in> set cs. c \<le> MAX_KEY \<and> c \<notin> S} \<and> device_after es D = D' \<and> legal_events es D"
proof (induction cs S D arbitrary: es rule: resync_presses.induct)
  case (2 c cs S D)
  show ?case
  proof (cases "c \<le> MAX_KEY \<and> c \<notin> D \<and> c \<notin> S")
    case True
    with "2.prems" obtain es1 where r: "resync_presses cs S (insert c D) = (es1, D')" "es = raw_key c 1 # es1"
      by (auto simp: Let_def split: prod.splits)
    from "2.IH"(1) [OF True r(1)] r(2) True show ?thesis
      by (auto simp: device_event_def raw_key_def legal_event_def)
  next
    case False
    with "2.prems" have r: "resync_presses cs S D = (es, D')" by (simp split: if_splits)
    from "2.IH"(2) [OF False r] False show ?thesis by auto
  qed
qed simp

lemma resync_correct:
  assumes "resync keys s = (es, s')"
  shows "ks_output s' = (ks_output s \<inter> keys) \<union> {c \<in> keys. c \<le> MAX_KEY \<and> c \<notin> ks_swallowed s}"
    and "device_after es (ks_output s) = ks_output s'" and "legal_events es (ks_output s)"
    and "ks_swallowed s' = ks_swallowed s \<inter> keys" and "ks_physical s' = keys" and "\<not> ks_dropping s'"
    and "ks_committed_output s' = ks_committed_output s"
proof -
  obtain ps out where p: "resync_presses (sorted_list_of_set keys) (ks_swallowed s \<inter> keys) (ks_output s \<inter> keys) = (ps, out)"
    by fastforce
  let ?rs = "map (\<lambda>c. raw_key c 0) (sorted_list_of_set (ks_output s - keys))"
  have e: "es = ?rs @ ps" "ks_output s' = out" "ks_swallowed s' = ks_swallowed s \<inter> keys"
    "ks_physical s' = keys" "\<not> ks_dropping s'" "ks_committed_output s' = ks_committed_output s"
    using assms p by (auto simp: resync_def)
  have d: "device_after ?rs (ks_output s) = ks_output s \<inter> keys" "legal_events ?rs (ks_output s)"
    by (auto simp: device_after_releases intro!: legal_releases)
  note pc = resync_presses_correct [OF p]
  from e d pc show "ks_output s' = (ks_output s \<inter> keys) \<union> {c \<in> keys. c \<le> MAX_KEY \<and> c \<notin> ks_swallowed s}"
    "device_after es (ks_output s) = ks_output s'" "legal_events es (ks_output s)"
    by (auto simp: device_after_append legal_events_append)
  from e show "ks_swallowed s' = ks_swallowed s \<inter> keys" "ks_physical s' = keys" "\<not> ks_dropping s'"
    "ks_committed_output s' = ks_committed_output s" by simp_all
qed

lemma sint_range_iff: "0 \<le> sint v \<and> sint v \<le> 2 \<longleftrightarrow> v = 0 \<or> v = 1 \<or> v = 2" for v :: "32 word"
proof -
  have "v = x \<longleftrightarrow> sint v = sint x" for x
    by (rule word_eq_iff_signed)
  from this [of 0] this [of 1] this [of 2] show ?thesis
    by simp arith
qed

text \<open>What \<open>state_apply\<close> does, by cases.\<close>

lemma state_apply_cases [consumes 1, case_names ignored dropped other release held_repeat press_pass press_swallow]:
  assumes "state_apply e d s = (es, s')"
  obtains "es = []" "s' = s" "re_type e = 1 \<or> d \<notin> {PassOp, SwallowOp} \<or> ks_dropping s"
  | "es = []" "s' = s\<lparr>ks_dropping := True\<rparr>" "re_type e = 0"
  | "es = [e]" "s' = s" "re_type e \<noteq> 1"
  | "es = (if re_code e \<in> ks_output s then [e] else [])" "re_type e = 1" "re_value e = 0"
    "s' = s\<lparr>ks_physical := ks_physical s - {re_code e}, ks_swallowed := ks_swallowed s - {re_code e},
       ks_output := ks_output s - {re_code e}\<rparr>"
  | "es = [e]" "s' = s" "re_type e = 1" "re_value e = 2" "re_code e \<in> ks_output s"
  | "es = [e]" "re_type e = 1" "re_value e = 1" "re_code e \<notin> ks_physical s" "d = PassOp"
    "s' = s\<lparr>ks_physical := insert (re_code e) (ks_physical s), ks_output := insert (re_code e) (ks_output s)\<rparr>"
  | "es = []" "re_type e = 1" "re_value e = 1" "re_code e \<notin> ks_physical s" "d = SwallowOp"
    "s' = s\<lparr>ks_physical := insert (re_code e) (ks_physical s), ks_swallowed := insert (re_code e) (ks_swallowed s)\<rparr>"
proof -
  let ?c = "re_code e" and ?v = "re_value e"
  show thesis
  proof (cases "d = PassOp \<or> d = SwallowOp")
    case True
    then have eq: "state_apply e d s =
      (if re_type e = 0 \<and> ?c = 3 then ([], s\<lparr>ks_dropping := True\<rparr>)
       else if ks_dropping s then ([], s)
       else if re_type e \<noteq> 1 then ([e], s)
       else if MAX_KEY < ?c \<or> \<not> (?v = 0 \<or> ?v = 1 \<or> ?v = 2) then ([], s)
       else if ?v = 0 then
         (if ?c \<in> ks_output s then [e] else [],
          s\<lparr>ks_physical := ks_physical s - {?c}, ks_swallowed := ks_swallowed s - {?c},
            ks_output := ks_output s - {?c}\<rparr>)
       else if ?v = 2 then (if ?c \<in> ks_output s then [e] else [], s)
       else state_press e d s)"
      by (auto simp: state_apply_def sint_range_iff)
    have press: "state_press e d s =
      (if ?c \<in> ks_physical s then ([], s)
       else if d = PassOp then ([e], s\<lparr>ks_physical := insert ?c (ks_physical s), ks_output := insert ?c (ks_output s)\<rparr>)
       else ([], s\<lparr>ks_physical := insert ?c (ks_physical s), ks_swallowed := insert ?c (ks_swallowed s)\<rparr>))"
      by (simp add: state_press_def Let_def)
    note r = assms [unfolded eq press]
    consider (dropped) "re_type e = 0 \<and> ?c = 3"
      | (dropping) "\<not> (re_type e = 0 \<and> ?c = 3)" "ks_dropping s"
      | (other) "\<not> (re_type e = 0 \<and> ?c = 3)" "\<not> ks_dropping s" "re_type e \<noteq> 1"
      | (range) "\<not> ks_dropping s" "re_type e = 1" "MAX_KEY < ?c \<or> \<not> (?v = 0 \<or> ?v = 1 \<or> ?v = 2)"
      | (up) "\<not> ks_dropping s" "re_type e = 1" "\<not> MAX_KEY < ?c" "?v = 0"
      | (again) "\<not> ks_dropping s" "re_type e = 1" "\<not> MAX_KEY < ?c" "?v = 2"
      | (down) "\<not> ks_dropping s" "re_type e = 1" "\<not> MAX_KEY < ?c" "?v = 1"
      by blast
    then show thesis
    proof cases
      case dropped
      with r show thesis by (intro that(2)) auto
    next
      case dropping
      with r show thesis by (intro that(1)) auto
    next
      case other
      with r show thesis by (intro that(3)) auto
    next
      case range
      with r show thesis by (intro that(1)) auto
    next
      case up
      with r have "(es, s') = (if ?c \<in> ks_output s then [e] else [],
        s\<lparr>ks_physical := ks_physical s - {?c}, ks_swallowed := ks_swallowed s - {?c}, ks_output := ks_output s - {?c}\<rparr>)"
        by simp
      with up show thesis by (intro that(4)) simp_all
    next
      case again
      show thesis
      proof (cases "?c \<in> ks_output s")
        case True
        with r again show thesis by (intro that(5)) simp_all
      next
        case False
        with r again show thesis by (intro that(1)) simp_all
      qed
    next
      case down
      with r have r': "(es, s') = state_press e d s"
        by (simp add: press)
      show thesis
      proof (cases "?c \<in> ks_physical s")
        case True
        with r' down show thesis by (intro that(1)) (simp_all add: press)
      next
        case False
        note facts = False r' [unfolded press] down
        from \<open>d = PassOp \<or> d = SwallowOp\<close> show thesis
        proof
          assume "d = PassOp"
          with facts show thesis by (intro that(6)) simp_all
        next
          assume "d = SwallowOp"
          with facts show thesis by (intro that(7)) simp_all
        qed
      qed
    qed
  next
    case False
    then have "d \<notin> {PassOp, SwallowOp}" by simp
    with assms show thesis by (intro that(1)) (auto simp: state_apply_def)
  qed
qed

lemma state_apply_output:
  assumes "state_apply e d s = (es, s')"
  shows "ks_committed_output s' = ks_committed_output s"
    and "device_after es (ks_output s) = ks_output s'"
  using assms by (cases rule: state_apply_cases; auto simp: device_event_def)+

text \<open>A key number above the largest known one never reaches the output.\<close>

lemma oversized_key_dropped:
  assumes "re_type e = 1" and "MAX_KEY < re_code e"
  shows "state_apply e d s = ([], s)"
  using assms by (simp add: state_apply_def)

section \<open>Frames\<close>

text \<open>The life of a proxy: events and resynchronisations extend the frame in progress, which is
  then either accepted by the output device or lost as a whole. \<open>proxied s frame D\<close> says that the
  state \<open>s\<close> is reached with \<open>frame\<close> in progress and the device holding down the keys \<open>D\<close>.\<close>

inductive proxied :: "key_state \<Rightarrow> raw_event list \<Rightarrow> 16 word set \<Rightarrow> bool" where
  fresh: "proxied key_state_default [] {}"
| applied: "proxied s frame D \<Longrightarrow> state_apply e d s = (es, s') \<Longrightarrow> proxied s' (frame @ es) D"
| resynced: "proxied s frame D \<Longrightarrow> resync keys s = (es, s') \<Longrightarrow> proxied s' (frame @ es) D"
| accepted: "proxied s frame D \<Longrightarrow> proxied (commit_output s) [] (device_after frame D)"
| lost: "proxied s frame D \<Longrightarrow> proxied (rollback_output s) [] D"

lemma proxied_device: "proxied s frame D \<Longrightarrow> ks_committed_output s = D \<and> ks_output s = device_after frame D"
proof (induction rule: proxied.induct)
  case (applied s frame D e d es s')
  then show ?case
    using state_apply_output [of e d s es s'] by (simp add: device_after_append)
next
  case (resynced s frame D keys es s')
  then show ?case
    using resync_correct(2,7) [of keys s es s'] by (simp add: device_after_append)
qed (simp_all add: key_state_default_def commit_output_def rollback_output_def)

section \<open>Ownership\<close>

text \<open>Between resynchronisations every owned key is physically held, and owned one way only.\<close>

definition owned_ok :: "key_state \<Rightarrow> bool" where
  "owned_ok s \<longleftrightarrow> ks_output s \<union> ks_swallowed s \<subseteq> ks_physical s \<and> ks_output s \<inter> ks_swallowed s = {}"

datatype proxy_op = Apply raw_event operation | Resync "16 word set" | Commit | ReleaseAll

fun proxy_step :: "proxy_op \<Rightarrow> key_state \<Rightarrow> (raw_event list \<times> key_state) option" where
  "proxy_step (Apply e d) s = Some (state_apply e d s)"
| "proxy_step (Resync keys) s = Some (resync keys s)"
| "proxy_step Commit s = Some ([], commit_output s)"
| "proxy_step ReleaseAll s = Some (release_all s)"

lemma state_apply_owned: "state_apply e d s = (es, s') \<Longrightarrow> owned_ok s \<Longrightarrow> owned_ok s'"
  by (cases rule: state_apply_cases) (auto simp: owned_ok_def)

lemma resync_owned: "resync keys s = (es, s') \<Longrightarrow> owned_ok s \<Longrightarrow> owned_ok s'"
  using resync_correct [of keys s es s'] unfolding owned_ok_def by blast

lemma proxy_step_owned:
  assumes "owned_ok s" and "proxy_step op s = Some (es, s')"
  shows "owned_ok s'"
proof (cases op)
  case (Apply e d)
  with assms show ?thesis by (simp add: state_apply_owned)
next
  case (Resync keys)
  with assms show ?thesis by (simp add: resync_owned)
qed (use assms in \<open>auto simp: commit_output_def release_all_def key_state_default_def owned_ok_def\<close>)

interpretation proxy: state_machine proxy_step owned_ok
  by unfold_locales (rule proxy_step_owned)

lemma state_apply_legal:
  "state_apply e d s = (es, s') \<Longrightarrow> owned_ok s \<Longrightarrow> legal_events es (ks_output s)"
  by (cases rule: state_apply_cases) (auto simp: owned_ok_def legal_event_def)

text \<open>A swallowed press is silent until its release.\<close>

definition silent :: "16 word \<Rightarrow> key_state \<Rightarrow> bool" where
  "silent c s \<longleftrightarrow> c \<in> ks_swallowed s"

fun ends_silence :: "16 word \<Rightarrow> proxy_op \<Rightarrow> bool" where
  "ends_silence c (Apply e d) \<longleftrightarrow> re_type e = 1 \<and> re_code e = c \<and> re_value e = 0"
| "ends_silence c (Resync keys) \<longleftrightarrow> c \<notin> keys"
| "ends_silence c Commit \<longleftrightarrow> False"
| "ends_silence c ReleaseAll \<longleftrightarrow> True"

definition no_event_of :: "16 word \<Rightarrow> proxy_op \<Rightarrow> raw_event list \<Rightarrow> bool" where
  "no_event_of c op es \<longleftrightarrow> list_all (\<lambda>e. \<not> (re_type e = 1 \<and> re_code e = c)) es"

lemma resync_presses_avoid:
  "resync_presses cs S D = (es, D') \<Longrightarrow> c \<in> S \<Longrightarrow> list_all (\<lambda>e. re_code e \<noteq> c) es"
proof (induction cs S D arbitrary: es rule: resync_presses.induct)
  case (2 c' cs S D)
  then show ?case
    by (auto simp: Let_def raw_key_def split: if_splits prod.splits)
qed simp

lemma resync_silent:
  assumes "c \<in> ks_swallowed s" and "c \<in> keys" and "resync keys s = (es, s')"
  shows "list_all (\<lambda>e. re_code e \<noteq> c) es"
proof -
  obtain ps out where p: "resync_presses (sorted_list_of_set keys) (ks_swallowed s \<inter> keys) (ks_output s \<inter> keys) = (ps, out)"
    by fastforce
  with assms resync_presses_avoid [OF p, of c] show ?thesis
    by (auto simp: resync_def list_all_iff raw_key_def)
qed

lemma silent_step:
  assumes "owned_ok s" and "silent c s" and "\<not> ends_silence c op" and "proxy_step op s = Some (es, s')"
  shows "silent c s' \<and> no_event_of c op es"
proof (cases op)
  case (Apply e d)
  with assms(4) have "state_apply e d s = (es, s')" by simp
  then show ?thesis
    by (cases rule: state_apply_cases)
      (use assms(1-3) Apply in \<open>auto simp: silent_def no_event_of_def owned_ok_def\<close>)
next
  case (Resync keys)
  with assms resync_silent [of c s keys es s'] resync_correct(4) [of keys s es s'] show ?thesis
    by (auto simp: silent_def no_event_of_def list_all_iff)
qed (use assms in \<open>auto simp: silent_def no_event_of_def commit_output_def\<close>)

interpretation swallowed_key: stable_fact proxy_step owned_ok "silent c" "ends_silence c" "no_event_of c" for c
  by unfold_locales (use silent_step in blast)+

section \<open>Properties\<close>

text \<open>The proxy knows its output device exactly: in every reachable state the committed set is the
  set of keys the device holds down, the speculative set is what the device will hold once the
  frame in progress is accepted, and releasing everything empties the device whether that frame
  is accepted first or lost.\<close>

lemma output_device_exact:
  assumes "proxied s frame D"
  shows "ks_committed_output s = D \<and> ks_output s = device_after frame D \<and>
    device_after (fst (release_all s)) D = {} \<and>
    device_after (frame @ fst (release_all s)) D = {}"
  using proxied_device [OF assms]
  by (auto simp: release_all_def device_after_append device_after_releases)

definition ex_proxy :: key_state where
  "ex_proxy = key_state_default\<lparr>ks_physical := {30}, ks_output := {30}\<rparr>"


definition ex_swallowed :: key_state where
  "ex_swallowed = key_state_default\<lparr>ks_physical := {30}, ks_swallowed := {30}\<rparr>"




end
