(* ===== verification/Broker.thy ===== *)
theory Broker
  imports Authorization Key_State
begin

unbundle bit_operations_syntax

text \<open>
  The proxy of one keyboard, \<^verbatim>\<open>packages/linux/src/broker.rs\<close>: a physical input, a virtual output and the key
  state between them. An operation of the proxy is an action on the pair of the proxy and the
  world, so that an early return keeps what was already changed.
\<close>

section \<open>Devices\<close>

text \<open>The evdev and uinput calls. A descriptor is all there is to a device; what is read when an input is
  opened is its description. Virtual devices are built from a name, keys and miscellaneous events.\<close>

record input_info =
  ii_name :: "string option"
  ii_bus :: "16 word"
  ii_events :: "16 word list"
  ii_keys :: "16 word set option"
  ii_misc :: "16 word set option"

record ('d, 'w) devices =
  dv_getfl :: "'d \<Rightarrow> 'w \<Rightarrow> (32 word, errno) result \<times> 'w"
  dv_setfl :: "'d \<Rightarrow> 32 word \<Rightarrow> 'w \<Rightarrow> (unit, errno) result \<times> 'w"
  dv_known_flags :: "32 word"
  dv_from_fd :: "'d \<Rightarrow> 'w \<Rightarrow> (input_info, io_error) result \<times> 'w"
  dv_key_state :: "'d \<Rightarrow> 'w \<Rightarrow> (16 word set, io_error) result \<times> 'w"
  dv_fetch :: "'d \<Rightarrow> 'w \<Rightarrow> (raw_event list, io_error) result \<times> 'w"
  dv_poll :: "'d \<Rightarrow> 16 word \<Rightarrow> 16 word \<Rightarrow> 'w \<Rightarrow> (nat \<times> 16 word option, errno) result \<times> 'w"
  dv_build :: "string \<Rightarrow> 16 word set \<Rightarrow> 16 word set option \<Rightarrow> 'w \<Rightarrow> ('d, io_error) result \<times> 'w"
  dv_grab :: "'d \<Rightarrow> 'w \<Rightarrow> (unit, io_error) result \<times> 'w"
  dv_ungrab :: "'d \<Rightarrow> 'w \<Rightarrow> (unit, io_error) result \<times> 'w"
  dv_emit :: "'d \<Rightarrow> raw_event list \<Rightarrow> 'w \<Rightarrow> (unit, io_error) result \<times> 'w"
  dv_close :: "'d \<Rightarrow> 'w \<Rightarrow> 'w"

definition POLLERR :: "16 word" where "POLLERR = 8"
definition O_NONBLOCK :: "32 word" where "O_NONBLOCK = 0x800"
definition BUS_VIRTUAL :: "16 word" where "BUS_VIRTUAL = 6"
definition KEY_A :: "16 word" where "KEY_A = 30"
definition KEY_ENTER :: "16 word" where "KEY_ENTER = 28"

definition OUTPUT_NAME :: string where
  "OUTPUT_NAME = ''sledge broker virtual keyboard''"

record 'd device_proxy =
  dp_input :: 'd
  dp_output :: 'd
  dp_state :: key_state
  dp_generation :: "64 word"
  dp_epoch :: "64 word"
  dp_sequence :: "64 word"
  dp_grabbed :: bool
  dp_pending :: "raw_event list"

section \<open>Actions of a proxy\<close>

type_synonym ('d, 'w, 'a) proxy_io = "('d device_proxy \<times> 'w, 'a) io"

text \<open>Actions on a state beside the world: an action of the world alone, one that reads the state, and a change
  of the state.\<close>

definition px_io :: "('w, 'a) io \<Rightarrow> ('s \<times> 'w, 'a) io" where
  "px_io m = (\<lambda>(p, w). map_option (\<lambda>(r, w). (r, p, w)) (m w))"

definition px_with :: "('s \<Rightarrow> ('s \<times> 'w, 'a) io) \<Rightarrow> ('s \<times> 'w, 'a) io" where
  "px_with f = (\<lambda>(p, w). f p (p, w))"

definition px_set :: "('s \<Rightarrow> 's) \<Rightarrow> ('s \<times> 'w, unit) io" where
  "px_set f = (\<lambda>(p, w). Some (Ok (), f p, w))"

text \<open>A clean-up whose own outcome is ignored, on failure only.\<close>

definition or_else :: "('w, 'a) io \<Rightarrow> ('w, unit) io \<Rightarrow> ('w, 'a) io" where
  "or_else m cleanup w = (case m w of
      None \<Rightarrow> None
    | Some (Ok a, w) \<Rightarrow> Some (Ok a, w)
    | Some (Err e, w) \<Rightarrow> map_option (\<lambda>(_, w). (Err e, w)) (cleanup w))"

definition px_sys :: "('w \<Rightarrow> ('a, io_error) result \<times> 'w) \<Rightarrow> ('s \<times> 'w, 'a) io" where
  "px_sys call = px_io (io_total call)"

text \<open>A descriptor that goes out of scope is closed.\<close>

definition closing :: "('d, 'w) devices \<Rightarrow> 'd \<Rightarrow> ('w, unit) io" where
  "closing dv d = io_total (\<lambda>w. (Ok (), dv_close dv d w))"

section \<open>Output\<close>

definition emit_event :: "('d, 'w) devices \<Rightarrow> raw_event \<Rightarrow> ('d, 'w, unit) proxy_io" where
  "emit_event dv event =
     (if re_type event = 0 \<and> re_code event = 0 then
        io_seq (px_with (\<lambda>p. px_sys (dv_emit dv (dp_output p) (dp_pending p))))
        (px_set (\<lambda>p. p\<lparr>dp_state := commit_output (dp_state p), dp_pending := []\<rparr>))
      else if re_type event \<noteq> 0 then
        px_with (\<lambda>p. io_seq (io_ensure (length (dp_pending p) < 256) (PermissionDenied ''output frame exceeds bound''))
          (px_set (\<lambda>p. p\<lparr>dp_pending := dp_pending p @ [event]\<rparr>)))
      else io_of (Ok ()))"

fun emit :: "('d, 'w) devices \<Rightarrow> raw_event list \<Rightarrow> ('d, 'w, unit) proxy_io" where
  "emit dv [] = io_of (Ok ())"
| "emit dv (event # events) = io_seq (emit_event dv event) (emit dv events)"

text \<open>Failures of the output and of the release of the grab are ignored.\<close>

definition ignoring :: "('w, 'a) io \<Rightarrow> ('w, unit) io" where
  "ignoring m w = map_option (\<lambda>(_, w). (Ok (), w)) (m w)"

definition bypass :: "('d, 'w) devices \<Rightarrow> ('d, 'w, unit) proxy_io" where
  "bypass dv = px_with (\<lambda>p.
     (let (releases, state) = release_all (dp_state p) in
      io_seq (px_set (\<lambda>p. p\<lparr>dp_pending := [], dp_state := state\<rparr>))
      (io_seq (ignoring (emit dv (releases @ [raw_event_default])))
      (px_with (\<lambda>p. if dp_grabbed p
        then io_seq (ignoring (px_sys (dv_ungrab dv (dp_input p)))) (px_set (\<lambda>p. p\<lparr>dp_grabbed := False\<rparr>))
        else io_of (Ok ()))))))"

text \<open>Dropping a proxy: its destructor, then its fields.\<close>

definition drop_proxy :: "('d, 'w) devices \<Rightarrow> 'd device_proxy \<Rightarrow> ('w, unit) io" where
  "drop_proxy dv p w = map_option (\<lambda>(_, p, w). (Ok (), dv_close dv (dp_output p) (dv_close dv (dp_input p) w)))
     (bypass dv (p, w))"

section \<open>Admission\<close>

definition verify :: "('d, 'w) session_authority \<Rightarrow> peer_identity \<Rightarrow> ('w, unit) io" where
  "verify au peer = io_bind (au_verify au peer) (\<lambda>evidence.
     io_ensure (permits evidence peer) (PermissionDenied ''peer session is not verified local active unlocked''))"

definition nonblocking :: "('d, 'w) devices \<Rightarrow> 'd \<Rightarrow> ('w, unit) io" where
  "nonblocking dv fd = io_bind (io_sys (dv_getfl dv fd)) (\<lambda>flags.
     io_sys (dv_setfl dv fd ((flags AND dv_known_flags dv) OR O_NONBLOCK)))"

definition synthetic_or_mixed :: "input_info \<Rightarrow> bool" where
  "synthetic_or_mixed info \<longleftrightarrow>
     (case ii_name info of None \<Rightarrow> False | Some name \<Rightarrow> take (length ''sledge broker'') name = ''sledge broker'') \<or>
     ii_bus info = BUS_VIRTUAL \<or> list_ex (\<lambda>kind. kind \<notin> {0, 1, 4}) (ii_events info)"

definition from_authorized_fd ::
  "('d, 'w) devices \<Rightarrow> ('d, 'w) session_authority \<Rightarrow> 'd \<Rightarrow> 64 word \<Rightarrow> peer_identity \<Rightarrow> ('w, 'd device_proxy) io" where
  "from_authorized_fd dv au fd generation peer = or_else
     (io_seq (verify au peer)
     (io_seq (au_verify_device au fd peer)
     (io_seq (nonblocking dv fd)
     (io_bind (io_total (dv_from_fd dv fd)) (\<lambda>info.
     io_seq (io_ensure (\<not> synthetic_or_mixed info) (PermissionDenied ''unsupported or synthetic input device''))
     (io_bind (io_some (ii_keys info) (PermissionDenied ''not a keyboard'')) (\<lambda>keys.
     io_seq (io_ensure (KEY_A \<in> keys \<and> KEY_ENTER \<in> keys) (PermissionDenied ''not a keyboard''))
     (io_bind (io_total (dv_key_state dv fd)) (\<lambda>held.
     io_seq (io_ensure (held = {}) (PermissionDenied ''keyboard is not quiescent''))
     (io_bind (io_total (dv_build dv OUTPUT_NAME keys (ii_misc info))) (\<lambda>output.
     io_seq (or_else (nonblocking dv output) (closing dv output))
     (io_of (Ok \<lparr>dp_input = fd, dp_output = output, dp_state = key_state_default, dp_generation = generation,
       dp_epoch = 1, dp_sequence = 0, dp_grabbed = False, dp_pending = []\<rparr>)))))))))))))
     (closing dv fd)"

definition quiescent :: "bool \<Rightarrow> bool \<Rightarrow> (unit, io_error) result" where
  "quiescent queue_empty keys_empty =
     (if \<not> queue_empty \<or> \<not> keys_empty then Err (PermissionDenied ''input changed during grab; capture refused'')
      else Ok ())"

definition check_post_grab :: "('d, 'w) devices \<Rightarrow> 'd \<Rightarrow> ('w, unit) io" where
  "check_post_grab dv input w = (case dv_fetch dv input w of (fetched, w) \<Rightarrow>
     (let queued = (case fetched of
            Ok events \<Rightarrow> Ok (events \<noteq> [])
          | Err e \<Rightarrow> if e = OsError EAGAIN then Ok False else Err e)
      in io_bind (io_of queued) (\<lambda>queued.
         io_bind (io_total (dv_key_state dv input)) (\<lambda>held.
         io_of (quiescent (\<not> queued) (held = {})))) w))"

definition activate ::
  "('d, 'w) devices \<Rightarrow> ('d, 'w) session_authority \<Rightarrow> peer_identity \<Rightarrow> ('d, 'w, unit) proxy_io" where
  "activate dv au peer = px_with (\<lambda>p.
     io_seq (px_io (verify au peer))
     (io_seq (px_io (au_verify_device au (dp_input p) peer))
     (io_bind (px_sys (dv_key_state dv (dp_input p))) (\<lambda>held.
     io_seq (io_ensure (held = {}) (PermissionDenied ''keyboard is not quiescent''))
     (io_seq (px_io (au_verify_output_ready au (dp_output p) peer))
     (io_seq (px_with (\<lambda>p. px_sys (dv_grab dv (dp_input p))))
     (io_seq (px_set (\<lambda>p. p\<lparr>dp_grabbed := True\<rparr>))
     (or_else
       (io_seq (px_io (check_post_grab dv (dp_input p))) (px_io (au_verify_output_ready au (dp_output p) peer)))
       (bypass dv)))))))))"

section \<open>Requests to the client\<close>

definition next_sequence :: "('d, 'w, unit) proxy_io" where
  "next_sequence = px_with (\<lambda>p. io_bind (io_some (checked_add (dp_sequence p) 1) (PermissionDenied ''sequence exhausted''))
     (\<lambda>sequence. px_set (\<lambda>p. p\<lparr>dp_sequence := sequence\<rparr>)))"

definition request_of :: "operation \<Rightarrow> raw_event \<Rightarrow> 'd device_proxy \<Rightarrow> message" where
  "request_of operation event p = \<lparr>msg_operation = operation, msg_generation = dp_generation p, msg_epoch = dp_epoch p,
     msg_sequence = dp_sequence p, msg_event = event\<rparr>"

text \<open>Write a request and read its reply under one deadline.\<close>

definition exchange :: "('c, 'w) stream \<Rightarrow> 'c \<Rightarrow> message \<Rightarrow> ('w, message) io" where
  "exchange so c request = io_bind (so_instant so) (\<lambda>now. let deadline = now + DECISION_TIMEOUT in
     io_seq (write_socket so request c deadline) (read_socket so c deadline))"

definition control :: "('c, 'w) stream \<Rightarrow> 'c \<Rightarrow> operation \<Rightarrow> raw_event \<Rightarrow> ('d, 'w, unit) proxy_io" where
  "control so c operation event = io_seq next_sequence (px_with (\<lambda>p.
     let request = request_of operation event p in
     io_bind (px_io (exchange so c request)) (\<lambda>reply.
     io_ensure (msg_operation reply = PassOp \<and> answers reply request)
       (PermissionDenied ''invalid reset/snapshot acknowledgement''))))"

definition retire_client :: "('c, 'w) stream \<Rightarrow> 'c \<Rightarrow> ('d, 'w, unit) proxy_io" where
  "retire_client so c = control so c DeviceRetire raw_event_default"

definition reset_client :: "('c, 'w) stream \<Rightarrow> 'c \<Rightarrow> ('d, 'w, unit) proxy_io" where
  "reset_client so c = control so c DeviceReset raw_event_default"

definition admitted_decision :: "message \<Rightarrow> message \<Rightarrow> (operation, io_error) result" where
  "admitted_decision request reply =
     (if msg_operation reply \<notin> {PassOp, SwallowOp} \<or> \<not> answers reply request \<or> msg_event reply \<noteq> msg_event request
      then Err (PermissionDenied ''unsupported or malformed broker decision'')
      else Ok (msg_operation reply))"

section \<open>Events\<close>

fun snapshot_keys :: "('c, 'w) stream \<Rightarrow> 'c \<Rightarrow> 16 word list \<Rightarrow> ('d, 'w, unit) proxy_io" where
  "snapshot_keys so c [] = io_of (Ok ())"
| "snapshot_keys so c (code # codes) = io_seq (control so c SnapshotKey (raw_key code 1)) (snapshot_keys so c codes)"

definition pump_resync :: "('c, 'w) stream \<Rightarrow> ('d, 'w) devices \<Rightarrow> 'c \<Rightarrow> ('d, 'w, unit) proxy_io" where
  "pump_resync so dv c = px_with (\<lambda>p.
     io_bind (px_sys (dv_key_state dv (dp_input p))) (\<lambda>keys.
     io_bind (io_some (checked_add (dp_epoch p) 1) (PermissionDenied ''epoch exhausted'')) (\<lambda>epoch.
     let (reconciled, state) = resync keys (dp_state p) in
     io_seq (px_set (\<lambda>p. p\<lparr>dp_epoch := epoch, dp_state := state\<rparr>))
     (io_seq (reset_client so c)
     (io_seq (snapshot_keys so c (sorted_list_of_set keys))
     (io_seq (emit dv reconciled)
     (emit dv [raw_event_default])))))))"

definition pump_decide :: "('c, 'w) stream \<Rightarrow> 'c \<Rightarrow> raw_event \<Rightarrow> ('d, 'w, operation) proxy_io" where
  "pump_decide so c raw = px_with (\<lambda>p.
     let request = request_of EventOp raw p in
     if re_type raw = 1 \<and> \<not> ks_dropping (dp_state p)
     then io_bind (px_io (exchange so c request)) (\<lambda>reply. io_of (admitted_decision request reply))
     else io_of (Ok PassOp))"

definition pump_apply :: "('d, 'w) devices \<Rightarrow> raw_event \<Rightarrow> operation \<Rightarrow> ('d, 'w, unit) proxy_io" where
  "pump_apply dv raw decision =
     io_seq (px_set (\<lambda>p. if re_type raw = 0 \<and> re_code raw = 3
        then p\<lparr>dp_pending := [], dp_state := rollback_output (dp_state p)\<rparr> else p))
     (px_with (\<lambda>p. let (output, state) = state_apply raw decision (dp_state p) in
        io_seq (px_set (\<lambda>p. p\<lparr>dp_state := state\<rparr>)) (emit dv output)))"

definition pump_event ::
  "('c, 'w) stream \<Rightarrow> ('d, 'w) devices \<Rightarrow> ('d, 'w) session_authority \<Rightarrow> 'c \<Rightarrow> peer_identity \<Rightarrow> raw_event \<Rightarrow>
   ('d, 'w, unit) proxy_io" where
  "pump_event so dv au c peer raw =
     io_seq (px_io (verify au peer)) (px_with (\<lambda>p.
       if ks_dropping (dp_state p) \<and> re_type raw = 0 \<and> re_code raw = 0 then pump_resync so dv c
       else io_seq next_sequence (io_bind (pump_decide so c raw) (pump_apply dv raw))))"

fun pump_events ::
  "('c, 'w) stream \<Rightarrow> ('d, 'w) devices \<Rightarrow> ('d, 'w) session_authority \<Rightarrow> 'c \<Rightarrow> peer_identity \<Rightarrow> raw_event list \<Rightarrow>
   ('d, 'w, unit) proxy_io" where
  "pump_events so dv au c peer [] = io_of (Ok ())"
| "pump_events so dv au c peer (raw # events) =
     io_seq (pump_event so dv au c peer raw) (pump_events so dv au c peer events)"

definition gone :: "16 word option \<Rightarrow> bool" where
  "gone revents = (case revents of None \<Rightarrow> False | Some flags \<Rightarrow> flags AND (POLLHUP OR POLLERR OR POLLNVAL) \<noteq> 0)"

definition pump_inner ::
  "('c, 'w) stream \<Rightarrow> ('d, 'w) devices \<Rightarrow> ('d, 'w) session_authority \<Rightarrow> 'c \<Rightarrow> ('d, 'w, unit) proxy_io" where
  "pump_inner so dv au c = io_bind (px_io (peer_identity_of so c)) (\<lambda>peer.
     io_seq (px_io (verify au peer)) (px_with (\<lambda>p.
     io_seq (px_io (au_verify_device au (dp_input p) peer))
     (io_seq (px_io (au_verify_output_ready au (dp_output p) peer))
     (io_seq (io_ensure (dp_grabbed p) (PermissionDenied ''proxy is not active''))
     (io_bind (px_io (io_sys (so_poll so c POLLIN 0))) (\<lambda>(_, revents).
     io_seq (io_ensure (\<not> gone revents) BrokenPipe)
     (io_bind (px_io (io_sys (dv_poll dv (dp_input p) POLLIN 25))) (\<lambda>(ready, revents).
     if ready = 0 then io_of (Ok ())
     else io_seq (io_ensure (\<not> gone revents) BrokenPipe)
     (io_bind (px_sys (dv_fetch dv (dp_input p))) (\<lambda>fetched. let events = take 257 fetched in
     io_seq (io_ensure (\<not> 256 < length events) (PermissionDenied ''input batch exceeds bound''))
     (io_seq (px_io (io_sys (so_set_read_timeout so c DECISION_TIMEOUT)))
     (io_seq (px_io (io_sys (so_set_write_timeout so c DECISION_TIMEOUT)))
     (pump_events so dv au c peer events))))))))))))))"

definition pump ::
  "('c, 'w) stream \<Rightarrow> ('d, 'w) devices \<Rightarrow> ('d, 'w) session_authority \<Rightarrow> 'c \<Rightarrow> ('d, 'w, unit) proxy_io" where
  "pump so dv au c = or_else (pump_inner so dv au c) (bypass dv)"

section \<open>Observations\<close>

text \<open>An observation of the world that an action does not change, whatever its outcome.\<close>

named_theorems keeps_intros
  \<open>actions built from actions that keep an observation do\<close>

definition keeps :: "('w \<Rightarrow> 'o) \<Rightarrow> ('w, 'a) io \<Rightarrow> bool" where
  "keeps obs m \<longleftrightarrow> (\<forall>w r w'. m w = Some (r, w') \<longrightarrow> obs w' = obs w)"

definition unaffected :: "('w \<Rightarrow> 'o) \<Rightarrow> ('w \<Rightarrow> 'a \<times> 'w) \<Rightarrow> bool" where
  "unaffected obs call \<longleftrightarrow> (\<forall>w r w'. call w = (r, w') \<longrightarrow> obs w' = obs w)"

lemma keepsD: "keeps obs m \<Longrightarrow> m w = Some (r, w') \<Longrightarrow> obs w' = obs w"
  unfolding keeps_def by blast

lemma keeps_of [keeps_intros]: "keeps obs (io_of r)"
  by (simp add: keeps_def)

lemma keeps_ensure [keeps_intros]: "keeps obs (io_ensure c e)"
  by (simp add: io_ensure_def keeps_of)

lemma keeps_some [keeps_intros]: "keeps obs (io_some x e)"
  by (simp add: io_some_def keeps_of)

lemma keeps_bind [keeps_intros]: "keeps obs m \<Longrightarrow> (\<And>a. keeps obs (f a)) \<Longrightarrow> keeps obs (io_bind m f)"
  by (force simp: keeps_def io_bind_def split: option.splits prod.splits result.splits)

lemma keeps_seq [keeps_intros]: "keeps obs m \<Longrightarrow> keeps obs f \<Longrightarrow> keeps obs (io_seq m f)"
  by (simp add: io_seq_def keeps_bind)

lemma keeps_sys [keeps_intros]: "unaffected obs call \<Longrightarrow> keeps obs (io_sys call)"
  by (force simp: keeps_def io_sys_def unaffected_def split: prod.splits result.splits)

lemma keeps_total [keeps_intros]: "unaffected obs call \<Longrightarrow> keeps obs (io_total call)"
  by (force simp: keeps_def io_total_def unaffected_def)

lemma keeps_read_fully [keeps_intros]:
  assumes "\<And>n. keeps obs (rd n)"
  shows "keeps obs (read_fully rd n got)"
proof -
  have "(\<forall>n. keeps obs (rd n)) \<longrightarrow> obs (snd y) = obs w" if "read_fully rd n got w = Some y" for w y
    by (rule read_fully.raw_induct [where P = "\<lambda>rd n got w y. (\<forall>n. keeps obs (rd n)) \<longrightarrow> obs (snd y) = obs w", OF _ that])
      (force split: if_splits option.splits prod.splits result.splits dest: keepsD)
  with assms show ?thesis
    by (fastforce simp: keeps_def)
qed

lemma keeps_write_fully [keeps_intros]:
  assumes "\<And>bytes. keeps obs (wr bytes)"
  shows "keeps obs (write_fully wr bytes)"
proof -
  have "(\<forall>bytes. keeps obs (wr bytes)) \<longrightarrow> obs (snd y) = obs w" if "write_fully wr bytes w = Some y" for w y
    by (rule write_fully.raw_induct [where P = "\<lambda>wr bytes w y. (\<forall>bytes. keeps obs (wr bytes)) \<longrightarrow> obs (snd y) = obs w", OF _ that])
      (force split: if_splits option.splits prod.splits result.splits dest: keepsD)
  with assms show ?thesis
    by (fastforce simp: keeps_def)
qed

text \<open>The socket, the authority and the calls that only read a device or set its flags change neither what
  is grabbed nor what the outputs hold down.\<close>

definition plain_calls ::
  "('w \<Rightarrow> 'o) \<Rightarrow> ('c, 'w) stream \<Rightarrow> ('d, 'w) devices \<Rightarrow> ('d, 'w) session_authority \<Rightarrow> bool" where
  "plain_calls obs so dv au \<longleftrightarrow>
     unaffected obs (so_now so) \<and> (\<forall>c d. unaffected obs (so_set_read_timeout so c d)) \<and>
     (\<forall>c d. unaffected obs (so_set_write_timeout so c d)) \<and> (\<forall>c n. unaffected obs (so_read so c n)) \<and>
     (\<forall>c b. unaffected obs (so_write so c b)) \<and> (\<forall>c. unaffected obs (so_peer_credentials so c)) \<and>
     (\<forall>c f t. unaffected obs (so_poll so c f t)) \<and>
     (\<forall>peer. keeps obs (au_verify au peer)) \<and> (\<forall>d peer. keeps obs (au_verify_device au d peer)) \<and>
     (\<forall>d peer. keeps obs (au_verify_output_ready au d peer)) \<and>
     (\<forall>d. unaffected obs (dv_getfl dv d)) \<and> (\<forall>d f. unaffected obs (dv_setfl dv d f)) \<and>
     (\<forall>d. unaffected obs (dv_from_fd dv d)) \<and> (\<forall>d. unaffected obs (dv_key_state dv d)) \<and>
     (\<forall>d. unaffected obs (dv_fetch dv d)) \<and> (\<forall>d f t. unaffected obs (dv_poll dv d f t))"

lemma plain_keeps:
  assumes "plain_calls obs so dv au"
  shows "keeps obs (so_instant so)" "keeps obs (read_socket so c deadline)" "keeps obs (write_socket so m c deadline)"
    "keeps obs (peer_identity_of so c)" "keeps obs (verify au peer)" "keeps obs (nonblocking dv d)"
    "keeps obs (check_post_grab dv d)"
proof -
  note laws = assms [unfolded plain_calls_def]
  show now: "keeps obs (so_instant so)"
    using laws by (force simp: so_instant_def keeps_def io_total_def unaffected_def split: prod.splits)
  have frame: "keeps obs (io_frame r :: ('w, 'z) io)" for r and obs :: "'w \<Rightarrow> 'o"
    by (simp add: io_frame_def keeps_of)
  show "keeps obs (read_socket so c deadline)" "keeps obs (write_socket so m c deadline)"
    unfolding read_socket_def read_message_def deadline_read_def write_socket_def write_message_def deadline_write_def
      remaining_def
    using laws by (auto intro!: keeps_intros now frame split: prod.splits)
  show "keeps obs (peer_identity_of so c)" "keeps obs (verify au peer)" "keeps obs (nonblocking dv d)"
    unfolding peer_identity_of_def verify_def nonblocking_def
    using laws by (auto intro!: keeps_intros split: prod.splits)
  have post: "keeps obs (io_bind (io_of q) (\<lambda>queued. io_bind (io_total (dv_key_state dv d)) (\<lambda>held. io_of (quiescent (\<not> queued) (held = {})))))" for q
    using laws by (auto intro!: keeps_intros)
  have fetch: "dv_fetch dv d w = (r, w1) \<Longrightarrow> obs w1 = obs w" for w r w1
    using laws by (simp add: unaffected_def)
  show "keeps obs (check_post_grab dv d)"
    unfolding keeps_def
  proof (intro allI impI)
    fix w r w'
    assume run: "check_post_grab dv d w = Some (r, w')"
    obtain f w1 where f: "dv_fetch dv d w = (f, w1)" by fastforce
    from keepsD [OF post run [unfolded check_post_grab_def f Let_def prod.case]] fetch [OF f]
    show "obs w' = obs w" by simp
  qed
qed

section \<open>Invariants of proxies\<close>

text \<open>An action of a proxy maintains \<open>J\<close>, a relation between the proxy and what is observed of the world: it holds again
  after success, and \<open>K\<close> after a failure.\<close>

named_theorems maintains_intros
  \<open>actions of proxies built from actions that maintain an invariant do\<close>

definition maintains ::
  "('w \<Rightarrow> 'o) \<Rightarrow> ('d device_proxy \<Rightarrow> 'o \<Rightarrow> bool) \<Rightarrow> ('d device_proxy \<Rightarrow> 'o \<Rightarrow> bool) \<Rightarrow> ('d, 'w, 'a) proxy_io \<Rightarrow> bool" where
  "maintains obs J K m \<longleftrightarrow> (\<forall>p w r p' w'. J p (obs w) \<longrightarrow> m (p, w) = Some (r, p', w') \<longrightarrow>
     (if is_ok r then J p' (obs w') else K p' (obs w')))"

lemma maintainsI:
  assumes "\<And>p w r p' w'. J p (obs w) \<Longrightarrow> m (p, w) = Some (r, p', w') \<Longrightarrow> if is_ok r then J p' (obs w') else K p' (obs w')"
  shows "maintains obs J K m"
  using assms unfolding maintains_def by blast

lemma maintains_anyD: "maintains obs J J m \<Longrightarrow> J p (obs w) \<Longrightarrow> m (p, w) = Some (r, p', w') \<Longrightarrow> J p' (obs w')"
  unfolding maintains_def by presburger

lemma maintainsD:
  "maintains obs J K m \<Longrightarrow> J p (obs w) \<Longrightarrow> m (p, w) = Some (r, p', w') \<Longrightarrow> if is_ok r then J p' (obs w') else K p' (obs w')"
  unfolding maintains_def by blast

lemma maintains_of [maintains_intros]: "(\<And>p b. J p b \<Longrightarrow> K p b) \<Longrightarrow> maintains obs J K (io_of r)"
  by (auto simp: maintains_def)

lemma maintains_ensure [maintains_intros]: "(\<And>p b. J p b \<Longrightarrow> K p b) \<Longrightarrow> maintains obs J K (io_ensure c e)"
  by (simp add: io_ensure_def maintains_of)

lemma maintains_some [maintains_intros]: "(\<And>p b. J p b \<Longrightarrow> K p b) \<Longrightarrow> maintains obs J K (io_some x e)"
  by (simp add: io_some_def maintains_of)

lemma maintains_io [maintains_intros]:
  "(\<And>p b. J p b \<Longrightarrow> K p b) \<Longrightarrow> keeps obs m \<Longrightarrow> maintains obs J K (px_io m)"
  by (force simp: maintains_def keeps_def px_io_def)

lemma maintains_sys [maintains_intros]:
  "(\<And>p b. J p b \<Longrightarrow> K p b) \<Longrightarrow> unaffected obs call \<Longrightarrow> maintains obs J K (px_sys call)"
  unfolding px_sys_def by (intro maintains_io keeps_total)

lemma maintains_set [maintains_intros]: "(\<And>p b. J p b \<Longrightarrow> J (f p) b) \<Longrightarrow> maintains obs J K (px_set f)"
  by (auto simp: maintains_def px_set_def)

lemma maintains_with [maintains_intros]: "(\<And>p. maintains obs J K (f p)) \<Longrightarrow> maintains obs J K (px_with f)"
  by (simp add: maintains_def px_with_def)

lemma maintains_bind [maintains_intros]:
  assumes "maintains obs J K m" and "\<And>a. maintains obs J K (f a)"
  shows "maintains obs J K (io_bind m f)"
proof (rule maintainsI)
  fix p w r p' w'
  assume J: "J p (obs w)" and run: "io_bind m f (p, w) = Some (r, p', w')"
  then obtain r1 p1 w1 where m: "m (p, w) = Some (r1, p1, w1)"
    by (auto simp: io_bind_def split: option.splits)
  note step = maintainsD [OF assms(1) J m]
  show "if is_ok r then J p' (obs w') else K p' (obs w')"
  proof (cases r1)
    case (Ok a)
    with run m have "f a (p1, w1) = Some (r, p', w')" by (simp add: io_bind_def)
    from maintainsD [OF assms(2) _ this] step Ok show ?thesis by simp
  next
    case (Err e)
    with run m step show ?thesis by (auto simp: io_bind_def)
  qed
qed

lemma maintains_seq [maintains_intros]:
  "maintains obs J K m \<Longrightarrow> maintains obs J K f \<Longrightarrow> maintains obs J K (io_seq m f)"
  by (simp add: io_seq_def maintains_bind)

lemma maintains_if [maintains_intros]:
  "(c \<Longrightarrow> maintains obs J K m) \<Longrightarrow> (\<not> c \<Longrightarrow> maintains obs J K m') \<Longrightarrow> maintains obs J K (if c then m else m')"
  by simp

lemma maintains_case_prod [maintains_intros]:
  "(\<And>a b. maintains obs J K (f a b)) \<Longrightarrow> maintains obs J K (case x of (a, b) \<Rightarrow> f a b)"
  by (simp split: prod.splits)

lemma maintains_ignoring [maintains_intros]: "maintains obs K K m \<Longrightarrow> maintains obs K K (ignoring m)"
  unfolding maintains_def ignoring_def by (fastforce split: if_splits)

lemma maintains_or_else:
  assumes "maintains obs J K m" and "\<And>p w r p' w'. K p (obs w) \<Longrightarrow> cleanup (p, w) = Some (r, p', w') \<Longrightarrow> L p' (obs w')"
  shows "maintains obs J L (or_else m cleanup)"
proof (rule maintainsI)
  fix p w r p' w'
  assume J: "J p (obs w)" and run: "or_else m cleanup (p, w) = Some (r, p', w')"
  then obtain r1 p1 w1 where m: "m (p, w) = Some (r1, p1, w1)"
    by (auto simp: or_else_def split: option.splits)
  note step = maintainsD [OF assms(1) J m]
  show "if is_ok r then J p' (obs w') else L p' (obs w')"
  proof (cases r1)
    case (Ok a)
    with run m step show ?thesis by (auto simp: or_else_def)
  next
    case (Err e)
    with run m obtain r2 where "cleanup (p1, w1) = Some (r2, p', w')" "r = Err e"
      by (auto simp: or_else_def)
    with assms(2) step Err show ?thesis by auto
  qed
qed

section \<open>Grabs\<close>

text \<open>What is relied on of the kernel's grabs: only grabbing a descriptor adds it, and closing it removes it.\<close>

definition grab_laws :: "('w \<Rightarrow> 'd set) \<Rightarrow> ('d, 'w) devices \<Rightarrow> bool" where
  "grab_laws grabs dv \<longleftrightarrow>
     (\<forall>d events. unaffected grabs (dv_emit dv d events)) \<and>
     (\<forall>name keys misc. unaffected grabs (dv_build dv name keys misc)) \<and>
     (\<forall>d w r w'. dv_grab dv d w = (r, w') \<longrightarrow> grabs w' \<subseteq> insert d (grabs w)) \<and>
     (\<forall>d w r w'. dv_ungrab dv d w = (r, w') \<longrightarrow> grabs w' \<subseteq> grabs w) \<and>
     (\<forall>d w. grabs (dv_close dv d w) \<subseteq> grabs w - {d})"

text \<open>A proxy of the descriptors \<open>io\<close> adds at most its own input to the grabs \<open>G\<close> of others.\<close>

definition owns_grab :: "'d set \<Rightarrow> 'd \<times> 'd \<Rightarrow> 'd device_proxy \<Rightarrow> 'd set \<Rightarrow> bool" where
  "owns_grab G io p grabbed \<longleftrightarrow> (dp_input p, dp_output p) = io \<and> grabbed \<subseteq> insert (dp_input p) G"

lemma control_maintains [maintains_intros]:
  assumes "plain_calls obs so dv au" and "\<And>p b. J p b \<Longrightarrow> K p b" and "\<And>p b s. J p b \<Longrightarrow> J (p\<lparr>dp_sequence := s\<rparr>) b"
  shows "maintains obs J K (control so c operation event)"
  unfolding control_def next_sequence_def exchange_def Let_def
  by (intro maintains_intros keeps_intros plain_keeps [OF assms(1)] assms)

lemma snapshot_maintains [maintains_intros]:
  assumes "plain_calls obs so dv au" and "\<And>p b. J p b \<Longrightarrow> K p b" and "\<And>p b s. J p b \<Longrightarrow> J (p\<lparr>dp_sequence := s\<rparr>) b"
  shows "maintains obs J K (snapshot_keys so c codes)"
  by (induction codes) (auto intro!: maintains_of maintains_seq control_maintains [OF assms(1)] assms)

lemma decide_maintains [maintains_intros]:
  assumes "plain_calls obs so dv au" and "\<And>p b. J p b \<Longrightarrow> K p b"
  shows "maintains obs J K (pump_decide so c raw)"
  unfolding pump_decide_def exchange_def Let_def
  by (intro maintains_intros keeps_intros plain_keeps [OF assms(1)] assms)

abbreviation grab_inv :: "('w \<Rightarrow> 'd set) \<Rightarrow> 'd set \<Rightarrow> 'd \<times> 'd \<Rightarrow> ('d, 'w, 'a) proxy_io \<Rightarrow> bool" where
  "grab_inv grabs G io \<equiv> maintains grabs (owns_grab G io) (owns_grab G io)"

lemma owns_grab_updates [simp]:
  "owns_grab G io (p\<lparr>dp_state := st\<rparr>) b = owns_grab G io p b" "owns_grab G io (p\<lparr>dp_pending := es\<rparr>) b = owns_grab G io p b"
  "owns_grab G io (p\<lparr>dp_grabbed := g\<rparr>) b = owns_grab G io p b" "owns_grab G io (p\<lparr>dp_sequence := s\<rparr>) b = owns_grab G io p b"
  "owns_grab G io (p\<lparr>dp_epoch := s\<rparr>) b = owns_grab G io p b"
  by (simp_all add: owns_grab_def)

lemma emit_owns_grab:
  assumes "grab_laws grabs dv"
  shows "grab_inv grabs G io (emit dv events)"
proof (induction events)
  case (Cons event events)
  have "grab_inv grabs G io (emit_event dv event)"
    unfolding emit_event_def using assms by (auto simp: grab_laws_def intro!: maintains_intros)
  with Cons show ?case by (simp add: maintains_seq)
qed (simp add: maintains_of)

lemma px_sys_eq: "px_sys call (p, w) = (case call w of (r, w') \<Rightarrow> Some (r, p, w'))"
  by (simp add: px_sys_def px_io_def io_total_def split: prod.splits)

lemma grab_owns:
  assumes "grab_laws grabs dv"
  shows "grab_inv grabs G io (px_with (\<lambda>p. px_sys (dv_grab dv (dp_input p))))"
proof (rule maintainsI)
  fix p w r p' w'
  assume J: "owns_grab G io p (grabs w)" and "px_with (\<lambda>p. px_sys (dv_grab dv (dp_input p))) (p, w) = Some (r, p', w')"
  then have "dv_grab dv (dp_input p) w = (r, w')" "p' = p"
    by (auto simp: px_with_def px_sys_eq split: prod.splits)
  moreover from this(1) assms have "grabs w' \<subseteq> insert (dp_input p) (grabs w)"
    unfolding grab_laws_def by blast
  ultimately show "if is_ok r then owns_grab G io p' (grabs w') else owns_grab G io p' (grabs w')"
    using J by (auto simp: owns_grab_def)
qed

lemma ungrab_owns:
  assumes "grab_laws grabs dv"
  shows "grab_inv grabs G io (px_sys (dv_ungrab dv d))"
proof (rule maintainsI)
  fix p w r p' w'
  assume J: "owns_grab G io p (grabs w)" and "px_sys (dv_ungrab dv d) (p, w) = Some (r, p', w')"
  then have "dv_ungrab dv d w = (r, w')" "p' = p"
    by (auto simp: px_sys_eq split: prod.splits)
  moreover from this(1) assms have "grabs w' \<subseteq> grabs w"
    unfolding grab_laws_def by blast
  ultimately show "if is_ok r then owns_grab G io p' (grabs w') else owns_grab G io p' (grabs w')"
    using J by (auto simp: owns_grab_def)
qed

lemma bypass_owns_grab:
  assumes "grab_laws grabs dv"
  shows "grab_inv grabs G io (bypass dv)"
  unfolding bypass_def
  by (auto split: prod.splits intro!: maintains_intros emit_owns_grab ungrab_owns assms)

lemma pump_event_owns_grab:
  assumes "plain_calls grabs so dv au" and "grab_laws grabs dv"
  shows "grab_inv grabs G io (pump_event so dv au c peer raw)"
proof -
  have "grab_inv grabs G io (pump_resync so dv c)" "\<And>d. grab_inv grabs G io (pump_apply dv raw d)"
    unfolding pump_resync_def pump_apply_def reset_client_def Let_def using assms(1)
    by (auto simp del: emit.simps simp: plain_calls_def split: prod.splits
        intro!: maintains_intros emit_owns_grab control_maintains [OF assms(1)] snapshot_maintains [OF assms(1)] assms)
  then show ?thesis
    unfolding pump_event_def next_sequence_def
    by (auto intro!: maintains_intros plain_keeps(5) [OF assms(1)] decide_maintains [OF assms(1)])
qed

lemma pump_owns_grab:
  assumes "plain_calls grabs so dv au" and "grab_laws grabs dv"
  shows "grab_inv grabs G io (pump so dv au c)"
proof -
  have "grab_inv grabs G io (pump_events so dv au c peer events)" for peer events
    by (induction events) (auto intro!: maintains_of maintains_seq pump_event_owns_grab assms)
  then have "grab_inv grabs G io (pump_inner so dv au c)"
    unfolding pump_inner_def Let_def
    by (intro maintains_intros keeps_sys plain_keeps [OF assms(1)]) (use assms(1) in \<open>simp_all add: plain_calls_def\<close>)
  then show ?thesis
    unfolding pump_def
    by (rule maintains_or_else) (rule maintains_anyD [OF bypass_owns_grab [OF assms(2)]])
qed

lemma activate_owns_grab:
  assumes "plain_calls grabs so dv au" and "grab_laws grabs dv"
  shows "grab_inv grabs G io (activate dv au peer)"
proof -
  have post: "grab_inv grabs G io (or_else (io_seq (px_io (check_post_grab dv i)) (px_io (au_verify_output_ready au out peer))) (bypass dv))"
    for i out
  proof (rule maintains_or_else)
    show "grab_inv grabs G io (io_seq (px_io (check_post_grab dv i)) (px_io (au_verify_output_ready au out peer)))"
      using assms(1) by (auto simp: plain_calls_def intro!: maintains_intros plain_keeps(7) [OF assms(1)])
  qed (rule maintains_anyD [OF bypass_owns_grab [OF assms(2)]])
  show ?thesis
    unfolding activate_def
    by (intro maintains_intros grab_owns [OF assms(2)] post plain_keeps [OF assms(1)])
      (use assms(1) in \<open>auto simp: plain_calls_def\<close>)
qed

section \<open>The output device\<close>

text \<open>What is relied on of the output devices, with \<open>pressed\<close> the keys each holds down: an accepted frame is applied in
  order, a rejected one not at all, and nothing else presses or releases a key.\<close>

definition press_laws :: "('w \<Rightarrow> 'd \<Rightarrow> 16 word set) \<Rightarrow> ('d, 'w) devices \<Rightarrow> bool" where
  "press_laws pressed dv \<longleftrightarrow>
     (\<forall>d. unaffected pressed (dv_ungrab dv d)) \<and>
     (\<forall>d events w w'. dv_emit dv d events w = (Ok (), w') \<longrightarrow>
        pressed w' = (pressed w)(d := device_after events (pressed w d))) \<and>
     (\<forall>d events w e w'. dv_emit dv d events w = (Err e, w') \<longrightarrow> pressed w' = pressed w)"

text \<open>A proxy is exact when the committed set is what its output holds down and the speculative set what it will hold
  down after the pending frame; it is committed when the first half is true.\<close>

definition exact :: "'d device_proxy \<Rightarrow> ('d \<Rightarrow> 16 word set) \<Rightarrow> bool" where
  "exact p pressed \<longleftrightarrow> ks_committed_output (dp_state p) = pressed (dp_output p) \<and>
     ks_output (dp_state p) = device_after (dp_pending p) (pressed (dp_output p))"

definition committed :: "'d device_proxy \<Rightarrow> ('d \<Rightarrow> 16 word set) \<Rightarrow> bool" where
  "committed p pressed \<longleftrightarrow> ks_committed_output (dp_state p) = pressed (dp_output p)"

lemma exact_committed: "exact p b \<Longrightarrow> committed p b"
  by (simp add: exact_def committed_def)

definition flushes :: "raw_event \<Rightarrow> bool" where
  "flushes e \<longleftrightarrow> re_type e = 0 \<and> re_code e = 0"

lemma flushes_default: "flushes raw_event_default"
  by (simp add: flushes_def raw_event_default_def)

lemma device_after_type_0: "device_after (filter (\<lambda>e. re_type e \<noteq> 0) es) D = device_after es D"
  by (induction es arbitrary: D) (auto simp: device_event_def)

lemma emit_append: "emit dv (es @ fs) s = io_seq (emit dv es) (emit dv fs) s"
  by (induction es arbitrary: s) (auto simp: io_seq_def io_bind_def io_of_def split: option.splits prod.splits result.splits)

lemma io_seq_cases:
  assumes "io_seq m f s = Some (r, s')"
  obtains a s1 where "m s = Some (Ok a, s1)" "f s1 = Some (r, s')" | e where "m s = Some (Err e, s')" "r = Err e"
  using assms by (auto simp: io_seq_def io_bind_def split: option.splits prod.splits result.splits)

lemma full_pending: "\<not> length (dp_pending p) < 256 \<Longrightarrow> \<exists>es. p = p\<lparr>dp_pending := es\<rparr> \<and> 256 \<le> length es"
  by (rule exI [of _ "dp_pending p"]) simp

lemma same_pending [simp]: "\<exists>es. p = p\<lparr>dp_pending := es\<rparr> \<and> es = dp_pending p"
  by (rule exI [of _ "dp_pending p"]) simp

lemma emit_push:
  assumes "\<not> flushes e" and "emit_event dv e (p, w) = Some (r, p', w')"
  shows "w' = w \<and> (\<exists>es. p' = p\<lparr>dp_pending := es\<rparr> \<and> (if is_ok r then es = dp_pending p @ filter (\<lambda>e. re_type e \<noteq> 0) [e] else 256 \<le> length es))"
  using assms
  by (auto simp: emit_event_def flushes_def px_with_def px_set_def io_seq_def io_bind_def io_ensure_def io_of_def ensure_def
      full_pending split: if_splits)

lemma emit_pushes:
  assumes "list_all (\<lambda>e. \<not> flushes e) es" and "emit dv es (p, w) = Some (r, p', w')"
  shows "w' = w \<and> (\<exists>fs. p' = p\<lparr>dp_pending := fs\<rparr> \<and> (if is_ok r then fs = dp_pending p @ filter (\<lambda>e. re_type e \<noteq> 0) es else 256 \<le> length fs))"
  using assms
proof (induction es arbitrary: p w)
  case (Cons e es)
  from Cons.prems(2) have run: "io_seq (emit_event dv e) (emit dv es) (p, w) = Some (r, p', w')" by simp
  from Cons.prems(1) have e: "\<not> flushes e" and es: "list_all (\<lambda>e. \<not> flushes e) es" by simp_all
  from run show ?case
  proof (cases rule: io_seq_cases)
    case (1 a s1)
    obtain p1 w1 where s1: "s1 = (p1, w1)" by fastforce
    from emit_push [OF e 1(1) [unfolded s1]] Cons.IH [OF es 1(2) [unfolded s1]] show ?thesis
      by auto
  next
    case (2 err)
    from emit_push [OF e 2(1)] 2(2) show ?thesis by auto
  qed
qed auto

lemma emit_flush:
  assumes "flushes e" and "emit dv [e] (p, w) = Some (r, p', w')"
  shows "(\<exists>u. dv_emit dv (dp_output p) (dp_pending p) w = (Ok u, w') \<and> is_ok r \<and>
       p' = p\<lparr>dp_state := commit_output (dp_state p), dp_pending := []\<rparr>) \<or>
     (\<exists>err. dv_emit dv (dp_output p) (dp_pending p) w = (Err err, w') \<and> \<not> is_ok r \<and> p' = p)"
  using assms
  by (auto simp: emit_event_def flushes_def px_with_def px_set_def px_sys_eq io_seq_def io_bind_def io_of_def
      split: prod.splits result.splits)

text \<open>Pushing the events that lead from the old speculative set to the new one keeps a proxy exact, and so does
  sending the frame.\<close>

lemma emit_pushes_exact:
  assumes "list_all (\<lambda>e. \<not> flushes e) es" and "emit dv es (p, w) = Some (r, p', w')"
    and "ks_committed_output (dp_state p) = pressed w (dp_output p)"
    and "ks_output (dp_state p) = device_after es (device_after (dp_pending p) (pressed w (dp_output p)))"
  shows "if is_ok r then exact p' (pressed w') else committed p' (pressed w')"
  using emit_pushes [OF assms(1,2)] assms(3,4)
  by (auto simp: exact_def committed_def device_after_append device_after_type_0)

lemma emit_flush_exact:
  assumes "press_laws pressed dv" and "flushes e"
  shows "maintains pressed exact committed (emit dv [e])"
proof (rule maintainsI)
  fix p w r p' w'
  assume x: "exact p (pressed w)" and run: "emit dv [e] (p, w) = Some (r, p', w')"
  from emit_flush [OF assms(2) run] show "if is_ok r then exact p' (pressed w') else committed p' (pressed w')"
  proof
    assume "\<exists>u. dv_emit dv (dp_output p) (dp_pending p) w = (Ok u, w') \<and> is_ok r \<and>
       p' = p\<lparr>dp_state := commit_output (dp_state p), dp_pending := []\<rparr>"
    moreover from this have "pressed w' = (pressed w)(dp_output p := device_after (dp_pending p) (pressed w (dp_output p)))"
      using assms(1) unfolding press_laws_def by auto
    ultimately show ?thesis
      using x by (simp add: exact_def commit_output_def)
  next
    assume "\<exists>err. dv_emit dv (dp_output p) (dp_pending p) w = (Err err, w') \<and> \<not> is_ok r \<and> p' = p"
    moreover from this have "pressed w' = pressed w"
      using assms(1) unfolding press_laws_def by blast
    ultimately show ?thesis
      using x by (simp add: exact_committed)
  qed
qed

lemma apply_events:
  assumes "state_apply raw decision s = (es, s')"
  shows "es = [] \<or> es = [raw] \<and> (flushes raw \<longrightarrow> s' = s)"
  using assms by (cases rule: state_apply_cases) (auto simp: flushes_def)

lemma apply_exact:
  assumes "press_laws pressed dv" and x: "exact p (pressed w)"
    and a: "state_apply raw decision (dp_state p) = (es, st)" and run: "emit dv es (p\<lparr>dp_state := st\<rparr>, w) = Some (r, p', w')"
  shows "if is_ok r then exact p' (pressed w') else committed p' (pressed w')"
proof (cases "es = [raw] \<and> flushes raw")
  case True
  with apply_events [OF a] have "st = dp_state p" by simp
  with True run x maintainsD [OF emit_flush_exact [OF assms(1)], of raw p w r p' w'] show ?thesis by simp
next
  case False
  with apply_events [OF a] have "list_all (\<lambda>e. \<not> flushes e) es" by auto
  show ?thesis
    using state_apply_output [OF a] x by (intro emit_pushes_exact [OF \<open>list_all _ es\<close> run]) (simp_all add: exact_def)
qed

lemma pump_apply_exact:
  assumes "press_laws pressed dv"
  shows "maintains pressed exact committed (pump_apply dv raw decision)"
proof (rule maintainsI)
  fix p w r p' w'
  assume x: "exact p (pressed w)" and run: "pump_apply dv raw decision (p, w) = Some (r, p', w')"
  define p1 where "p1 = (if re_type raw = 0 \<and> re_code raw = 3
    then p\<lparr>dp_pending := [], dp_state := rollback_output (dp_state p)\<rparr> else p)"
  have x1: "exact p1 (pressed w)"
    using x by (simp add: p1_def exact_def rollback_output_def)
  obtain es st where a: "state_apply raw decision (dp_state p1) = (es, st)" by fastforce
  with run have "emit dv es (p1\<lparr>dp_state := st\<rparr>, w) = Some (r, p', w')"
    unfolding pump_apply_def by (simp add: io_seq_def io_bind_def px_set_def px_with_def flip: p1_def)
  from apply_exact [OF assms x1 a this] show "if is_ok r then exact p' (pressed w') else committed p' (pressed w')" .
qed

lemma resync_presses_keys: "resync_presses cs S D = (es, D') \<Longrightarrow> list_all (\<lambda>e. \<not> flushes e) es"
proof (induction cs S D arbitrary: es rule: resync_presses.induct)
  case (2 c' cs S D)
  then show ?case
    by (auto simp: Let_def raw_key_def flushes_def split: if_splits prod.splits)
qed simp

lemma resync_keys:
  assumes "resync keys s = (es, s')"
  shows "list_all (\<lambda>e. \<not> flushes e) es"
proof -
  obtain ps out where p: "resync_presses (sorted_list_of_set keys) (ks_swallowed s \<inter> keys) (ks_output s \<inter> keys) = (ps, out)"
    by fastforce
  with assms resync_presses_keys [OF p] show ?thesis
    by (auto simp: resync_def list_all_iff raw_key_def flushes_def)
qed

lemma bypass_result:
  assumes laws: "press_laws pressed dv" and c: "committed p (pressed w)" and run: "bypass dv (p, w) = Some (r, p', w')"
  shows "\<not> dp_grabbed p' \<and> dp_state p' = key_state_default \<and> (dp_pending p' = [] \<longrightarrow> pressed w' (dp_output p') = {})"
proof -
  let ?keys = "ks_output (dp_state p) \<union> ks_committed_output (dp_state p)"
  let ?rs = "map (\<lambda>c. raw_key c 0) (sorted_list_of_set ?keys)"
  let ?p0 = "p\<lparr>dp_pending := [], dp_state := key_state_default\<rparr>"
  obtain r1 p1 w1 where e: "emit dv (?rs @ [raw_event_default]) (?p0, w) = Some (r1, p1, w1)"
    using run by (auto simp: bypass_def px_with_def release_all_def io_seq_def io_bind_def px_set_def ignoring_def split: option.splits)
  have ungrab: "dv_ungrab dv d w1 = (r2, w2) \<Longrightarrow> pressed w2 = pressed w1" for d r2 w2
    using laws by (simp add: press_laws_def unaffected_def)
  have rest: "p' = p1\<lparr>dp_grabbed := False\<rparr> \<and> pressed w' = pressed w1"
    using run e
    by (auto simp: bypass_def px_with_def release_all_def io_seq_def io_bind_def px_set_def ignoring_def px_sys_eq io_of_def
        split: prod.splits if_splits dest: ungrab)
  have "dp_state p1 = key_state_default \<and> (dp_pending p1 = [] \<longrightarrow> pressed w1 (dp_output p1) = {})"
    using e unfolding emit_append
  proof (cases rule: io_seq_cases)
    case (1 a s1)
    then obtain p2 where s1: "s1 = (p2, w)" and p2: "p2 = ?p0\<lparr>dp_pending := ?rs\<rparr>"
      using emit_pushes [of ?rs dv ?p0 w "Ok a" "fst s1" "snd s1"]
      by (cases s1) (auto simp: list_all_iff flushes_def raw_key_def filter_id_conv)
    have released: "device_after ?rs (pressed w (dp_output p)) = {}"
      using c by (simp add: device_after_releases committed_def)
    from emit_flush [OF flushes_default 1(2) [unfolded s1]] show ?thesis
    proof (elim disjE exE conjE)
      fix u assume out: "dv_emit dv (dp_output p2) (dp_pending p2) w = (Ok u, w1)"
        and p1: "p1 = p2\<lparr>dp_state := commit_output (dp_state p2), dp_pending := []\<rparr>"
      with laws p2 have "pressed w1 (dp_output p) = device_after ?rs (pressed w (dp_output p))"
        unfolding press_laws_def by auto
      with released p1 p2 show ?thesis by (simp add: commit_output_def key_state_default_def)
    next
      fix err assume out: "dv_emit dv (dp_output p2) (dp_pending p2) w = (Err err, w1)" and p1: "p1 = p2"
      with laws have "pressed w1 = pressed w"
        unfolding press_laws_def by blast
      with released p1 p2 show ?thesis by auto
    qed
  next
    case (2 err)
    then show ?thesis
      using emit_pushes [of ?rs dv ?p0 w r1 p1 w1] by (auto simp: list_all_iff flushes_def raw_key_def)
  qed
  with rest show ?thesis by simp
qed

text \<open>A resynchronisation: the events that reconcile the output wait while the client is told.\<close>

definition reconciling :: "raw_event list \<Rightarrow> 'd device_proxy \<Rightarrow> ('d \<Rightarrow> 16 word set) \<Rightarrow> bool" where
  "reconciling es p pressed \<longleftrightarrow> committed p pressed \<and>
     ks_output (dp_state p) = device_after es (device_after (dp_pending p) (pressed (dp_output p)))"

lemma resync_reconciles:
  assumes plain: "plain_calls pressed so dv au" and laws: "press_laws pressed dv"
    and x: "reconciling es p (pressed w)" and es: "list_all (\<lambda>e. \<not> flushes e) es"
    and run: "io_seq (reset_client so c) (io_seq (snapshot_keys so c codes) (io_seq (emit dv es) (emit dv [raw_event_default])))
      (p, w) = Some (r, p', w')"
  shows "if is_ok r then exact p' (pressed w') else committed p' (pressed w')"
proof -
  have told: "maintains pressed (reconciling es) committed (io_seq (reset_client so c) (snapshot_keys so c codes))"
    unfolding reset_client_def
    by (intro maintains_seq control_maintains [OF plain] snapshot_maintains [OF plain])
      (simp_all add: reconciling_def committed_def)
  have assoc: "io_seq (io_seq (reset_client so c) (snapshot_keys so c codes)) (io_seq (emit dv es) (emit dv [raw_event_default]))
      (p, w) = Some (r, p', w')"
    using run by (auto simp: io_seq_def io_bind_def split: option.splits result.splits)
  then show ?thesis
  proof (cases rule: io_seq_cases)
    case (1 a s1)
    obtain p1 w1 where s1: "s1 = (p1, w1)" by fastforce
    have x1: "reconciling es p1 (pressed w1)"
      using maintainsD [OF told, OF x 1(1) [unfolded s1]] by simp
    from 1(2) [unfolded s1] show ?thesis
    proof (cases rule: io_seq_cases)
      case (1 b s2)
      obtain p2 w2 where s2: "s2 = (p2, w2)" by fastforce
      have "exact p2 (pressed w2)"
        using emit_pushes_exact [OF es 1(1) [unfolded s2], of pressed] x1 by (simp add: reconciling_def committed_def)
      from maintainsD [OF emit_flush_exact [OF laws flushes_default], OF this 1(2) [unfolded s2]] show ?thesis .
    next
      case (2 e)
      with emit_pushes_exact [OF es 2(1), of pressed] x1 show ?thesis
        by (simp add: reconciling_def committed_def)
    qed
  next
    case (2 e)
    with maintainsD [OF told, OF x 2(1)] show ?thesis by simp
  qed
qed

lemma pump_resync_exact:
  assumes plain: "plain_calls pressed so dv au" and laws: "press_laws pressed dv"
  shows "maintains pressed exact committed (pump_resync so dv c)"
proof (rule maintainsI)
  fix p w r p' w'
  assume x: "exact p (pressed w)" and run: "pump_resync so dv c (p, w) = Some (r, p', w')"
  obtain k w1 where k: "dv_key_state dv (dp_input p) w = (k, w1)" by fastforce
  with plain have same: "pressed w1 = pressed w"
    unfolding plain_calls_def unaffected_def by metis
  note run = run [unfolded pump_resync_def px_with_def prod.case io_bind_def px_sys_eq k option.case io_some_def io_of_def]
  show "if is_ok r then exact p' (pressed w') else committed p' (pressed w')"
  proof (cases "\<exists>keys epoch. k = Ok keys \<and> checked_add (dp_epoch p) 1 = Some epoch")
    case True
    then obtain keys epoch where ok: "k = Ok keys" "checked_add (dp_epoch p) 1 = Some epoch" by blast
    obtain es st where rs: "resync keys (dp_state p) = (es, st)" by fastforce
    let ?p = "p\<lparr>dp_epoch := epoch, dp_state := st\<rparr>"
    have rec: "reconciling es ?p (pressed w1)"
      using resync_correct(2,7) [OF rs] x same by (simp add: reconciling_def exact_def committed_def)
    have "io_seq (reset_client so c) (io_seq (snapshot_keys so c (sorted_list_of_set keys))
      (io_seq (emit dv es) (emit dv [raw_event_default]))) (?p, w1) = Some (r, p', w')"
      using run ok rs by (simp add: io_seq_def io_bind_def px_set_def del: emit.simps)
    from resync_reconciles [OF plain laws rec resync_keys [OF rs] this] show ?thesis .
  next
    case False
    then have "r \<noteq> Ok ()" "p' = p" "w' = w1"
      using run by (auto split: result.splits option.splits)
    then show ?thesis
      using x same by (cases r) (simp_all add: exact_committed)
  qed
qed

lemma pump_event_exact:
  assumes plain: "plain_calls pressed so dv au" and laws: "press_laws pressed dv"
  shows "maintains pressed exact committed (pump_event so dv au c peer raw)"
  unfolding pump_event_def next_sequence_def
  by (intro maintains_intros plain_keeps(5) [OF plain] decide_maintains [OF plain] pump_resync_exact [OF plain laws]
      pump_apply_exact [OF laws]) (simp_all add: exact_def committed_def)

lemma pump_inner_exact:
  assumes plain: "plain_calls pressed so dv au" and laws: "press_laws pressed dv"
  shows "maintains pressed exact committed (pump_inner so dv au c)"
proof -
  have "maintains pressed exact committed (pump_events so dv au c peer events)" for peer events
    by (induction events) (auto intro!: maintains_of maintains_seq pump_event_exact [OF plain laws] simp: exact_committed)
  then show ?thesis
    unfolding pump_inner_def Let_def
    by (intro maintains_intros keeps_sys plain_keeps [OF plain])
      (use plain in \<open>simp_all add: plain_calls_def exact_committed\<close>)
qed

lemma pump_descriptors:
  fixes dv :: "('d, 'w) devices"
  assumes "pump so dv au c (p, w) = Some (r, p', w')"
  shows "dp_input p' = dp_input p \<and> dp_output p' = dp_output p"
proof -
  have "plain_calls (\<lambda>_. {} :: 'd set) so dv au" "grab_laws (\<lambda>_. {}) dv"
    by (simp_all add: plain_calls_def grab_laws_def unaffected_def keeps_def)
  then have inv: "grab_inv (\<lambda>_. {}) {} (dp_input p, dp_output p) (pump so dv au c)"
    by (rule pump_owns_grab)
  show ?thesis
    using maintains_anyD [OF inv, OF _ assms] by (simp add: owns_grab_def)
qed

section \<open>Properties\<close>


text \<open>A keyboard with one key pressed but not yet sent, whose input reports the end of the frame. Descriptor 0 is
  the input and 1 the output; the world is what each output holds down.\<close>

definition ex_stream :: "(unit, 'w) stream" where
  "ex_stream = \<lparr>so_now = (\<lambda>w. (0, w)), so_set_read_timeout = (\<lambda>_ _ w. (Ok (), w)),
     so_set_write_timeout = (\<lambda>_ _ w. (Ok (), w)), so_read = (\<lambda>_ _ w. (Ok [], w)), so_write = (\<lambda>_ bytes w. (Ok (length bytes), w)),
     so_peer_credentials = (\<lambda>_ w. (Ok (1000, 77), w)), so_poll = (\<lambda>_ _ _ w. (Ok (0, Some 0), w))\<rparr>"

definition ex_authority :: "(nat, 'w) session_authority" where
  "ex_authority = \<lparr>au_verify = (\<lambda>peer. io_of (Ok \<lparr>sp_peer = peer, sp_seat = ''seat0'', sp_session = ''1'', sp_active = True,
       sp_unlocked = Some True, sp_local = True\<rparr>)),
     au_verify_output_ready = (\<lambda>_ _. io_of (Ok ())), au_verify_device = (\<lambda>_ _. io_of (Ok ()))\<rparr>"

definition ex_devices :: "(nat, nat \<Rightarrow> 16 word set) devices" where
  "ex_devices = \<lparr>dv_getfl = (\<lambda>_ w. (Ok 0, w)), dv_setfl = (\<lambda>_ _ w. (Ok (), w)), dv_known_flags = 0,
     dv_from_fd = (\<lambda>_ w. (Err BrokenPipe, w)), dv_key_state = (\<lambda>_ w. (Ok {}, w)),
     dv_fetch = (\<lambda>_ w. (Ok [raw_event_default], w)), dv_poll = (\<lambda>_ _ _ w. (Ok (1, Some POLLIN), w)),
     dv_build = (\<lambda>_ _ _ w. (Ok 1, w)), dv_grab = (\<lambda>_ w. (Ok (), w)), dv_ungrab = (\<lambda>_ w. (Ok (), w)),
     dv_emit = (\<lambda>d events w. (Ok (), w(d := device_after events (w d)))), dv_close = (\<lambda>_ w. w)\<rparr>"

definition ex_device_proxy :: "nat device_proxy" where
  "ex_device_proxy = \<lparr>dp_input = 0, dp_output = 1, dp_state = ex_proxy, dp_generation = 1, dp_epoch = 1, dp_sequence = 4,
     dp_grabbed = True, dp_pending = [raw_key 30 1]\<rparr>"

lemma ex_plain: "plain_calls id ex_stream ex_devices ex_authority"
  by (simp add: plain_calls_def unaffected_def keeps_of ex_stream_def ex_devices_def ex_authority_def)

lemma ex_press_laws: "press_laws id ex_devices"
  by (auto simp: press_laws_def unaffected_def ex_devices_def)

lemmas px_eval = px_io_def px_with_def px_set_def px_sys_eq io_total_def io_bind_def io_seq_def io_sys_def io_of_def io_ensure_def
  ensure_def io_some_def

lemma ex_pump:
  "pump ex_stream ex_devices ex_authority () (ex_device_proxy, \<lambda>_. {}) =
     Some (Ok (), ex_device_proxy\<lparr>dp_state := commit_output ex_proxy, dp_pending := [], dp_sequence := 5\<rparr>, (\<lambda>_. {})(1 := {30}))"
  by (simp add: pump_def or_else_def pump_inner_def pump_event_def pump_decide_def pump_apply_def next_sequence_def px_eval
      peer_identity_of_def verify_def permits_def gone_def POLLIN_def POLLHUP_def POLLERR_def POLLNVAL_def
      ex_stream_def ex_devices_def ex_authority_def ex_device_proxy_def checked_add_def raw_event_default_def
      emit_event_def state_apply_def ex_proxy_def key_state_default_def commit_output_def device_event_def raw_key_def)


end
