(* ===== verification/Lifecycle.thy ===== *)
theory Lifecycle
  imports Broker
begin

unbundle bit_operations_syntax

text \<open>
  Discovery of keyboards and the life of their proxies, \<^verbatim>\<open>packages/linux/src/lifecycle.rs\<close>, and the broker's
  entry point, \<^verbatim>\<open>packages/linux/src/bin/sledge-linux-broker.rs\<close>. The file system is a parameter; a directory is
  listed as a whole, with \<open>None\<close> for a name that is not text.
\<close>

section \<open>Discovery\<close>

record node =
  nd_is_file :: bool
  nd_is_dir :: bool
  nd_is_char_device :: bool
  nd_uid :: "32 word"
  nd_mode :: "32 word"
  nd_dev :: "64 word"
  nd_ino :: "64 word"
  nd_rdev :: "64 word"

record ('d, 'w) filesystem =
  fs_read_dir :: "string \<Rightarrow> 'w \<Rightarrow> ((string option, io_error) result list, io_error) result \<times> 'w"
  fs_symlink_metadata :: "string \<Rightarrow> 'w \<Rightarrow> (node, errno) result \<times> 'w"
  fs_open_nofollow :: "string \<Rightarrow> 'w \<Rightarrow> ('d, errno) result \<times> 'w"
  fs_open_nonblock :: "string \<Rightarrow> 'w \<Rightarrow> ('d, errno) result \<times> 'w"
  fs_metadata :: "'d \<Rightarrow> 'w \<Rightarrow> (node, errno) result \<times> 'w"
  fs_read_limited :: "'d \<Rightarrow> nat \<Rightarrow> 'w \<Rightarrow> (byte list, errno) result \<times> 'w"
  fs_major :: "64 word \<Rightarrow> 64 word"
  fs_minor :: "64 word \<Rightarrow> 64 word"

record device_identity =
  di_path :: string
  di_device :: "64 word"
  di_inode :: "64 word"
  di_rdev :: "64 word"
  di_seat :: string

definition ascii_alphanumeric :: "char \<Rightarrow> bool" where
  "ascii_alphanumeric c = (let n = of_char c :: nat in
     48 \<le> n \<and> n \<le> 57 \<or> 65 \<le> n \<and> n \<le> 90 \<or> 97 \<le> n \<and> n \<le> 122)"

definition ascii_digit :: "char \<Rightarrow> bool" where
  "ascii_digit c = (let n = of_char c :: nat in 48 \<le> n \<and> n \<le> 57)"

definition strip_text :: "string \<Rightarrow> string \<Rightarrow> string option" where
  "strip_text prefix s = (if take (length prefix) s = prefix then Some (drop (length prefix) s) else None)"

definition untrusted :: "node \<Rightarrow> bool" where
  "untrusted metadata \<longleftrightarrow> nd_uid metadata \<noteq> 0 \<or> nd_mode metadata AND 0x12 \<noteq> 0"

definition record_seat :: "string \<Rightarrow> (string, io_error) result" where
  "record_seat data =
     and_then (ensure (\<not> 65536 < length data) (PermissionDenied ''udev record exceeds bound'')) (\<lambda>_.
     and_then (ensure (''E:ID_INPUT_KEYBOARD=1'' \<in> set (text_lines data)) (PermissionDenied ''udev device is not a keyboard'')) (\<lambda>_.
     let seat = (case List.map_filter (strip_text ''E:ID_SEAT='') (text_lines data) of [] \<Rightarrow> ''seat0'' | s # _ \<Rightarrow> s) in
     and_then (ensure (\<not> (seat = [] \<or> 128 < length seat \<or>
         \<not> list_all (\<lambda>c. ascii_alphanumeric c \<or> c \<in> {CHR ''_'', CHR ''-''}) seat))
       (PermissionDenied ''invalid seat'')) (\<lambda>_.
     Ok seat)))"

text \<open>Whatever the outcome of an action, a descriptor is closed after it.\<close>

definition finally_close :: "('d, 'w) devices \<Rightarrow> 'd \<Rightarrow> ('w, 'a) io \<Rightarrow> ('w, 'a) io" where
  "finally_close dv d m w = map_option (\<lambda>(r, w). (r, dv_close dv d w)) (m w)"

definition seat_for :: "('d, 'w) devices \<Rightarrow> ('d, 'w) filesystem \<Rightarrow> 64 word \<Rightarrow> ('w, string) io" where
  "seat_for dv fs rdev =
     (let path = ''/run/udev/data/c'' @ show_nat (unat (fs_major fs rdev)) @ '':'' @ show_nat (unat (fs_minor fs rdev)) in
      io_bind (io_sys (fs_open_nofollow fs path)) (\<lambda>fd. finally_close dv fd
        (io_bind (io_sys (fs_metadata fs fd)) (\<lambda>metadata.
         io_seq (io_ensure (\<not> (\<not> nd_is_file metadata \<or> untrusted metadata)) (PermissionDenied ''untrusted udev seat database''))
         (io_bind (io_sys (fs_read_limited fs fd 65537)) (\<lambda>bytes.
         io_bind (io_utf8 bytes (InvalidData ''stream did not contain valid UTF-8'')) (\<lambda>data.
         io_of (record_seat data))))))))"

definition event_node :: "string option \<Rightarrow> bool" where
  "event_node name = (case Option.bind name (strip_text ''event'') of
      None \<Rightarrow> False
    | Some number \<Rightarrow> number \<noteq> [] \<and> list_all ascii_digit number)"

definition io_attempt :: "('w, 'a) io \<Rightarrow> ('w, ('a, io_error) result) io" where
  "io_attempt m w = map_option (\<lambda>(r, w). (Ok r, w)) (m w)"

fun discover_entries ::
  "('d, 'w) devices \<Rightarrow> ('d, 'w) filesystem \<Rightarrow> (string option, io_error) result list \<Rightarrow> device_identity list \<Rightarrow>
   ('w, device_identity list) io" where
  "discover_entries dv fs [] devices = io_of (Ok devices)"
| "discover_entries dv fs (entry # entries) devices = io_bind (io_of entry) (\<lambda>name.
     if \<not> event_node name then discover_entries dv fs entries devices
     else let path = ''/dev/input/'' @ the name in
       io_bind (io_sys (fs_symlink_metadata fs path)) (\<lambda>metadata.
       if \<not> nd_is_char_device metadata \<or> fs_major fs (nd_rdev metadata) \<noteq> 13 then discover_entries dv fs entries devices
       else io_bind (io_attempt (seat_for dv fs (nd_rdev metadata))) (\<lambda>seat.
         let devices = (case seat of
               Ok seat \<Rightarrow> devices @ [\<lparr>di_path = path, di_device = nd_dev metadata, di_inode = nd_ino metadata,
                 di_rdev = nd_rdev metadata, di_seat = seat\<rparr>]
             | Err _ \<Rightarrow> devices)
         in io_seq (io_ensure (\<not> 64 < length devices) (PermissionDenied ''keyboard discovery exceeds bound''))
              (discover_entries dv fs entries devices))))"

definition discover_keyboards :: "('d, 'w) devices \<Rightarrow> ('d, 'w) filesystem \<Rightarrow> ('w, device_identity list) io" where
  "discover_keyboards dv fs = io_bind (io_total (fs_read_dir fs ''/dev/input'')) (\<lambda>entries. discover_entries dv fs entries [])"

section \<open>Proxies\<close>

text \<open>The proxies by path, in the order of the paths. All paths have the same parent, so their order is that of
  their bytes.\<close>

definition path_less :: "string \<Rightarrow> string \<Rightarrow> bool" where
  "path_less p q = ord_class.lexordp (map of_char p :: nat list) (map of_char q)"

fun bt_insert :: "string \<Rightarrow> 'v \<Rightarrow> (string \<times> 'v) list \<Rightarrow> (string \<times> 'v) list" where
  "bt_insert k v [] = [(k, v)]"
| "bt_insert k v ((k', v') # m) =
     (if k = k' then (k, v) # m else if path_less k k' then (k, v) # (k', v') # m else (k', v') # bt_insert k v m)"

record 'd lifecycle =
  lc_proxies :: "(string \<times> device_identity \<times> 'd device_proxy) list"
  lc_generation :: "64 word"

definition lifecycle_default :: "'d lifecycle" where
  "lifecycle_default = \<lparr>lc_proxies = [], lc_generation = 0\<rparr>"

type_synonym ('d, 'w, 'a) lifecycle_io = "('d lifecycle \<times> 'w, 'a) io"

fun drop_all :: "('d, 'w) devices \<Rightarrow> 'd device_proxy list \<Rightarrow> ('w, unit) io" where
  "drop_all dv [] = io_of (Ok ())"
| "drop_all dv (p # ps) = io_seq (drop_proxy dv p) (drop_all dv ps)"

definition proxies_of :: "'d lifecycle \<Rightarrow> 'd device_proxy list" where
  "proxies_of l = map (snd \<circ> snd) (lc_proxies l)"

definition clear_proxies :: "('d, 'w) devices \<Rightarrow> ('d, 'w, unit) lifecycle_io" where
  "clear_proxies dv = px_with (\<lambda>l. io_seq (px_set (\<lambda>l. l\<lparr>lc_proxies := []\<rparr>)) (px_io (drop_all dv (proxies_of l))))"

text \<open>An action of a proxy that is dropped after it.\<close>

definition then_drop :: "('d, 'w) devices \<Rightarrow> ('d, 'w, 'a) proxy_io \<Rightarrow> 'd device_proxy \<Rightarrow> ('w, 'a) io" where
  "then_drop dv m p w = (case m (p, w) of
      None \<Rightarrow> None
    | Some (r, p, w) \<Rightarrow> map_option (\<lambda>(_, w). (r, w)) (drop_proxy dv p w))"

fun retire_paths ::
  "('c, 'w) stream \<Rightarrow> ('d, 'w) devices \<Rightarrow> 'c \<Rightarrow> string list \<Rightarrow> ('d, 'w, unit) lifecycle_io" where
  "retire_paths so dv c [] = io_of (Ok ())"
| "retire_paths so dv c (path # paths) = io_seq
     (px_with (\<lambda>l. case hm_get (lc_proxies l) path of
         None \<Rightarrow> io_of (Ok ())
       | Some (_, p) \<Rightarrow> io_seq (px_set (\<lambda>l. l\<lparr>lc_proxies := hm_remove path (lc_proxies l)\<rparr>))
           (px_io (then_drop dv (io_seq (bypass dv) (retire_client so c)) p))))
     (retire_paths so dv c paths)"

text \<open>A new proxy is activated and announced; it is dropped if that fails.\<close>

definition start_proxy ::
  "('c, 'w) stream \<Rightarrow> ('d, 'w) devices \<Rightarrow> ('d, 'w) session_authority \<Rightarrow> peer_identity \<Rightarrow> 'c \<Rightarrow> 'd device_proxy \<Rightarrow>
   ('w, 'd device_proxy) io" where
  "start_proxy so dv au peer c p w = (case io_seq (activate dv au peer) (reset_client so c) (p, w) of
      None \<Rightarrow> None
    | Some (Ok _, p, w) \<Rightarrow> Some (Ok p, w)
    | Some (Err e, p, w) \<Rightarrow> map_option (\<lambda>(_, w). (Err e, w)) (drop_proxy dv p w))"

definition admit_new ::
  "('c, 'w) stream \<Rightarrow> ('d, 'w) devices \<Rightarrow> ('d, 'w) filesystem \<Rightarrow> ('d, 'w) session_authority \<Rightarrow> peer_identity \<Rightarrow> 'c \<Rightarrow>
   device_identity \<Rightarrow> ('d, 'w, unit) lifecycle_io" where
  "admit_new so dv fs au peer c identity = px_with (\<lambda>l.
     io_bind (px_io (io_sys (fs_open_nonblock fs (di_path identity)))) (\<lambda>fd.
     io_bind (px_io (or_else
       (io_bind (io_sys (fs_metadata fs fd)) (\<lambda>metadata.
        io_seq (io_ensure (\<not> (nd_dev metadata \<noteq> di_device identity \<or> nd_ino metadata \<noteq> di_inode identity \<or>
            nd_rdev metadata \<noteq> di_rdev identity)) (PermissionDenied ''input identity changed during admission''))
        (io_some (checked_add (lc_generation l) 1) (PermissionDenied ''generation exhausted''))))
       (closing dv fd))) (\<lambda>generation.
     io_seq (px_set (\<lambda>l. l\<lparr>lc_generation := generation\<rparr>))
     (io_bind (px_io (from_authorized_fd dv au fd generation peer)) (\<lambda>p.
      io_bind (px_io (start_proxy so dv au peer c p)) (\<lambda>p.
      px_set (\<lambda>l. l\<lparr>lc_proxies := bt_insert (di_path identity) (identity, p) (lc_proxies l)\<rparr>)))))))"

definition admit ::
  "('c, 'w) stream \<Rightarrow> ('d, 'w) devices \<Rightarrow> ('d, 'w) filesystem \<Rightarrow> ('d, 'w) session_authority \<Rightarrow> peer_identity \<Rightarrow> 'c \<Rightarrow>
   device_identity \<Rightarrow> ('d, 'w, unit) lifecycle_io" where
  "admit so dv fs au peer c identity = px_with (\<lambda>l.
     if hm_get (lc_proxies l) (di_path identity) \<noteq> None then io_of (Ok ()) else admit_new so dv fs au peer c identity)"

fun admit_all ::
  "('c, 'w) stream \<Rightarrow> ('d, 'w) devices \<Rightarrow> ('d, 'w) filesystem \<Rightarrow> ('d, 'w) session_authority \<Rightarrow> peer_identity \<Rightarrow> 'c \<Rightarrow>
   device_identity list \<Rightarrow> ('d, 'w, unit) lifecycle_io" where
  "admit_all so dv fs au peer c [] = io_of (Ok ())"
| "admit_all so dv fs au peer c (identity # identities) =
     io_seq (admit so dv fs au peer c identity) (admit_all so dv fs au peer c identities)"

definition removed_paths :: "device_identity list \<Rightarrow> string \<Rightarrow> 'd lifecycle \<Rightarrow> string list" where
  "removed_paths candidates seat l = map fst (filter (\<lambda>(_, identity, _). identity \<notin> set candidates \<or> di_seat identity \<noteq> seat)
     (lc_proxies l))"

definition reconcile ::
  "('c, 'w) stream \<Rightarrow> ('d, 'w) devices \<Rightarrow> ('d, 'w) filesystem \<Rightarrow> ('d, 'w) session_authority \<Rightarrow> peer_identity \<Rightarrow> 'c \<Rightarrow>
   ('d, 'w, unit) lifecycle_io" where
  "reconcile so dv fs au peer c = io_bind (px_io (au_verify au peer)) (\<lambda>evidence.
     if \<not> permits evidence peer then io_seq (clear_proxies dv)
       (io_of (Err (PermissionDenied ''strict session authorization unavailable'')))
     else io_bind (px_io (discover_keyboards dv fs)) (\<lambda>candidates.
       px_with (\<lambda>l. io_seq (retire_paths so dv c (removed_paths candidates (sp_seat evidence) l))
         (admit_all so dv fs au peer c (filter (\<lambda>identity. di_seat identity = sp_seat evidence) candidates)))))"

fun pump_all ::
  "('c, 'w) stream \<Rightarrow> ('d, 'w) devices \<Rightarrow> ('d, 'w) session_authority \<Rightarrow> 'c \<Rightarrow>
   (string \<times> device_identity \<times> 'd device_proxy) list \<Rightarrow> 'w \<Rightarrow>
   ((unit, io_error) result \<times> (string \<times> device_identity \<times> 'd device_proxy) list \<times> 'w) option" where
  "pump_all so dv au c [] w = Some (Ok (), [], w)"
| "pump_all so dv au c ((path, identity, p) # rest) w = (case pump so dv au c (p, w) of
      None \<Rightarrow> None
    | Some (Err e, p, w) \<Rightarrow> Some (Err e, (path, identity, p) # rest, w)
    | Some (Ok _, p, w) \<Rightarrow> map_option (\<lambda>(r, rest, w). (r, (path, identity, p) # rest, w)) (pump_all so dv au c rest w))"

definition pump_proxies ::
  "('c, 'w) stream \<Rightarrow> ('d, 'w) devices \<Rightarrow> ('d, 'w) session_authority \<Rightarrow> 'c \<Rightarrow> ('d, 'w, unit) lifecycle_io" where
  "pump_proxies so dv au c = (\<lambda>(l, w).
     map_option (\<lambda>(r, ps, w). (r, l\<lparr>lc_proxies := ps\<rparr>, w)) (pump_all so dv au c (lc_proxies l) w))"

definition lifecycle_step ::
  "('c, 'w) stream \<Rightarrow> ('d, 'w) devices \<Rightarrow> ('d, 'w) filesystem \<Rightarrow> ('d, 'w) session_authority \<Rightarrow> 'c \<Rightarrow>
   ('d, 'w, unit) lifecycle_io" where
  "lifecycle_step so dv fs au c = or_else
     (io_bind (px_io (peer_identity_of so c)) (\<lambda>peer.
      io_seq (reconcile so dv fs au peer c) (pump_proxies so dv au c)))
     (clear_proxies dv)"

definition verify_broker_directory :: "('d, 'w) filesystem \<Rightarrow> string \<Rightarrow> ('w, unit) io" where
  "verify_broker_directory fs path = io_bind (io_sys (fs_symlink_metadata fs path)) (\<lambda>metadata.
     io_ensure (\<not> (\<not> nd_is_dir metadata \<or> untrusted metadata))
       (PermissionDenied ''broker socket directory must be root-owned and non-writable''))"

section \<open>The entry point\<close>

text \<open>\<^verbatim>\<open>i32::from_str\<close>, with the texts of its errors.\<close>

definition in_i32 :: "int \<Rightarrow> bool" where
  "in_i32 n \<longleftrightarrow> - 2147483648 \<le> n \<and> n \<le> 2147483647"

fun parse_signed :: "bool \<Rightarrow> int \<Rightarrow> string \<Rightarrow> (int, string) result" where
  "parse_signed negative acc [] = Ok acc"
| "parse_signed negative acc (c # cs) = (case digit_value 10 c of
      None \<Rightarrow> Err ''invalid digit found in string''
    | Some d \<Rightarrow> let n = (if negative then acc * 10 - int d else acc * 10 + int d) in
        if \<not> in_i32 (acc * 10) \<or> \<not> in_i32 n
        then Err (if negative then ''number too small to fit in target type'' else ''number too large to fit in target type'')
        else parse_signed negative n cs)"

definition parse_i32 :: "string \<Rightarrow> (int, string) result" where
  "parse_i32 s =
     (if s = [] then Err ''cannot parse integer from empty string''
      else if s = ''+'' \<or> s = ''-'' then Err ''invalid digit found in string''
      else if hd s = CHR ''+'' then parse_signed False 0 (tl s)
      else if hd s = CHR ''-'' then parse_signed True 0 (tl s)
      else parse_signed False 0 s)"

record ('c, 'w) listening =
  ls_duplicate :: "int \<Rightarrow> 'w \<Rightarrow> (int, errno) result \<times> 'w"
  ls_accept_conn :: "int \<Rightarrow> 'w \<Rightarrow> (bool, errno) result \<times> 'w"
  ls_local_addr :: "int \<Rightarrow> 'w \<Rightarrow> (unit, errno) result \<times> 'w"
  ls_accept :: "int \<Rightarrow> 'w \<Rightarrow> ('c, errno) result \<times> 'w"
  ls_hang_up :: "'c \<Rightarrow> 'w \<Rightarrow> 'w"
  ls_close :: "int \<Rightarrow> 'w \<Rightarrow> 'w"
  ls_sleep :: "duration \<Rightarrow> 'w \<Rightarrow> 'w"

text \<open>One client, until a step fails; then the proxies are dropped.\<close>

partial_function (option) serve_client ::
  "('c, 'w) stream \<Rightarrow> ('d, 'w) devices \<Rightarrow> ('d, 'w) filesystem \<Rightarrow> ('d, 'w) session_authority \<Rightarrow> ('c, 'w) listening \<Rightarrow> 'c \<Rightarrow>
   'd lifecycle \<Rightarrow> 'w \<Rightarrow> 'w option" where
  "serve_client so dv fs au ls c l w = (case lifecycle_step so dv fs au c (l, w) of
      None \<Rightarrow> None
    | Some (Ok _, l, w) \<Rightarrow> serve_client so dv fs au ls c l (ls_sleep ls (from_millis 25) w)
    | Some (Err _, l, w) \<Rightarrow> map_option (\<lambda>(_, _, w). w) (clear_proxies dv (l, w)))"

definition authorized :: "peer_identity \<Rightarrow> (session_proof, io_error) result \<Rightarrow> bool" where
  "authorized peer outcome = (case outcome of Ok evidence \<Rightarrow> permits evidence peer | Err _ \<Rightarrow> False)"

partial_function (option) serve_clients ::
  "('c, 'w) stream \<Rightarrow> ('d, 'w) devices \<Rightarrow> ('d, 'w) filesystem \<Rightarrow> ('d, 'w) session_authority \<Rightarrow> ('c, 'w) listening \<Rightarrow> int \<Rightarrow>
   ('w, unit) io" where
  "serve_clients so dv fs au ls listener w = (case ls_accept ls listener w of
      (Err n, w) \<Rightarrow> Some (Err (OsError n), w)
    | (Ok c, w) \<Rightarrow> (case peer_identity_of so c w of
          None \<Rightarrow> None
        | Some (Err e, w) \<Rightarrow> Some (Err e, ls_hang_up ls c w)
        | Some (Ok peer, w) \<Rightarrow> (case au_verify au peer w of
              None \<Rightarrow> None
            | Some (outcome, w) \<Rightarrow>
                if authorized peer outcome
                then (case serve_client so dv fs au ls c lifecycle_default w of
                    None \<Rightarrow> None
                  | Some w \<Rightarrow> serve_clients so dv fs au ls listener (ls_hang_up ls c w))
                else serve_clients so dv fs au ls listener (ls_hang_up ls c w))))"

definition broker_serve ::
  "('c, 'w) stream \<Rightarrow> ('d, 'w) devices \<Rightarrow> ('d, 'w) filesystem \<Rightarrow> 'w login_bus \<Rightarrow> ('c, 'w) listening \<Rightarrow> 32 word \<Rightarrow>
   string list \<Rightarrow> ('w, unit) io" where
  "broker_serve so dv fs bus ls euid arguments =
     io_seq (io_ensure (euid = 0) (PermissionDenied ''broker requires narrowly privileged launcher''))
     (if arguments = [''--check''] then io_seq (io_bus (lb_connect bus)) (io_of (Err (PermissionDenied
        ''system bus reachable; strict lock/device ownership authority unqualified; no devices opened'')))
      else io_seq (io_ensure (\<not> (length arguments \<noteq> 2 \<or> hd arguments \<noteq> ''--listen-fd'')) (OtherError
        ''usage: sledge-linux-broker --listen-fd FD (trusted pre-bound Unix listener; strict lock authority still required)''))
      (io_bind (io_of (case parse_i32 (arguments ! 1) of Ok fd \<Rightarrow> Ok fd | Err e \<Rightarrow> Err (OtherError e))) (\<lambda>fd.
      io_seq (io_ensure (\<not> fd < 3) (OtherError ''listener must not be a standard stream''))
      (io_bind (io_sys (ls_duplicate ls fd)) (\<lambda>listener w. map_option (\<lambda>(r, w). (r, ls_close ls listener w))
        (io_bind (io_sys (ls_accept_conn ls listener)) (\<lambda>listening.
         io_seq (io_ensure listening (OtherError ''fd is not a listening socket''))
         (io_seq (io_sys (ls_local_addr ls listener))
         (io_seq (io_bus (lb_connect bus))
         (serve_clients so dv fs (logind_authority bus) ls listener)))) w))))))"

section \<open>Grabs belong to live proxies\<close>

text \<open>Actions after which no more is grabbed than before.\<close>

named_theorems shrinks_intros
  \<open>actions built from actions that grab nothing do not\<close>

definition shrinks :: "('w \<Rightarrow> 'd set) \<Rightarrow> ('w, 'a) io \<Rightarrow> bool" where
  "shrinks grabs m \<longleftrightarrow> (\<forall>w r w'. m w = Some (r, w') \<longrightarrow> grabs w' \<subseteq> grabs w)"

lemma shrinksD: "shrinks grabs m \<Longrightarrow> m w = Some (r, w') \<Longrightarrow> grabs w' \<subseteq> grabs w"
  unfolding shrinks_def by blast

lemma keeps_shrinks: "keeps grabs m \<Longrightarrow> shrinks grabs m"
  by (simp add: keeps_def shrinks_def)

lemma keeps_utf8: "keeps obs (io_utf8 bytes e)"
  by (simp add: io_utf8_def keeps_of)

lemmas shrinks_plain [shrinks_intros] =
  keeps_of [THEN keeps_shrinks] keeps_ensure [THEN keeps_shrinks] keeps_some [THEN keeps_shrinks]
  keeps_utf8 [THEN keeps_shrinks] keeps_sys [THEN keeps_shrinks] keeps_total [THEN keeps_shrinks]

lemma shrinks_bind [shrinks_intros]:
  assumes "shrinks grabs m" and "\<And>a. shrinks grabs (f a)"
  shows "shrinks grabs (io_bind m f)"
  unfolding shrinks_def
proof (intro allI impI)
  fix w r w'
  assume run: "io_bind m f w = Some (r, w')"
  then obtain r1 w1 where m: "m w = Some (r1, w1)" by (auto simp: io_bind_def split: option.splits)
  have "grabs w' \<subseteq> grabs w1"
    using run m shrinksD [OF assms(2)] by (cases r1) (auto simp: io_bind_def)
  with shrinksD [OF assms(1) m] show "grabs w' \<subseteq> grabs w" by blast
qed

lemma shrinks_seq [shrinks_intros]: "shrinks grabs m \<Longrightarrow> shrinks grabs f \<Longrightarrow> shrinks grabs (io_seq m f)"
  by (simp add: io_seq_def shrinks_bind)

lemma shrinks_or_else [shrinks_intros]:
  assumes "shrinks grabs m" and "shrinks grabs f"
  shows "shrinks grabs (or_else m f)"
  unfolding shrinks_def
proof (intro allI impI)
  fix w r w'
  assume run: "or_else m f w = Some (r, w')"
  then obtain r1 w1 where m: "m w = Some (r1, w1)" by (auto simp: or_else_def split: option.splits)
  have "grabs w' \<subseteq> grabs w1"
    using run m shrinksD [OF assms(2)] by (cases r1) (auto simp: or_else_def)
  with shrinksD [OF assms(1) m] show "grabs w' \<subseteq> grabs w" by blast
qed

lemma close_shrinks: "grab_laws grabs dv \<Longrightarrow> grabs (dv_close dv d w) \<subseteq> grabs w - {d}"
  by (simp add: grab_laws_def)

lemma shrinks_closing [shrinks_intros]:
  assumes "grab_laws grabs dv"
  shows "shrinks grabs (closing dv d)" "shrinks grabs m \<Longrightarrow> shrinks grabs (finally_close dv d m)"
  using close_shrinks [OF assms] by (fastforce simp: shrinks_def closing_def io_total_def finally_close_def)+

lemma shrinks_attempt [shrinks_intros]: "shrinks grabs m \<Longrightarrow> shrinks grabs (io_attempt m)"
  by (fastforce simp: shrinks_def io_attempt_def)

text \<open>The calls of the file system grab nothing.\<close>

definition plain_files :: "('w \<Rightarrow> 'o) \<Rightarrow> ('d, 'w) filesystem \<Rightarrow> bool" where
  "plain_files obs fs \<longleftrightarrow>
     (\<forall>p. unaffected obs (fs_read_dir fs p)) \<and> (\<forall>p. unaffected obs (fs_symlink_metadata fs p)) \<and>
     (\<forall>p. unaffected obs (fs_open_nofollow fs p)) \<and> (\<forall>p. unaffected obs (fs_open_nonblock fs p)) \<and>
     (\<forall>d. unaffected obs (fs_metadata fs d)) \<and> (\<forall>d n. unaffected obs (fs_read_limited fs d n))"

lemma discover_shrinks:
  assumes "plain_files grabs fs" and "grab_laws grabs dv"
  shows "shrinks grabs (discover_keyboards dv fs)"
proof -
  note files = assms(1) [unfolded plain_files_def]
  have seat: "shrinks grabs (seat_for dv fs rdev)" for rdev
    unfolding seat_for_def Let_def by (intro shrinks_intros assms(2)) (use files in simp_all)
  have "shrinks grabs (discover_entries dv fs entries devices)" for entries devices
  proof (induction entries arbitrary: devices)
    case (Cons entry entries)
    then show ?case
      unfolding discover_entries.simps Let_def using files by (auto intro!: shrinks_intros seat)
  qed (simp add: shrinks_plain)
  then show ?thesis
    unfolding discover_keyboards_def using files by (auto intro!: shrinks_intros)
qed

lemma from_fd_shrinks:
  assumes "plain_calls grabs so dv au" and "grab_laws grabs dv"
  shows "shrinks grabs (from_authorized_fd dv au fd generation peer)"
  unfolding from_authorized_fd_def
  by (intro shrinks_intros assms(2) plain_keeps [OF assms(1), THEN keeps_shrinks] keeps_shrinks [of _ "au_verify_device au fd peer"])
    (use assms in \<open>simp_all add: plain_calls_def grab_laws_def\<close>)

text \<open>A proxy that is dropped gives its grab back, whatever happens on the way.\<close>

lemma drop_releases:
  assumes "grab_laws grabs dv" and "grabs w \<subseteq> insert (dp_input p) G" and "drop_proxy dv p w = Some (r, w')"
  shows "grabs w' \<subseteq> G"
proof -
  obtain rb p1 w1 where b: "bypass dv (p, w) = Some (rb, p1, w1)"
    and w': "w' = dv_close dv (dp_output p1) (dv_close dv (dp_input p1) w1)"
    using assms(3) by (auto simp: drop_proxy_def)
  have "owns_grab G (dp_input p, dp_output p) p1 (grabs w1)"
    by (rule maintains_anyD [OF bypass_owns_grab [OF assms(1)] _ b]) (simp add: owns_grab_def assms(2))
  then have "grabs w1 \<subseteq> insert (dp_input p1) G" unfolding owns_grab_def by blast
  with close_shrinks [OF assms(1), of "dp_input p1" w1]
    close_shrinks [OF assms(1), of "dp_output p1" "dv_close dv (dp_input p1) w1"] w'
  show ?thesis by blast
qed

lemma then_drop_releases:
  assumes "grab_laws grabs dv" and "\<And>io. grab_inv grabs G io m"
    and "grabs w \<subseteq> insert (dp_input p) G" and "then_drop dv m p w = Some (r, w')"
  shows "grabs w' \<subseteq> G"
proof -
  obtain r1 p1 w1 rd where m: "m (p, w) = Some (r1, p1, w1)" and d: "drop_proxy dv p1 w1 = Some (rd, w')"
    using assms(4) by (auto simp: then_drop_def split: option.splits)
  have "owns_grab G (dp_input p, dp_output p) p1 (grabs w1)"
    by (rule maintains_anyD [OF assms(2) _ m]) (simp add: owns_grab_def assms(3))
  then show ?thesis
    unfolding owns_grab_def by (intro drop_releases [OF assms(1) _ d]) blast
qed

lemma drop_all_releases:
  assumes "grab_laws grabs dv"
  shows "grabs w \<subseteq> dp_input ` set ps \<union> G \<Longrightarrow> drop_all dv ps w = Some (r, w') \<Longrightarrow> grabs w' \<subseteq> G"
proof (induction ps arbitrary: w)
  case (Cons p ps)
  from Cons.prems(2) obtain rd w1 where d: "drop_proxy dv p w = Some (rd, w1)" and ok: "is_ok rd"
    and rest: "drop_all dv ps w1 = Some (r, w')"
    by (auto simp: io_seq_def io_bind_def drop_proxy_def split: option.splits)
  have "grabs w1 \<subseteq> dp_input ` set ps \<union> G"
    by (rule drop_releases [OF assms _ d]) (use Cons.prems(1) in auto)
  from Cons.IH [OF this rest] show ?case .
qed (auto)

definition inputs_of :: "'d lifecycle \<Rightarrow> 'd set" where
  "inputs_of l = dp_input ` set (proxies_of l)"

text \<open>Every grabbed descriptor is the input of a live proxy.\<close>

definition covered :: "('w \<Rightarrow> 'd set) \<Rightarrow> 'd lifecycle \<times> 'w \<Rightarrow> bool" where
  "covered grabs = (\<lambda>(l, w). hm_inv (lc_proxies l) \<and> grabs w \<subseteq> inputs_of l)"

named_theorems stable_intros
  \<open>actions built from actions that keep an invariant do\<close>

definition stable :: "('s \<Rightarrow> bool) \<Rightarrow> ('s, 'a) io \<Rightarrow> bool" where
  "stable I m \<longleftrightarrow> (\<forall>s r s'. I s \<longrightarrow> m s = Some (r, s') \<longrightarrow> I s')"

lemma stableD: "stable I m \<Longrightarrow> I s \<Longrightarrow> m s = Some (r, s') \<Longrightarrow> I s'"
  unfolding stable_def by blast

lemma stableI:
  assumes "\<And>l w r l' w'. I (l, w) \<Longrightarrow> m (l, w) = Some (r, l', w') \<Longrightarrow> I (l', w')"
  shows "stable I m"
  using assms unfolding stable_def by auto

lemma stable_of [stable_intros]: "stable I (io_of r)"
  by (simp add: stable_def)

lemma stable_bind [stable_intros]:
  assumes "stable I m" and "\<And>a. stable I (f a)"
  shows "stable I (io_bind m f)"
  unfolding stable_def
proof (intro allI impI)
  fix s r s'
  assume I: "I s" and run: "io_bind m f s = Some (r, s')"
  then obtain r1 s1 where m: "m s = Some (r1, s1)" by (auto simp: io_bind_def split: option.splits)
  with run stableD [OF assms(1) I m] stableD [OF assms(2)] show "I s'"
    by (cases r1) (auto simp: io_bind_def)
qed

lemma stable_seq [stable_intros]: "stable I m \<Longrightarrow> stable I f \<Longrightarrow> stable I (io_seq m f)"
  by (simp add: io_seq_def stable_bind)

lemma stable_with [stable_intros]: "(\<And>l. stable I (f l)) \<Longrightarrow> stable I (px_with f)"
  by (force simp: stable_def px_with_def)

lemma stable_if [stable_intros]: "stable I m \<Longrightarrow> stable I m' \<Longrightarrow> stable I (if c then m else m')"
  by simp

lemma covered_io [stable_intros]: "shrinks grabs m \<Longrightarrow> stable (covered grabs) (px_io m)"
  by (fastforce simp: stable_def px_io_def covered_def shrinks_def)

lemma clear_releases:
  assumes "grab_laws grabs dv" and "covered grabs (l, w)" and "clear_proxies dv (l, w) = Some (r, l', w')"
  shows "lc_proxies l' = [] \<and> grabs w' = {} \<and> lc_generation l' = lc_generation l"
proof -
  from assms(3) have l': "l' = l\<lparr>lc_proxies := []\<rparr>" and d: "\<exists>rd. drop_all dv (proxies_of l) w = Some (rd, w')"
    by (auto simp: clear_proxies_def px_with_def px_set_def px_io_def io_seq_def io_bind_def)
  from d obtain rd where "drop_all dv (proxies_of l) w = Some (rd, w')" by blast
  from drop_all_releases [OF assms(1) _ this, of "{}"] assms(2) l' show ?thesis
    by (simp add: covered_def inputs_of_def)
qed

lemma inputs_remove:
  assumes "hm_inv ps" and "hm_get ps path = Some (identity, p)"
  shows "dp_input ` set (map (snd \<circ> snd) ps) \<subseteq> insert (dp_input p) (dp_input ` set (map (snd \<circ> snd) (hm_remove path ps)))"
proof
  fix d assume "d \<in> dp_input ` set (map (snd \<circ> snd) ps)"
  then obtain k i q where q: "(k, i, q) \<in> set ps" "d = dp_input q" by auto
  show "d \<in> insert (dp_input p) (dp_input ` set (map (snd \<circ> snd) (hm_remove path ps)))"
  proof (cases "k = path")
    case True
    with q assms have "q = p" by (auto simp: hm_inv_def hm_get_def map_of_eq_Some_iff dest: map_of_is_SomeI)
    with q show ?thesis by simp
  next
    case False
    with q have "(k, i, q) \<in> set (hm_remove path ps)"
      by (auto simp: hm_remove_def AList.delete_eq)
    with q show ?thesis by force
  qed
qed

lemma retire_covered:
  assumes "plain_calls grabs so dv au" and "grab_laws grabs dv"
  shows "stable (covered grabs) (retire_paths so dv c paths)"
proof (induction paths)
  case (Cons path paths)
  have "stable (covered grabs) (px_with (\<lambda>l. case hm_get (lc_proxies l) path of
         None \<Rightarrow> io_of (Ok ())
       | Some (_, p) \<Rightarrow> io_seq (px_set (\<lambda>l. l\<lparr>lc_proxies := hm_remove path (lc_proxies l)\<rparr>))
           (px_io (then_drop dv (io_seq (bypass dv) (retire_client so c)) p))))" (is "stable _ ?m")
  proof (rule stableI)
    fix l w r l' w'
    assume c: "covered grabs (l, w)" and run: "?m (l, w) = Some (r, l', w')"
    show "covered grabs (l', w')"
    proof (cases "hm_get (lc_proxies l) path")
      case None
      with c run show ?thesis by (simp add: px_with_def)
    next
      case (Some ip)
      obtain identity p where p: "ip = (identity, p)" by fastforce
      let ?l = "l\<lparr>lc_proxies := hm_remove path (lc_proxies l)\<rparr>"
      have d: "then_drop dv (io_seq (bypass dv) (retire_client so c)) p w = Some (r, w')" and l': "l' = ?l"
        using run Some p by (auto simp: px_with_def px_set_def px_io_def io_seq_def io_bind_def)
      have inv: "grab_inv grabs G io (io_seq (bypass dv) (retire_client so c))" for G io
        unfolding retire_client_def
        by (intro maintains_seq bypass_owns_grab [OF assms(2)] control_maintains [OF assms(1)]) simp_all
      have "inputs_of l \<subseteq> insert (dp_input p) (inputs_of ?l)"
        using c inputs_remove [of "lc_proxies l" path identity p] Some p
        by (simp add: covered_def inputs_of_def proxies_of_def)
      with c have "grabs w \<subseteq> insert (dp_input p) (inputs_of ?l)"
        unfolding covered_def prod.case by blast
      from then_drop_releases [OF assms(2) inv this d] c l' show ?thesis
        by (auto simp: covered_def)
    qed
  qed
  with Cons show ?case by (simp add: stable_seq)
qed (simp add: stable_of)

lemma bt_insert_set: "hm_get m k = None \<Longrightarrow> set (bt_insert k v m) = insert (k, v) (set m)"
  by (induction k v m rule: bt_insert.induct) (auto simp: hm_get_def split: if_splits)

lemma bt_insert_inv: "hm_get m k = None \<Longrightarrow> hm_inv m \<Longrightarrow> hm_inv (bt_insert k v m)"
proof (induction k v m rule: bt_insert.induct)
  case (2 k v k' v' m)
  then show ?case
    using bt_insert_set [of m k v] by (auto simp: hm_inv_def hm_get_def map_of_eq_None_iff split: if_splits)
qed (simp add: hm_inv_def)

lemma start_grabs:
  assumes "plain_calls grabs so dv au" and "grab_laws grabs dv" and "start_proxy so dv au peer c p w = Some (r, w')"
    and "grabs w \<subseteq> G"
  shows "case r of Ok p' \<Rightarrow> grabs w' \<subseteq> insert (dp_input p') G | Err _ \<Rightarrow> grabs w' \<subseteq> G"
proof -
  let ?m = "io_seq (activate dv au peer) (reset_client so c)"
  obtain r1 p1 w1 where m: "?m (p, w) = Some (r1, p1, w1)"
    using assms(3) by (auto simp: start_proxy_def split: option.splits)
  have inv: "grab_inv grabs G (dp_input p, dp_output p) ?m"
    unfolding reset_client_def
    by (intro maintains_seq activate_owns_grab [OF assms(1,2)] control_maintains [OF assms(1)]) simp_all
  have "owns_grab G (dp_input p, dp_output p) p1 (grabs w1)"
    by (rule maintains_anyD [OF inv _ m]) (use assms(4) in \<open>auto simp: owns_grab_def\<close>)
  then have g: "grabs w1 \<subseteq> insert (dp_input p1) G"
    unfolding owns_grab_def by blast
  show ?thesis
  proof (cases r1)
    case (Ok u)
    with assms(3) m g show ?thesis by (auto simp: start_proxy_def)
  next
    case (Err e)
    with assms(3) m obtain rd where "drop_proxy dv p1 w1 = Some (rd, w')" "r = Err e"
      by (auto simp: start_proxy_def)
    with drop_releases [OF assms(2) g] show ?thesis by simp
  qed
qed

text \<open>An action that leads from one invariant to another.\<close>

definition leads :: "('s \<Rightarrow> bool) \<Rightarrow> ('s \<Rightarrow> bool) \<Rightarrow> ('s, 'a) io \<Rightarrow> bool" where
  "leads I J m \<longleftrightarrow> (\<forall>s r s'. I s \<longrightarrow> m s = Some (r, s') \<longrightarrow> J s')"

lemma leadsD: "leads I J m \<Longrightarrow> I s \<Longrightarrow> m s = Some (r, s') \<Longrightarrow> J s'"
  unfolding leads_def by blast

lemma leadsI:
  assumes "\<And>l w r l' w'. I (l, w) \<Longrightarrow> m (l, w) = Some (r, l', w') \<Longrightarrow> J (l', w')"
  shows "leads I J m"
  using assms unfolding leads_def by auto

lemma leads_bind:
  assumes "stable I m" and "\<And>s. I s \<Longrightarrow> J s" and "\<And>a. leads I J (f a)"
  shows "leads I J (io_bind m f)"
  unfolding leads_def
proof (intro allI impI)
  fix s r s'
  assume I: "I s" and run: "io_bind m f s = Some (r, s')"
  then obtain r1 s1 where m: "m s = Some (r1, s1)" by (auto simp: io_bind_def split: option.splits)
  with run stableD [OF assms(1) I m] leadsD [OF assms(3)] assms(2) show "J s'"
    by (cases r1) (auto simp: io_bind_def)
qed

lemma leads_seq: "stable I m \<Longrightarrow> (\<And>s. I s \<Longrightarrow> J s) \<Longrightarrow> leads I J f \<Longrightarrow> leads I J (io_seq m f)"
  by (simp add: io_seq_def leads_bind)

definition vacant :: "('w \<Rightarrow> 'd set) \<Rightarrow> string \<Rightarrow> 'd lifecycle \<times> 'w \<Rightarrow> bool" where
  "vacant grabs path s \<longleftrightarrow> covered grabs s \<and> hm_get (lc_proxies (fst s)) path = None"

lemma vacant_io: "shrinks grabs m \<Longrightarrow> stable (vacant grabs path) (px_io m)"
  by (fastforce simp: stable_def px_io_def vacant_def covered_def shrinks_def)

lemma vacant_generation: "stable (vacant grabs path) (px_set (\<lambda>l. l\<lparr>lc_generation := g\<rparr>))"
  by (auto simp: stable_def px_set_def vacant_def covered_def inputs_of_def proxies_of_def)

lemma start_covered:
  assumes "plain_calls grabs so dv au" and "grab_laws grabs dv"
  shows "leads (vacant grabs path) (covered grabs) (io_bind (px_io (start_proxy so dv au peer c p)) (\<lambda>p.
    px_set (\<lambda>l. l\<lparr>lc_proxies := bt_insert path (identity, p) (lc_proxies l)\<rparr>)))"
proof (rule leadsI)
  fix l w r l' w'
  assume v: "vacant grabs path (l, w)" and run: "io_bind (px_io (start_proxy so dv au peer c p)) (\<lambda>p.
    px_set (\<lambda>l. l\<lparr>lc_proxies := bt_insert path (identity, p) (lc_proxies l)\<rparr>)) (l, w) = Some (r, l', w')"
  then obtain r1 where st: "start_proxy so dv au peer c p w = Some (r1, w')"
    and l': "l' = (case r1 of Ok p \<Rightarrow> l\<lparr>lc_proxies := bt_insert path (identity, p) (lc_proxies l)\<rparr> | Err _ \<Rightarrow> l)"
    by (auto simp: px_io_def px_set_def io_bind_def split: option.splits result.splits)
  have "grabs w \<subseteq> inputs_of l" and none: "hm_get (lc_proxies l) path = None" and inv: "hm_inv (lc_proxies l)"
    using v by (simp_all add: vacant_def covered_def)
  from start_grabs [OF assms st this(1)] l' inv show "covered grabs (l', w')"
    using bt_insert_inv [OF none inv] bt_insert_set [OF none]
    by (cases r1) (auto simp: covered_def inputs_of_def proxies_of_def image_Un)
qed

lemma leads_with: "(\<And>l. leads I J (f l)) \<Longrightarrow> leads I J (px_with f)"
  by (force simp: leads_def px_with_def)

lemma admit_new_covered:
  assumes "plain_calls grabs so dv au" and "grab_laws grabs dv" and "plain_files grabs fs"
  shows "leads (vacant grabs (di_path identity)) (covered grabs) (admit_new so dv fs au peer c identity)"
  unfolding admit_new_def
  by (intro leads_with leads_bind leads_seq start_covered [OF assms(1,2)] vacant_io vacant_generation
      from_fd_shrinks [OF assms(1,2)] shrinks_intros assms(2))
    (use assms(3) in \<open>simp_all add: plain_files_def vacant_def\<close>)

lemma admit_covered:
  assumes "plain_calls grabs so dv au" and "grab_laws grabs dv" and "plain_files grabs fs"
  shows "stable (covered grabs) (admit so dv fs au peer c identity)"
proof (rule stableI)
  fix l w r l' w'
  assume cov: "covered grabs (l, w)" and run: "admit so dv fs au peer c identity (l, w) = Some (r, l', w')"
  show "covered grabs (l', w')"
  proof (cases "hm_get (lc_proxies l) (di_path identity)")
    case None
    with run have "admit_new so dv fs au peer c identity (l, w) = Some (r, l', w')"
      by (simp add: admit_def px_with_def)
    from leadsD [OF admit_new_covered [OF assms], OF _ this] cov None show ?thesis
      by (simp add: vacant_def)
  qed (use cov run in \<open>auto simp: admit_def px_with_def\<close>)
qed

lemma pump_all_covered:
  assumes "plain_calls grabs so dv au" and "grab_laws grabs dv"
  shows "grabs w \<subseteq> dp_input ` set (map (snd \<circ> snd) ps) \<union> G \<Longrightarrow> pump_all so dv au c ps w = Some (r, ps', w') \<Longrightarrow>
    grabs w' \<subseteq> dp_input ` set (map (snd \<circ> snd) ps') \<union> G \<and> map fst ps' = map fst ps"
proof (induction ps arbitrary: w G ps')
  case (Cons x ps)
  obtain path identity p where x: "x = (path, identity, p)" by (cases x)
  let ?G = "dp_input ` set (map (snd \<circ> snd) ps) \<union> G"
  obtain r1 p1 w1 where m: "pump so dv au c (p, w) = Some (r1, p1, w1)"
    using Cons.prems(2) x by (auto split: option.splits)
  have "owns_grab ?G (dp_input p, dp_output p) p1 (grabs w1)"
    by (rule maintains_anyD [OF pump_owns_grab [OF assms] _ m]) (use Cons.prems(1) x in \<open>auto simp: owns_grab_def\<close>)
  then have g: "grabs w1 \<subseteq> insert (dp_input p1) ?G"
    unfolding owns_grab_def by blast
  show ?case
  proof (cases r1)
    case (Ok u)
    with Cons.prems(2) x m obtain ps1 where rest: "pump_all so dv au c ps w1 = Some (r, ps1, w')" "ps' = (path, identity, p1) # ps1"
      by auto
    from Cons.IH [OF _ rest(1), of "insert (dp_input p1) G"] g rest(2) x show ?thesis
      by auto
  next
    case (Err e)
    with Cons.prems(2) x m g show ?thesis by auto
  qed
qed simp

lemma clear_covered: "grab_laws grabs dv \<Longrightarrow> stable (covered grabs) (clear_proxies dv)"
  by (rule stableI) (auto simp: covered_def inputs_of_def hm_inv_def dest: clear_releases)

lemma admit_all_covered:
  assumes "plain_calls grabs so dv au" and "grab_laws grabs dv" and "plain_files grabs fs"
  shows "stable (covered grabs) (admit_all so dv fs au peer c identities)"
  by (induction identities) (simp_all add: stable_of stable_seq admit_covered [OF assms])

lemma reconcile_covered:
  assumes "plain_calls grabs so dv au" and "grab_laws grabs dv" and "plain_files grabs fs"
  shows "stable (covered grabs) (reconcile so dv fs au peer c)"
  unfolding reconcile_def
  by (intro stable_intros clear_covered [OF assms(2)] retire_covered [OF assms(1,2)] admit_all_covered [OF assms]
      discover_shrinks [OF assms(3,2)] keeps_shrinks)
    (use assms(1) in \<open>simp add: plain_calls_def\<close>)

lemma pump_proxies_covered:
  assumes "plain_calls grabs so dv au" and "grab_laws grabs dv"
  shows "stable (covered grabs) (pump_proxies so dv au c)"
proof (rule stableI)
  fix l w r l' w'
  assume cov: "covered grabs (l, w)" and "pump_proxies so dv au c (l, w) = Some (r, l', w')"
  then obtain ps where ps: "pump_all so dv au c (lc_proxies l) w = Some (r, ps, w')" "l' = l\<lparr>lc_proxies := ps\<rparr>"
    by (auto simp: pump_proxies_def)
  from pump_all_covered [OF assms _ ps(1), of "{}"] cov ps(2) show "covered grabs (l', w')"
    by (auto simp: covered_def inputs_of_def proxies_of_def hm_inv_def)
qed

section \<open>Denial\<close>

text \<open>Under an authority that never permits, neither the devices nor the file system matter.\<close>

lemma clear_empty: "lc_proxies l = [] \<Longrightarrow> clear_proxies dv (l, w) = Some (Ok (), l, w)"
  by (simp add: clear_proxies_def px_with_def px_set_def px_io_def proxies_of_def io_seq_def io_bind_def io_of_def)

lemma denied_reconcile:
  assumes "denying au" and "lc_proxies l = []"
  shows "reconcile so dv fs au peer c (l, w) = (case au_verify au peer w of
      None \<Rightarrow> None
    | Some (Err e, w) \<Rightarrow> Some (Err e, l, w)
    | Some (Ok _, w) \<Rightarrow> Some (Err (PermissionDenied ''strict session authorization unavailable''), l, w))"
  using assms
  by (auto simp: reconcile_def px_io_def io_bind_def io_seq_def io_of_def clear_empty denying_def
      split: option.splits result.splits)

lemma denied_step:
  assumes "denying au" and "lc_proxies l = []"
  shows "lifecycle_step so dv fs au c (l, w) = lifecycle_step so dv' fs' au c (l, w)"
  unfolding lifecycle_step_def
  by (auto simp: or_else_def px_io_def io_bind_def io_seq_def denied_reconcile [OF assms] clear_empty [OF assms(2)]
      split: option.splits result.splits)

lemma denied_unauthorized: "denying au \<Longrightarrow> au_verify au peer w = Some (outcome, w') \<Longrightarrow> \<not> authorized peer outcome"
  unfolding authorized_def denying_def by (cases outcome) (simp_all, blast)

lemma denied_clients:
  assumes "denying au" and "serve_clients so dv fs au ls listener w = Some y"
  shows "serve_clients so dv' fs' au ls listener w = Some y"
proof -
  have "denying au \<longrightarrow> serve_clients so dv' fs' au ls listener w = Some y"
    if "serve_clients so dv fs au ls listener w = Some y" for y
  proof (rule serve_clients.raw_induct [where P = "\<lambda>so dv fs au ls listener w y.
        denying au \<longrightarrow> serve_clients so dv' fs' au ls listener w = Some y", OF _ that], rule impI, goal_cases)
    case (1 f so dv fs au ls listener w y)
    note refused = denied_unauthorized [OF 1(3)]
    from 1 show ?case
      by (cases y, subst serve_clients.simps) (auto dest: refused split: prod.splits result.splits option.splits if_splits)
  qed
  with assms show ?thesis by blast
qed

lemma denied_clients_eq:
  assumes "denying au"
  shows "serve_clients so dv fs au ls listener = serve_clients so dv' fs' au ls listener"
proof
  fix w
  show "serve_clients so dv fs au ls listener w = serve_clients so dv' fs' au ls listener w"
    using denied_clients [OF assms, of so dv fs ls listener w _ dv' fs'] denied_clients [OF assms, of so dv' fs' ls listener w _ dv fs]
    by (cases "serve_clients so dv fs au ls listener w"; cases "serve_clients so dv' fs' au ls listener w") auto
qed

section \<open>Properties\<close>

text \<open>C6: A failed step of the broker fails closed. As long as every grabbed keyboard belongs to a live proxy,
  this stays so over reconciling hotplugged keyboards, retiring removed ones, admitting new ones and pumping them all,
  whichever call fails on the way; and after a failed step no proxy is left and nothing is grabbed.\<close>

theorem step_fails_closed:
  assumes "plain_calls grabs so dv au" and "grab_laws grabs dv" and "plain_files grabs fs"
    and "covered grabs (l, w)" and "lifecycle_step so dv fs au c (l, w) = Some (r, l', w')"
  shows "covered grabs (l', w') \<and> (is_ok r \<or> lc_proxies l' = [] \<and> grabs w' = {})"
proof -
  let ?m = "io_bind (px_io (peer_identity_of so c)) (\<lambda>peer. io_seq (reconcile so dv fs au peer c) (pump_proxies so dv au c))"
  have st: "stable (covered grabs) ?m"
    by (intro stable_intros reconcile_covered [OF assms(1-3)] pump_proxies_covered [OF assms(1,2)]
        keeps_shrinks plain_keeps [OF assms(1)])
  obtain r1 l1 w1 where m: "?m (l, w) = Some (r1, l1, w1)"
    using assms(5) by (auto simp: lifecycle_step_def or_else_def split: option.splits)
  have cov: "covered grabs (l1, w1)"
    by (rule stableD [OF st, OF assms(4) m])
  show ?thesis
  proof (cases r1)
    case (Ok u)
    with assms(5) m cov show ?thesis by (auto simp: lifecycle_step_def or_else_def)
  next
    case (Err e)
    with assms(5) m obtain rc where "clear_proxies dv (l1, w1) = Some (rc, l', w')" "r = Err e"
      by (auto simp: lifecycle_step_def or_else_def)
    with clear_releases [OF assms(2) cov] show ?thesis
      by (simp add: covered_def inputs_of_def proxies_of_def hm_inv_def)
  qed
qed

text \<open>A keyboard is captured when the directory of devices can no longer be read. The world is the set of grabbed
  descriptors.\<close>

definition ex_kernel :: "(nat, nat set) devices" where
  "ex_kernel = \<lparr>dv_getfl = (\<lambda>_ w. (Ok 0, w)), dv_setfl = (\<lambda>_ _ w. (Ok (), w)), dv_known_flags = 0,
     dv_from_fd = (\<lambda>_ w. (Err BrokenPipe, w)), dv_key_state = (\<lambda>_ w. (Ok {}, w)), dv_fetch = (\<lambda>_ w. (Ok [], w)),
     dv_poll = (\<lambda>_ _ _ w. (Ok (0, None), w)), dv_build = (\<lambda>_ _ _ w. (Ok 1, w)), dv_grab = (\<lambda>d w. (Ok (), insert d w)),
     dv_ungrab = (\<lambda>d w. (Err BrokenPipe, w)), dv_emit = (\<lambda>d events w. (Err BrokenPipe, w)), dv_close = (\<lambda>d w. w - {d})\<rparr>"

definition ex_files :: "(nat, nat set) filesystem" where
  "ex_files = \<lparr>fs_read_dir = (\<lambda>_ w. (Err (OsError 2), w)), fs_symlink_metadata = (\<lambda>_ w. (Err 2, w)),
     fs_open_nofollow = (\<lambda>_ w. (Err 2, w)), fs_open_nonblock = (\<lambda>_ w. (Err 2, w)), fs_metadata = (\<lambda>_ w. (Err 2, w)),
     fs_read_limited = (\<lambda>_ _ w. (Err 2, w)), fs_major = id, fs_minor = id\<rparr>"

definition ex_lifecycle :: "nat lifecycle" where
  "ex_lifecycle = \<lparr>lc_proxies = [(''/dev/input/event0'', \<lparr>di_path = ''/dev/input/event0'', di_device = 5, di_inode = 90,
     di_rdev = 3392, di_seat = ''seat0''\<rparr>, ex_device_proxy)], lc_generation = 1\<rparr>"

lemma ex_laws: "plain_calls id ex_stream ex_kernel ex_authority" "grab_laws id ex_kernel" "plain_files id ex_files"
  by (auto simp: plain_calls_def grab_laws_def plain_files_def unaffected_def keeps_of ex_stream_def ex_kernel_def
      ex_authority_def ex_files_def)

lemma ex_covered: "covered id (ex_lifecycle, {0})"
  by (simp add: covered_def ex_lifecycle_def inputs_of_def proxies_of_def ex_device_proxy_def hm_inv_def)

lemma ex_step:
  "lifecycle_step ex_stream ex_kernel ex_files ex_authority () (ex_lifecycle, {0}) =
     Some (Err (OsError 2), ex_lifecycle\<lparr>lc_proxies := []\<rparr>, {})"
  by (simp add: lifecycle_step_def or_else_def reconcile_def discover_keyboards_def clear_proxies_def proxies_of_def
      drop_proxy_def bypass_def release_all_def emit_event_def ignoring_def px_eval peer_identity_of_def permits_def
      ex_stream_def ex_kernel_def ex_authority_def ex_files_def ex_lifecycle_def ex_device_proxy_def ex_proxy_def
      key_state_default_def raw_key_def raw_event_default_def)

theorem step_fails_closed_witness:
  "\<exists>l' w'. lifecycle_step ex_stream ex_kernel ex_files ex_authority () (ex_lifecycle, {0}) = Some (Err (OsError 2), l', w') \<and>
     lc_proxies l' = [] \<and> id w' = {}"
  using step_fails_closed [OF ex_laws ex_covered ex_step] ex_step by auto

text \<open>C7: The broker as shipped captures nothing. Its authority is the logind adapter, which never proves that a
  session is unlocked, so what the broker does for any arguments and clients does not depend on the devices and the file
  system at all: it would run the same with any others in their place. The same is true of a step of its lifecycle.\<close>

theorem stock_broker_never_captures:
  "broker_serve so dv fs bus ls euid arguments w = broker_serve so dv' fs' bus ls euid arguments w \<and>
   lifecycle_step so dv fs (logind_authority bus) c (lifecycle_default, w) =
     lifecycle_step so dv' fs' (logind_authority bus) c (lifecycle_default, w)"
  using denied_clients_eq [OF logind_denying, of so dv fs bus ls _ dv' fs'] denied_step [OF logind_denying, of lifecycle_default]
  by (simp add: broker_serve_def lifecycle_default_def)

end
