(* ===== verification/Keymap.thy ===== *)
theory Keymap
  imports Tap_Fsm
begin

text \<open>
  The evdev key table of \<^verbatim>\<open>packages/linux/src/keymap.rs\<close>: physical key numbers and the
  normalized key codes, in both directions, and the modifier flags of a raw key.
\<close>

definition KEYS :: "(16 word \<times> key_code) list" where
  "KEYS = [
   (1, Escape), (2, Digit1), (3, Digit2), (4, Digit3), (5, Digit4), (6, Digit5),
   (7, Digit6), (8, Digit7), (9, Digit8), (10, Digit9), (11, Digit0), (12, Minus),
   (13, Equal), (14, Backspace), (15, Tab), (16, KeyQ), (17, KeyW), (18, KeyE),
   (19, KeyR), (20, KeyT), (21, KeyY), (22, KeyU), (23, KeyI), (24, KeyO),
   (25, KeyP), (26, LeftBracket), (27, RightBracket), (28, Return), (29, LeftCtrl), (30, KeyA),
   (31, KeyS), (32, KeyD), (33, KeyF), (34, KeyG), (35, KeyH), (36, KeyJ),
   (37, KeyK), (38, KeyL), (39, Semicolon), (40, Quote), (41, Backquote), (42, LeftShift),
   (43, Backslash), (44, KeyZ), (45, KeyX), (46, KeyC), (47, KeyV), (48, KeyB),
   (49, KeyN), (50, KeyM), (51, Comma), (52, Period), (53, Slash), (54, RightShift),
   (56, LeftAlt), (57, Space), (58, CapsLock), (59, F1), (60, F2), (61, F3),
   (62, F4), (63, F5), (64, F6), (65, F7), (66, F8), (67, F9),
   (68, F10), (87, F11), (88, F12), (97, RightCtrl), (100, RightAlt), (102, Home),
   (103, ArrowUp), (104, PageUp), (105, ArrowLeft), (106, ArrowRight), (107, End), (108, ArrowDown),
   (109, PageDown), (110, Insert), (111, Delete), (125, LeftCmd), (126, RightCmd), (183, F13),
   (184, F14), (185, F15), (186, F16), (187, F17), (188, F18), (189, F19),
   (190, F20), (191, F21), (192, F22), (193, F23), (194, F24), (464, Fn)]"

definition from_evdev :: "16 word \<Rightarrow> key_code option" where
  "from_evdev raw_code = map_of KEYS raw_code"

definition to_evdev :: "key_code \<Rightarrow> 16 word option" where
  "to_evdev key = map_of (map (\<lambda>(raw, mapped). (mapped, raw)) KEYS) key"

definition evdev_modifier :: "16 word \<Rightarrow> modifiers" where
  "evdev_modifier raw_code =
     (if raw_code = 29 then CTRL OR LEFT_CTRL
      else if raw_code = 97 then CTRL OR RIGHT_CTRL
      else if raw_code = 42 then SHIFT OR LEFT_SHIFT
      else if raw_code = 54 then SHIFT OR RIGHT_SHIFT
      else if raw_code = 56 then ALT OR LEFT_ALT
      else if raw_code = 100 then ALT OR RIGHT_ALT
      else if raw_code = 125 then CMD OR LEFT_CMD
      else if raw_code = 126 then CMD OR RIGHT_CMD
      else if raw_code = 464 then FN
      else mods_empty)"

lemma KEYS_raw_distinct: "distinct (map fst KEYS)"
  by (simp add: KEYS_def)

lemma KEYS_mapped_distinct: "distinct (map snd KEYS)"
  by (simp add: KEYS_def)

lemma to_evdev_Some_iff: "to_evdev key = Some raw \<longleftrightarrow> (raw, key) \<in> set KEYS"
proof -
  have "distinct (map fst (map (\<lambda>(raw, mapped). (mapped, raw)) KEYS))"
    using KEYS_mapped_distinct by (simp add: comp_def case_prod_beta')
  then show ?thesis
    unfolding to_evdev_def by (force simp: map_of_eq_Some_iff)
qed

lemma from_evdev_Some_iff: "from_evdev raw = Some key \<longleftrightarrow> (raw, key) \<in> set KEYS"
  unfolding from_evdev_def by (simp add: KEYS_raw_distinct map_of_eq_Some_iff)

lemma KEYS_total: "key \<in> set (map snd KEYS)"
  by (cases key) (simp_all add: KEYS_def)

lemma KEYS_modifier: "list_all (\<lambda>(raw, key). evdev_modifier raw = (modifier_bit key OR generic_bit key)) KEYS"
  by (simp add: KEYS_def evdev_modifier_def modifier_bit_def generic_bit_def mods_empty_def or.commute)

section \<open>Properties\<close>

text \<open>C22: The evdev table is a bijection onto the key codes: every key code has exactly one raw
  number, and the two lookups are inverse to each other.\<close>

theorem evdev_bijection:
  "(\<exists>!raw. to_evdev key = Some raw) \<and> (from_evdev raw = Some key \<longleftrightarrow> to_evdev key = Some raw)"
proof -
  obtain r where "(r, key) \<in> set KEYS"
    using KEYS_total [of key] by auto
  then have "to_evdev key = Some r"
    by (simp add: to_evdev_Some_iff)
  then show ?thesis
    by (auto simp: from_evdev_Some_iff to_evdev_Some_iff [symmetric])
qed

text \<open>The modifier flags a raw key contributes are those of its key code: the flag of its side
  together with the generic flag, and none for a key that is not a modifier or for caps lock, so
  they are always in lockstep.\<close>

lemma evdev_modifier_matches_key:
  assumes "from_evdev raw = Some key"
  shows "evdev_modifier raw = (modifier_bit key OR generic_bit key) \<and> mods_lockstep (evdev_modifier raw)"
proof -
  have "list_all (\<lambda>(raw, _). mods_lockstep (evdev_modifier raw)) KEYS"
    by (simp add: KEYS_def evdev_modifier_def mods_lockstep_bits modifier_consts mods_empty_def
        bit_or_iff bit_push_bit_iff bit_1_iff)
  with KEYS_modifier assms show ?thesis
    by (auto simp: from_evdev_Some_iff list_all_iff)
qed

end
