(* ===== verification/Transactions.thy ===== *)
theory Transactions
  imports Ownership Keymap Wire
begin

text \<open>
  The transaction state that ties native events of the compositor to the matcher,
  \<^verbatim>\<open>packages/linux/src/hyprland/matcher.rs\<close>, with the delivery reports of
  \<^verbatim>\<open>packages/linux/src/hyprland/mod.rs\<close>. An operation takes the transaction state and the
  matcher it is kept with, and returns both; \<open>None\<close> is a panic of the matcher. The bounded
  source queue is the predicate \<open>admit_source\<close>, asked at most once per proposal.
\<close>

section \<open>Delivery reports\<close>

datatype delivery_report = Acknowledged outcome | UncertainReport

definition report_replacement :: "delivery_report \<Rightarrow> replacement_delivery" where
  "report_replacement report = (case report of
      Acknowledged oc \<Rightarrow> (case oc_result oc of
          Replaced \<Rightarrow> Delivered
        | RejectedOriginalAdmitted \<Rightarrow> RejectedOriginalForwarded
        | TimeoutOriginalAdmitted \<Rightarrow> RejectedOriginalForwarded
        | _ \<Rightarrow> Uncertain)
    | UncertainReport \<Rightarrow> Uncertain)"

section \<open>Keys and modifiers on the wire\<close>

definition native_key :: "32 word \<Rightarrow> key_code option" where
  "native_key key = (if key \<le> 0xFFFF then from_evdev (ucast key) else None)"

definition physical_modifiers :: "32 word \<Rightarrow> modifiers" where
  "physical_modifiers bits =
     fold (\<lambda>(index, key) m. if bits AND push_bit index 1 \<noteq> 0 then m OR evdev_modifier key else m)
       (enumerate 0 [42, 54, 29, 97, 56, 100, 125, 126]) mods_empty"

definition request_side ::
  "modifiers \<Rightarrow> modifiers \<times> modifiers \<times> modifiers \<times> nat \<Rightarrow> 32 word \<Rightarrow> 32 word" where
  "request_side m side bits = (case side of (left, right, generic, offset) \<Rightarrow>
     (let bits = (if mods_contains m left \<or> (mods_contains m generic \<and> \<not> mods_contains m right)
                  then bits OR push_bit offset 1 else bits)
      in if mods_contains m right then bits OR push_bit (offset + 1) 1 else bits))"

definition requested_modifiers :: "modifiers \<Rightarrow> 32 word option" where
  "requested_modifiers m =
     (if mods_contains m FN then None
      else Some (fold (request_side m)
        [(LEFT_SHIFT, RIGHT_SHIFT, SHIFT, 0), (LEFT_CTRL, RIGHT_CTRL, CTRL, 2),
         (LEFT_ALT, RIGHT_ALT, ALT, 4), (LEFT_CMD, RIGHT_CMD, CMD, 6)] 0))"

section \<open>State\<close>

datatype recovery_state = Unbound | AwaitingNativeProof | FreshAdmissionRequired | Ready

record pending_proposal =
  pp_scope :: scope
  pp_token :: replacement_token
  pp_decision :: decision
  pp_key :: "32 word"
  pp_state :: "32 word"
  pp_focus_epoch :: "64 word"

record transactions =
  tx_pending :: "pending_proposal option"
  tx_modifier_tap_release :: bool
  tx_physical_downs :: "(64 word \<times> 32 word) set"
  tx_observation :: "(64 word \<times> 64 word \<times> 64 word \<times> 64 word) option"
  tx_replacement_disabled :: bool
  tx_recovery_nonce :: "64 word option"
  tx_previous_recovery_nonce :: "64 word option"

definition transactions_default :: transactions where
  "transactions_default = \<lparr>tx_pending = None, tx_modifier_tap_release = False, tx_physical_downs = {},
     tx_observation = None, tx_replacement_disabled = False, tx_recovery_nonce = None,
     tx_previous_recovery_nonce = None\<rparr>"

definition set_modifier_tap_release :: "bool \<Rightarrow> transactions \<Rightarrow> transactions" where
  "set_modifier_tap_release enabled t = t\<lparr>tx_modifier_tap_release := enabled\<rparr>"

section \<open>Proposals\<close>

definition observe_physical ::
  "scope \<Rightarrow> native_event \<Rightarrow> transactions \<times> matcher \<Rightarrow> bool \<times> transactions \<times> matcher" where
  "observe_physical scope event tm = (case tm of (t, m) \<Rightarrow>
     (let identity = (sc_nonce scope, sc_lock_epoch scope, ne_focus_epoch event, sc_generation scope);
          m = (if tx_observation t \<noteq> Some identity then disqualify_taps m else m);
          t = t\<lparr>tx_observation := Some identity\<rparr>;
          press = (sc_generation scope, ne_key event);
          downs = tx_physical_downs t
      in if ne_state event = 1 then (press \<notin> downs, t\<lparr>tx_physical_downs := insert press downs\<rparr>, m)
         else if ne_state event = 0 then (press \<in> downs, t\<lparr>tx_physical_downs := downs - {press}\<rparr>, m)
         else (False, t, m)))"

definition normalized_event :: "key_code \<Rightarrow> native_event \<Rightarrow> key_event" where
  "normalized_event key event = key_event key (if ne_state event = 0 then KeyUp else KeyDown)
     (physical_modifiers (ne_modifiers event))"

fun decide :: "(string \<Rightarrow> bool) \<Rightarrow> 32 word \<Rightarrow> verdict \<Rightarrow> decision" where
  "decide admit_source state Pass = PassDecision"
| "decide admit_source state Swallow = (if state = 0 then PassDecision else SwallowDecision)"
| "decide admit_source state (Replace (SendKey key m)) =
     (case (to_evdev key, requested_modifiers m) of
        (Some raw, Some modifiers) \<Rightarrow> ReplaceDecision (ucast raw) modifiers
      | _ \<Rightarrow> PassDecision)"
| "decide admit_source state (Replace (SetInputSource source)) =
     (if admit_source source then SwallowDecision else PassDecision)"

text \<open>The part of a proposal after the guards: the event of a known key is dispatched.\<close>

definition propose_key ::
  "(string \<Rightarrow> bool) \<Rightarrow> scope \<Rightarrow> native_event \<Rightarrow> key_code \<Rightarrow> string option \<Rightarrow> instant \<Rightarrow>
   transactions \<times> matcher \<Rightarrow> (decision \<times> transactions \<times> matcher) option" where
  "propose_key admit_source scope event key focused_app now tm = (case tm of (t, m) \<Rightarrow>
     (case dispatch_device_with_delivery (sc_generation scope) (normalized_event key event) focused_app now m of
        None \<Rightarrow> None
      | Some ((verdict, token), m) \<Rightarrow>
          let m = (if tx_modifier_tap_release t \<and> is_modifier key \<and> ne_state event = 1 \<and>
                      (\<exists>press \<in> tx_physical_downs t. press \<noteq> (sc_generation scope, ne_key event))
                   then disqualify_taps m else m);
              decision = decide admit_source (ne_state event) verdict;
              t = (case token of
                  None \<Rightarrow> t
                | Some token \<Rightarrow> t\<lparr>tx_pending := Some \<lparr>pp_scope = scope, pp_token = token,
                    pp_decision = decision, pp_key = ne_key event, pp_state = ne_state event,
                    pp_focus_epoch = ne_focus_epoch event\<rparr>\<rparr>)
          in Some (decision, t, m)))"

definition propose_with_source ::
  "(string \<Rightarrow> bool) \<Rightarrow> scope \<Rightarrow> native_event \<Rightarrow> string option \<Rightarrow> instant \<Rightarrow>
   transactions \<times> matcher \<Rightarrow> ((decision, io_error) result \<times> transactions \<times> matcher) option" where
  "propose_with_source admit_source scope event focused_app now tm = (case tm of (t, m) \<Rightarrow>
     if tx_pending t \<noteq> None \<or> tx_replacement_disabled t then Some (Err invalid, t, m)
     else if 1 < ne_state event \<or> (ne_state event = 0 \<and> \<not> tx_modifier_tap_release t) then
       Some (Ok PassDecision, t, m)
     else
       let (fresh, t, m) =
             (if tx_modifier_tap_release t then observe_physical scope event (t, m) else (True, t, m))
       in if \<not> fresh then Some (Ok PassDecision, t, m)
          else (case native_key (ne_key event) of
              None \<Rightarrow> Some (Ok PassDecision, t, disqualify_taps m)
            | Some key \<Rightarrow> map_option (\<lambda>(decision, tm). (Ok decision, tm))
                (propose_key admit_source scope event key focused_app now (t, m))))"

definition propose ::
  "scope \<Rightarrow> native_event \<Rightarrow> string option \<Rightarrow> instant \<Rightarrow>
   transactions \<times> matcher \<Rightarrow> ((decision, io_error) result \<times> transactions \<times> matcher) option" where
  "propose scope event focused_app now tm =
     propose_with_source (\<lambda>_. False) scope event focused_app now tm"

section \<open>Deliveries and settlement\<close>

definition contradicts :: "pending_proposal \<Rightarrow> outcome \<Rightarrow> bool" where
  "contradicts p oc \<longleftrightarrow>
     oc_key oc \<noteq> pp_key p \<or> oc_state oc \<noteq> pp_state p \<or> oc_focus_epoch oc \<noteq> pp_focus_epoch p \<or>
     (oc_result oc = Replaced \<and> (case pp_decision p of ReplaceDecision _ _ \<Rightarrow> False | _ \<Rightarrow> True)) \<or>
     (oc_result oc = SwallowCommitted \<and> pp_decision p \<noteq> SwallowDecision)"

definition delivery_of :: "decision \<Rightarrow> delivery_report \<Rightarrow> replacement_delivery" where
  "delivery_of decision report =
     (let acknowledged = (\<lambda>r. case report of Acknowledged oc \<Rightarrow> oc_result oc = r | UncertainReport \<Rightarrow> False)
      in if decision = PassDecision \<and> acknowledged OriginalAdmitted then RejectedOriginalForwarded
         else if decision = SwallowDecision \<and> acknowledged SwallowCommitted then Delivered
         else report_replacement report)"

definition on_delivery ::
  "scope \<Rightarrow> delivery_report \<Rightarrow> transactions \<times> matcher \<Rightarrow> bool \<times> transactions \<times> matcher" where
  "on_delivery scope report tm = (case tm of (t, m) \<Rightarrow> (case tx_pending t of
      None \<Rightarrow> (False, t, m)
    | Some p \<Rightarrow>
        if pp_scope p \<noteq> scope then (False, t, m)
        else let t = t\<lparr>tx_pending := None\<rparr> in
          if (case report of Acknowledged oc \<Rightarrow> contradicts p oc | UncertainReport \<Rightarrow> False)
          then (False, t\<lparr>tx_replacement_disabled := True\<rparr>, snd (report_delivery (pp_token p) Uncertain m))
          else let result = delivery_of (pp_decision p) report;
                   t = (if result = Uncertain then t\<lparr>tx_replacement_disabled := True\<rparr> else t);
                   (accepted, m) = report_delivery (pp_token p) result m
               in (accepted, t, m)))"

definition tx_settle_device_event ::
  "scope \<Rightarrow> native_event \<Rightarrow> delivery_report \<Rightarrow> transactions \<times> matcher \<Rightarrow> bool \<times> transactions \<times> matcher" where
  "tx_settle_device_event scope event report tm = (case tm of (t, m) \<Rightarrow>
     if ne_state event = 1 \<or> 2 < ne_state event \<or> sc_generation scope = 0 then (False, t, m)
     else (case report of
         UncertainReport \<Rightarrow> (False, t\<lparr>tx_replacement_disabled := True\<rparr>, m)
       | Acknowledged oc \<Rightarrow>
           if oc_key oc \<noteq> ne_key event \<or> oc_state oc \<noteq> ne_state event \<or>
              oc_focus_epoch oc \<noteq> ne_focus_epoch event \<or>
              oc_result oc = PartialUncertainFatal \<or> oc_result oc = Replaced
           then (False, t\<lparr>tx_replacement_disabled := True\<rparr>, m)
           else (case native_key (ne_key event) of
               None \<Rightarrow> (False, t, m)
             | Some key \<Rightarrow>
                 let t = (if ne_state event = 0 \<and>
                        (case tx_pending t of
                           Some p \<Rightarrow> sc_generation (pp_scope p) = sc_generation scope \<and> pp_key p = ne_key event
                         | None \<Rightarrow> False)
                      then t\<lparr>tx_pending := None\<rparr> else t)
                 in (True, t, settle_device_event (sc_generation scope) (normalized_event key event) m))))"

section \<open>Recovery\<close>

definition tx_invalidate_speculation :: "transactions \<times> matcher \<Rightarrow> transactions \<times> matcher" where
  "tx_invalidate_speculation tm = (case tm of (t, m) \<Rightarrow>
     (let t = (if tx_pending t \<noteq> None then t\<lparr>tx_pending := None, tx_replacement_disabled := True\<rparr> else t)
      in (t\<lparr>tx_observation := None\<rparr>, invalidate_speculation m)))"

definition disconnected :: "transactions \<times> matcher \<Rightarrow> transactions \<times> matcher" where
  "disconnected tm = (case tx_invalidate_speculation tm of (t, m) \<Rightarrow>
     (t\<lparr>tx_recovery_nonce := None, tx_replacement_disabled := True\<rparr>, m))"

definition await_reconciliation ::
  "64 word \<Rightarrow> transactions \<times> matcher \<Rightarrow> bool \<times> transactions \<times> matcher" where
  "await_reconciliation nonce tm = (case tm of (t, m) \<Rightarrow>
     if nonce = 0 \<or> tx_previous_recovery_nonce t = Some nonce \<or> tx_recovery_nonce t = Some nonce
     then (False, t, m)
     else let (t, m) = tx_invalidate_speculation (t, m)
          in (True, t\<lparr>tx_replacement_disabled := True, tx_recovery_nonce := Some nonce\<rparr>, m))"

definition await_lifecycle_reconciliation ::
  "scope \<Rightarrow> body \<Rightarrow> transactions \<times> matcher \<Rightarrow> bool \<times> transactions \<times> matcher" where
  "await_lifecycle_reconciliation scope body tm = (case tm of (t, m) \<Rightarrow>
     if \<not> (body = ResetBody 2 \<or> body = ResetBody 3) \<or> sc_generation scope \<noteq> 0 \<or> tx_replacement_disabled t \<or>
        tx_pending t \<noteq> None \<or> tx_previous_recovery_nonce t \<noteq> Some (sc_nonce scope)
     then (False, t, m)
     else let (t, m) = tx_invalidate_speculation (t, m)
          in (True, t\<lparr>tx_replacement_disabled := True, tx_recovery_nonce := Some (sc_nonce scope)\<rparr>, m))"

definition reconciled :: "scope \<Rightarrow> body \<Rightarrow> transactions \<times> matcher \<Rightarrow> bool \<times> transactions \<times> matcher" where
  "reconciled scope body tm = (case tm of (t, m) \<Rightarrow>
     if body \<noteq> ResetBody 8 \<or> sc_generation scope \<noteq> 0 \<or> tx_recovery_nonce t \<noteq> Some (sc_nonce scope)
     then (False, t, m)
     else (True, t\<lparr>tx_physical_downs := {}, tx_observation := None, tx_pending := None,
             tx_replacement_disabled := False, tx_previous_recovery_nonce := tx_recovery_nonce t,
             tx_recovery_nonce := None\<rparr>, matcher_reset m))"

definition retire_device :: "64 word \<Rightarrow> transactions \<times> matcher \<Rightarrow> transactions \<times> matcher" where
  "retire_device generation tm = (case tm of (t, m) \<Rightarrow>
     if generation = 0 then (t, m)
     else let t = (if case tx_pending t of Some p \<Rightarrow> sc_generation (pp_scope p) = generation | None \<Rightarrow> False
                   then t\<lparr>tx_pending := None, tx_replacement_disabled := True\<rparr> else t)
          in (t\<lparr>tx_physical_downs := {p \<in> tx_physical_downs t. fst p \<noteq> generation}\<rparr>,
              reset_device generation m))"

definition is_reconciled :: "64 word \<Rightarrow> transactions \<Rightarrow> bool" where
  "is_reconciled nonce t \<longleftrightarrow>
     nonce \<noteq> 0 \<and> \<not> tx_replacement_disabled t \<and> tx_recovery_nonce t = None \<and>
     tx_previous_recovery_nonce t = Some nonce"

definition needs_reconciliation :: "transactions \<Rightarrow> bool" where
  "needs_reconciliation t \<longleftrightarrow> tx_replacement_disabled t \<and> tx_recovery_nonce t = None"

definition observe_lock_boundary :: "64 word \<Rightarrow> transactions \<times> matcher \<Rightarrow> transactions \<times> matcher" where
  "observe_lock_boundary nonce tm = (case tm of (t, m) \<Rightarrow>
     if tx_recovery_nonce t = Some nonce \<and> tx_replacement_disabled t \<and> tx_pending t = None
     then (t\<lparr>tx_observation := None\<rparr>, invalidate_speculation m)
     else disconnected (t, m))"

definition observe_unlocked_epoch :: "64 word \<Rightarrow> transactions \<times> matcher \<Rightarrow> transactions \<times> matcher" where
  "observe_unlocked_epoch nonce tm = (case tm of (t, m) \<Rightarrow>
     if is_reconciled nonce t \<and> tx_pending t = None
     then (t\<lparr>tx_observation := None\<rparr>, invalidate_speculation m)
     else observe_lock_boundary nonce (t, m))"

definition recovery_state :: "transactions \<Rightarrow> recovery_state" where
  "recovery_state t =
     (if tx_replacement_disabled t then
        (if tx_recovery_nonce t \<noteq> None then AwaitingNativeProof else FreshAdmissionRequired)
      else if tx_previous_recovery_nonce t \<noteq> None then Ready else Unbound)"

section \<open>The adapter that owns a matcher\<close>

record matcher_adapter =
  ad_matcher :: matcher
  ad_transactions :: transactions

definition adapter_new :: "matcher \<Rightarrow> matcher_adapter" where
  "adapter_new m = \<lparr>ad_matcher = m, ad_transactions = transactions_default\<rparr>"

definition adapter_state :: "matcher_adapter \<Rightarrow> transactions \<times> matcher" where
  "adapter_state a = (ad_transactions a, ad_matcher a)"

definition adapter_of :: "transactions \<times> matcher \<Rightarrow> matcher_adapter" where
  "adapter_of tm = \<lparr>ad_matcher = snd tm, ad_transactions = fst tm\<rparr>"

definition adapter_propose ::
  "scope \<Rightarrow> native_event \<Rightarrow> string option \<Rightarrow> instant \<Rightarrow> matcher_adapter \<Rightarrow>
   ((decision, io_error) result \<times> matcher_adapter) option" where
  "adapter_propose scope event focused_app now a =
     map_option (map_prod id adapter_of) (propose scope event focused_app now (adapter_state a))"

definition adapter_propose_with_source ::
  "(string \<Rightarrow> bool) \<Rightarrow> scope \<Rightarrow> native_event \<Rightarrow> string option \<Rightarrow> instant \<Rightarrow> matcher_adapter \<Rightarrow>
   ((decision, io_error) result \<times> matcher_adapter) option" where
  "adapter_propose_with_source admit_source scope event focused_app now a =
     map_option (map_prod id adapter_of)
       (propose_with_source admit_source scope event focused_app now (adapter_state a))"

definition adapter_settle_device_event ::
  "scope \<Rightarrow> native_event \<Rightarrow> delivery_report \<Rightarrow> matcher_adapter \<Rightarrow> bool \<times> matcher_adapter" where
  "adapter_settle_device_event scope event report a =
     map_prod id adapter_of (tx_settle_device_event scope event report (adapter_state a))"

definition adapter_on_delivery :: "scope \<Rightarrow> delivery_report \<Rightarrow> matcher_adapter \<Rightarrow> bool \<times> matcher_adapter" where
  "adapter_on_delivery scope report a = map_prod id adapter_of (on_delivery scope report (adapter_state a))"

definition adapter_invalidate_speculation :: "matcher_adapter \<Rightarrow> matcher_adapter" where
  "adapter_invalidate_speculation a = adapter_of (tx_invalidate_speculation (adapter_state a))"

definition adapter_await_reconciliation :: "64 word \<Rightarrow> matcher_adapter \<Rightarrow> bool \<times> matcher_adapter" where
  "adapter_await_reconciliation nonce a = map_prod id adapter_of (await_reconciliation nonce (adapter_state a))"

definition adapter_reconciled :: "scope \<Rightarrow> body \<Rightarrow> matcher_adapter \<Rightarrow> bool \<times> matcher_adapter" where
  "adapter_reconciled scope body a = map_prod id adapter_of (reconciled scope body (adapter_state a))"

definition adapter_await_lifecycle_reconciliation ::
  "scope \<Rightarrow> body \<Rightarrow> matcher_adapter \<Rightarrow> bool \<times> matcher_adapter" where
  "adapter_await_lifecycle_reconciliation scope body a =
     map_prod id adapter_of (await_lifecycle_reconciliation scope body (adapter_state a))"

definition adapter_retire_device :: "64 word \<Rightarrow> matcher_adapter \<Rightarrow> matcher_adapter" where
  "adapter_retire_device generation a = adapter_of (retire_device generation (adapter_state a))"

definition adapter_disconnected :: "matcher_adapter \<Rightarrow> matcher_adapter" where
  "adapter_disconnected a = adapter_of (disconnected (adapter_state a))"

section \<open>The transaction machine\<close>

text \<open>The operations callers apply to the pair, a configuration reload included: it invalidates
  the transactions and then swaps the rules.\<close>

datatype tx_op =
    Propose scope native_event "string option" instant
  | OnDelivery scope delivery_report
  | SettleEvent scope native_event delivery_report
  | AwaitReconciliation "64 word"
  | AwaitLifecycle scope body
  | Reconcile scope body
  | RetireGeneration "64 word"
  | UnlockedEpoch "64 word"
  | LockBoundary "64 word"
  | InvalidateTx
  | Disconnect
  | Reload "rule list"

datatype tx_output =
    Proposed "(decision, io_error) result"
  | Flag bool
  | NoFlag

fun tx_step ::
  "(string \<Rightarrow> bool) \<Rightarrow> tx_op \<Rightarrow> transactions \<times> matcher \<Rightarrow> (tx_output \<times> transactions \<times> matcher) option" where
  "tx_step admit (Propose s e f now) tm =
     map_option (\<lambda>(r, tm). (Proposed r, tm)) (propose_with_source admit s e f now tm)"
| "tx_step admit (OnDelivery s r) tm = (case on_delivery s r tm of (b, tm) \<Rightarrow> Some (Flag b, tm))"
| "tx_step admit (SettleEvent s e r) tm = (case tx_settle_device_event s e r tm of (b, tm) \<Rightarrow> Some (Flag b, tm))"
| "tx_step admit (AwaitReconciliation n) tm = (case await_reconciliation n tm of (b, tm) \<Rightarrow> Some (Flag b, tm))"
| "tx_step admit (AwaitLifecycle s b) tm =
     (case await_lifecycle_reconciliation s b tm of (b, tm) \<Rightarrow> Some (Flag b, tm))"
| "tx_step admit (Reconcile s b) tm = (case reconciled s b tm of (b, tm) \<Rightarrow> Some (Flag b, tm))"
| "tx_step admit (RetireGeneration g) tm = Some (NoFlag, retire_device g tm)"
| "tx_step admit (UnlockedEpoch n) tm = Some (NoFlag, observe_unlocked_epoch n tm)"
| "tx_step admit (LockBoundary n) tm = Some (NoFlag, observe_lock_boundary n tm)"
| "tx_step admit InvalidateTx tm = Some (NoFlag, tx_invalidate_speculation tm)"
| "tx_step admit Disconnect tm = Some (NoFlag, disconnected tm)"
| "tx_step admit (Reload rules) tm =
     (case tx_invalidate_speculation tm of (t, m) \<Rightarrow> Some (NoFlag, t, swap_rules (rule_set_new rules) m))"

section \<open>The transaction invariant\<close>

text \<open>The matcher has exactly one pending delivery, the one of the pending proposal, and that token
  belongs to the device and key of the proposal.\<close>

definition pending_token :: "transactions \<Rightarrow> press \<Rightarrow> 64 word option" where
  "pending_token t q = (case tx_pending t of
      None \<Rightarrow> None
    | Some p \<Rightarrow> if q = token_press (pp_token p) then Some (rt_generation (pp_token p)) else None)"

definition pending_ok :: "pending_proposal \<Rightarrow> bool" where
  "pending_ok p \<longleftrightarrow> rt_device (pp_token p) = sc_generation (pp_scope p) \<and>
     native_key (pp_key p) = Some (rt_key (pp_token p))"

definition tx_inv :: "transactions \<times> matcher \<Rightarrow> bool" where
  "tx_inv tm \<longleftrightarrow> (case tm of (t, m) \<Rightarrow>
     matcher_inv m \<and> (\<forall>q. hm_get (m_pending_deliveries m) q = pending_token t q) \<and>
     (\<forall>p. tx_pending t = Some p \<longrightarrow> pending_ok p))"

lemma native_key_inj:
  assumes "native_key a = Some k" and "native_key b = Some k"
  shows "a = b"
proof -
  from assms have le: "a \<le> 0xFFFF" "b \<le> 0xFFFF"
    and k: "from_evdev (ucast a) = Some k" "from_evdev (ucast b) = Some k"
    by (simp_all add: native_key_def split: if_splits)
  from k have "(ucast a :: 16 word) = ucast b"
    by (metis from_evdev_Some_iff to_evdev_Some_iff option.inject)
  then have "unat (ucast a :: 16 word) = unat (ucast b :: 16 word)"
    by simp
  with le show ?thesis
    by (simp add: unsigned_ucast_eq word_unat_eq_iff word_le_nat_alt take_bit_eq_mod)
qed

lemma normalized_event_simps [simp]:
  "code (normalized_event k e) = k" "kind (normalized_event k e) = (if ne_state e = 0 then KeyUp else KeyDown)"
  by (simp_all add: normalized_event_def key_event_def)

text \<open>What the matcher's operations do to its pending deliveries.\<close>

lemma pending_after [simp]:
  "hm_get (m_pending_deliveries (invalidate_speculation m)) q = None"
  "hm_get (m_pending_deliveries (matcher_reset m)) q = None"
  "m_pending_deliveries (disqualify_taps m) = m_pending_deliveries m"
  "m_pending_deliveries (swap_rules rs m) = m_pending_deliveries m"
  "hm_get (m_pending_deliveries (reset_device d m)) q =
     (if fst q = d then None else hm_get (m_pending_deliveries m) q)"
  "hm_get (m_pending_deliveries (settle_device_event d e m)) q =
     (if kind e = KeyUp \<and> q = (d, code e) then None else hm_get (m_pending_deliveries m) q)"
  by (auto simp: invalidate_speculation_def matcher_reset_def disqualify_taps_def swap_rules_def reset_device_def
      settle_device_event_def hm_lookup Let_def case_prod_beta')

lemma report_pending:
  assumes "hm_get (m_pending_deliveries m) (token_press tok) = Some (rt_generation tok)"
  shows "fst (report_delivery tok d m)"
    and "hm_get (m_pending_deliveries (snd (report_delivery tok d m))) q =
      (if q = token_press tok then None else hm_get (m_pending_deliveries m) q)"
  using assms by (simp_all add: report_delivery_def Let_def hm_lookup)

lemma report_own:
  assumes "hm_get (m_pending_deliveries m) (token_press tok) = Some (rt_generation tok)"
  shows "own (snd (report_delivery tok d m)) =
    (if d = RejectedOriginalForwarded \<and> own m (token_press tok) = Consumed
     then (own m)(token_press tok := Forwarded) else own m)"
  using assms by (auto simp: report_delivery_def own_def Let_def fun_eq_iff)

lemma with_delivery_pending:
  assumes "matcher_inv m" and "\<And>q. hm_get (m_pending_deliveries m) q = None"
    and "dispatch_device_with_delivery d e f now m = Some ((v, tok), m')"
  shows "hm_get (m_pending_deliveries m') q = (case tok of None \<Rightarrow> None
      | Some tok \<Rightarrow> if q = token_press tok then Some (rt_generation tok) else None)"
    and "tok = Some tk \<Longrightarrow> rt_device tk = d \<and> rt_key tk = code e"
  using assms(3)
proof (atomize (full), cases rule: with_delivery_cases)
  case plain
  with dispatch_pending(2) [OF assms(1)] assms(2) have "hm_get (m_pending_deliveries m') q = None"
    by (metis not_None_eq option.distinct(1))
  with plain show "hm_get (m_pending_deliveries m') q = (case tok of None \<Rightarrow> None
      | Some tok \<Rightarrow> if q = token_press tok then Some (rt_generation tok) else None) \<and>
    (tok = Some tk \<longrightarrow> rt_device tk = d \<and> rt_key tk = code e)"
    by simp
next
  case (replaced m1 a g)
  with dispatch_pending(2) [OF assms(1)] assms(2) have "hm_get (m_pending_deliveries m1) q = None" for q
    by (metis not_None_eq option.distinct(1))
  with replaced show "hm_get (m_pending_deliveries m') q = (case tok of None \<Rightarrow> None
      | Some tok \<Rightarrow> if q = token_press tok then Some (rt_generation tok) else None) \<and>
    (tok = Some tk \<longrightarrow> rt_device tk = d \<and> rt_key tk = code e)"
    by (auto simp: hm_lookup token_press_def)
qed

text \<open>The paths of a proposal. \<open>control\<close> is the part of the state that decides about recovery.\<close>

definition control :: "transactions \<Rightarrow> bool \<times> 64 word option \<times> 64 word option" where
  "control t = (tx_replacement_disabled t, tx_recovery_nonce t, tx_previous_recovery_nonce t)"

lemma observe_physical_frame:
  assumes "observe_physical s e (t, m) = (fresh, t', m')"
  shows "tx_pending t' = tx_pending t" "control t' = control t" "m' = m \<or> m' = disqualify_taps m"
  using assms by (auto simp: observe_physical_def control_def Let_def split: if_splits)

lemma propose_key_cases:
  assumes "propose_key admit s e k f now (t, m) = Some (d, t', m')"
  obtains v tok m1 where
    "dispatch_device_with_delivery (sc_generation s) (normalized_event k e) f now m = Some ((v, tok), m1)"
    "m' = m1 \<or> m' = disqualify_taps m1" "d = decide admit (ne_state e) v" "control t' = control t"
    "tx_pending t' = (case tok of None \<Rightarrow> tx_pending t | Some tok \<Rightarrow> Some \<lparr>pp_scope = s, pp_token = tok,
       pp_decision = d, pp_key = ne_key e, pp_state = ne_state e, pp_focus_epoch = ne_focus_epoch e\<rparr>)"
proof -
  from assms obtain v tok m1 where
    r: "dispatch_device_with_delivery (sc_generation s) (normalized_event k e) f now m = Some ((v, tok), m1)"
    by (auto simp: propose_key_def split: option.splits)
  show thesis
    by (rule that [OF r]) (use assms in \<open>auto simp: propose_key_def r Let_def control_def split: option.splits if_splits\<close>)
qed

lemma propose_cases [consumes 1, case_names refused skipped dispatched]:
  assumes "propose_with_source admit s e f now (t, m) = Some (r, t', m')"
  obtains
    "tx_pending t \<noteq> None \<or> tx_replacement_disabled t" "r = Err invalid" "t' = t" "m' = m"
  | "tx_pending t = None" "\<not> tx_replacement_disabled t" "r = Ok PassDecision"
    "tx_pending t' = None" "control t' = control t" "m' = m \<or> m' = disqualify_taps m \<or> m' = disqualify_taps (disqualify_taps m)"
  | k v tok m0 m1 where "tx_pending t = None" "\<not> tx_replacement_disabled t" "native_key (ne_key e) = Some k"
    "m0 = m \<or> m0 = disqualify_taps m"
    "dispatch_device_with_delivery (sc_generation s) (normalized_event k e) f now m0 = Some ((v, tok), m1)"
    "m' = m1 \<or> m' = disqualify_taps m1" "r = Ok (decide admit (ne_state e) v)" "control t' = control t"
    "tx_pending t' = map_option (\<lambda>tok. \<lparr>pp_scope = s, pp_token = tok,
       pp_decision = decide admit (ne_state e) v, pp_key = ne_key e, pp_state = ne_state e,
       pp_focus_epoch = ne_focus_epoch e\<rparr>) tok"
proof (cases "tx_pending t \<noteq> None \<or> tx_replacement_disabled t")
  case True
  with assms have "r = Err invalid" "t' = t" "m' = m"
    by (auto simp: propose_with_source_def)
  with True show thesis by (rule that(1))
next
  case False
  then have f: "tx_pending t = None" "\<not> tx_replacement_disabled t" by simp_all
  show thesis
  proof (cases "1 < ne_state e \<or> (ne_state e = 0 \<and> \<not> tx_modifier_tap_release t)")
    case True
    with assms f have "r = Ok PassDecision" "t' = t" "m' = m"
      by (auto simp: propose_with_source_def)
    with f show thesis by (intro that(2)) simp_all
  next
    case False
    obtain fresh t1 m0 where o: "(if tx_modifier_tap_release t then observe_physical s e (t, m) else (True, t, m)) =
        (fresh, t1, m0)"
      by (metis prod_cases3)
    have fr: "tx_pending t1 = None" "control t1 = control t" "m0 = m \<or> m0 = disqualify_taps m"
      using o f observe_physical_frame [of s e t m fresh t1 m0] by (auto split: if_splits)
    have r: "(if \<not> fresh then Some (Ok PassDecision, t1, m0) else (case native_key (ne_key e) of
          None \<Rightarrow> Some (Ok PassDecision, t1, disqualify_taps m0)
        | Some key \<Rightarrow> map_option (\<lambda>(decision, tm). (Ok decision, tm)) (propose_key admit s e key f now (t1, m0)))) =
        Some (r, t', m')"
      using assms f False o by (simp add: propose_with_source_def)
    show thesis
    proof (cases "fresh \<and> native_key (ne_key e) \<noteq> None")
      case True
      then obtain k d where k: "native_key (ne_key e) = Some k" "propose_key admit s e k f now (t1, m0) = Some (d, t', m')"
        and d: "r = Ok d"
        using r by auto
      from k(2) show thesis
        by (rule propose_key_cases) (rule that(3) [OF f k(1) fr(3)], use fr d in \<open>auto split: option.splits\<close>)
    next
      case False
      with r have "r = Ok PassDecision" "t' = t1" "m' = m0 \<or> m' = disqualify_taps m0"
        by (auto split: if_splits)
      with fr f show thesis by (intro that(2)) auto
    qed
  qed
qed

section \<open>Transactions act on the matcher through its own operations\<close>

definition performs :: "(matcher_op \<Rightarrow> bool) \<Rightarrow> matcher \<Rightarrow> matcher \<Rightarrow> bool" where
  "performs P m m' \<longleftrightarrow> (\<exists>ops outs. list_all P ops \<and> run_steps apply_op ops m = Some (outs, m'))"

lemma performs_refl [simp, intro]: "performs P m m"
  unfolding performs_def by (rule exI [of _ "[]"]) simp

lemma performs_step: "P op \<Longrightarrow> apply_op op m = Some (out, m') \<Longrightarrow> performs P m m'"
  unfolding performs_def by (rule exI [of _ "[op]"]) simp

lemma performs_trans: "performs P m m1 \<Longrightarrow> performs P m1 m' \<Longrightarrow> performs P m m'"
proof -
  assume "performs P m m1" "performs P m1 m'"
  then obtain ops outs ops' outs' where "list_all P ops" "run_steps apply_op ops m = Some (outs, m1)"
    "list_all P ops'" "run_steps apply_op ops' m1 = Some (outs', m')"
    by (auto simp: performs_def)
  then show ?thesis
    unfolding performs_def by (intro exI [of _ "ops @ ops'"]) (simp add: run_steps_append)
qed

lemma performs_inv: "performs P m m' \<Longrightarrow> matcher_inv m \<Longrightarrow> matcher_inv m'"
  by (auto simp: performs_def intro: matcher_ops.run_inv)

lemma performs_disqualify: "P Disqualify \<Longrightarrow> m' = m \<or> m' = disqualify_taps m \<Longrightarrow> performs P m m'"
  by (auto intro: performs_step)

lemma performs_invalidate: "P Invalidate \<Longrightarrow> performs P m (invalidate_speculation m)"
  by (rule performs_step [where op = Invalidate and out = NoOutput]) simp_all

fun may_do :: "tx_op \<Rightarrow> matcher_op \<Rightarrow> bool" where
  "may_do (Propose s e f now) oper \<longleftrightarrow> oper = Disqualify \<or>
     (\<exists>k. native_key (ne_key e) = Some k \<and> oper = DispatchDelivery (sc_generation s) (normalized_event k e) f now)"
| "may_do (OnDelivery s r) oper \<longleftrightarrow> (\<exists>tok d. oper = Report tok d \<and> rt_device tok = sc_generation s \<and>
     (d = RejectedOriginalForwarded \<longrightarrow> (\<exists>oc. r = Acknowledged oc \<and> native_key (oc_key oc) = Some (rt_key tok) \<and>
        oc_result oc \<in> {RejectedOriginalAdmitted, TimeoutOriginalAdmitted, OriginalAdmitted})))"
| "may_do (SettleEvent s e r) oper \<longleftrightarrow>
     (\<exists>k. native_key (ne_key e) = Some k \<and> oper = Settle (sc_generation s) (normalized_event k e))"
| "may_do (Reconcile s b) oper \<longleftrightarrow> oper = Reset"
| "may_do (RetireGeneration g) oper \<longleftrightarrow> oper = ResetDevice g"
| "may_do (Reload rules) oper \<longleftrightarrow> oper = Invalidate \<or> oper = SwapRules rules"
| "may_do _ oper \<longleftrightarrow> oper = Invalidate"

lemma propose_performs:
  assumes "propose_with_source admit s e f now (t, m) = Some (r, t', m')"
  shows "performs (may_do (Propose s e f now)) m m'"
  using assms
proof (cases rule: propose_cases)
  case refused
  then show ?thesis by simp
next
  case skipped
  moreover have "performs (may_do (Propose s e f now)) m (disqualify_taps m)" for m
    by (rule performs_disqualify) simp_all
  ultimately show ?thesis by (blast intro: performs_trans performs_refl)
next
  case (dispatched k v tok m0 m1)
  have "performs (may_do (Propose s e f now)) m m0" "performs (may_do (Propose s e f now)) m1 m'"
    using dispatched by (auto intro: performs_disqualify)
  moreover have "performs (may_do (Propose s e f now)) m0 m1"
    by (rule performs_step [where op = "DispatchDelivery (sc_generation s) (normalized_event k e) f now"])
      (use dispatched in simp_all)
  ultimately show ?thesis
    by (blast intro: performs_trans)
qed

lemma delivery_of_rejected:
  assumes "delivery_of d r = RejectedOriginalForwarded"
  shows "\<exists>oc. r = Acknowledged oc \<and>
    oc_result oc \<in> {RejectedOriginalAdmitted, TimeoutOriginalAdmitted, OriginalAdmitted}"
  using assms
  by (auto simp: delivery_of_def report_replacement_def split: delivery_report.splits result_kind.splits if_splits)

lemma on_delivery_cases [consumes 1, case_names ignored contradicted settled]:
  assumes "on_delivery s r (t, m) = (b, t', m')"
  obtains
    "\<nexists>p. tx_pending t = Some p \<and> pp_scope p = s" "\<not> b" "t' = t" "m' = m"
  | p oc where "tx_pending t = Some p" "pp_scope p = s" "r = Acknowledged oc" "contradicts p oc" "\<not> b"
    "t' = t\<lparr>tx_pending := None, tx_replacement_disabled := True\<rparr>"
    "m' = snd (report_delivery (pp_token p) Uncertain m)"
  | p where "tx_pending t = Some p" "pp_scope p = s" "\<And>oc. r = Acknowledged oc \<Longrightarrow> \<not> contradicts p oc"
    "(b, m') = report_delivery (pp_token p) (delivery_of (pp_decision p) r) m"
    "t' = t\<lparr>tx_pending := None, tx_replacement_disabled :=
       (tx_replacement_disabled t \<or> delivery_of (pp_decision p) r = Uncertain)\<rparr>"
proof (cases "\<exists>p. tx_pending t = Some p \<and> pp_scope p = s")
  case False
  with assms have "\<not> b" "t' = t" "m' = m"
    by (auto simp: on_delivery_def split: option.splits if_splits)
  with False show thesis by (rule that(1))
next
  case True
  then obtain p where p: "tx_pending t = Some p" "pp_scope p = s" by blast
  show thesis
  proof (cases "\<exists>oc. r = Acknowledged oc \<and> contradicts p oc")
    case True
    then obtain oc where oc: "r = Acknowledged oc" "contradicts p oc" by blast
    with assms p have "\<not> b" "t' = t\<lparr>tx_pending := None, tx_replacement_disabled := True\<rparr>"
      "m' = snd (report_delivery (pp_token p) Uncertain m)"
      by (auto simp: on_delivery_def Let_def)
    with p oc show thesis by (rule that(2))
  next
    case False
    then have n: "\<And>oc. r = Acknowledged oc \<Longrightarrow> \<not> contradicts p oc" by blast
    then have "\<not> (case r of Acknowledged oc \<Rightarrow> contradicts p oc | UncertainReport \<Rightarrow> False)"
      by (simp split: delivery_report.splits)
    with assms p have "(b, m') = report_delivery (pp_token p) (delivery_of (pp_decision p) r) m"
      "t' = t\<lparr>tx_pending := None, tx_replacement_disabled :=
         (tx_replacement_disabled t \<or> delivery_of (pp_decision p) r = Uncertain)\<rparr>"
      by (auto simp: on_delivery_def Let_def split: prod.splits if_splits)
    with p n show thesis by (rule that(3))
  qed
qed

lemma tx_invalidate_simps [simp]:
  "snd (tx_invalidate_speculation (t, m)) = invalidate_speculation m"
  "tx_pending (fst (tx_invalidate_speculation (t, m))) = None"
  "control (fst (tx_invalidate_speculation (t, m))) =
     (tx_replacement_disabled t \<or> tx_pending t \<noteq> None, tx_recovery_nonce t, tx_previous_recovery_nonce t)"
  by (auto simp: tx_invalidate_speculation_def control_def Let_def)

lemma disconnected_simps [simp]:
  "snd (disconnected (t, m)) = invalidate_speculation m"
  "tx_pending (fst (disconnected (t, m))) = None"
  "control (fst (disconnected (t, m))) = (True, None, tx_previous_recovery_nonce t)"
  by (auto simp: disconnected_def tx_invalidate_speculation_def control_def Let_def)

lemma tx_inv_quiet:
  "matcher_inv m \<Longrightarrow> (\<And>q. hm_get (m_pending_deliveries m) q = None) \<Longrightarrow> tx_pending t = None \<Longrightarrow> tx_inv (t, m)"
  by (simp add: tx_inv_def pending_token_def)

lemma tx_inv_invalidated: "matcher_inv m \<Longrightarrow> tx_pending t = None \<Longrightarrow> tx_inv (t, invalidate_speculation m)"
  by (rule tx_inv_quiet) (simp_all add: invalidate_inv)

lemma propose_inv:
  assumes "tx_inv (t, m)" and "propose_with_source admit s e f now (t, m) = Some (r, t', m')"
  shows "tx_inv (t', m')"
proof -
  have inv: "matcher_inv m"
    using assms(1) by (simp add: tx_inv_def)
  have inv': "matcher_inv m'"
    by (rule performs_inv [OF propose_performs [OF assms(2)] inv])
  from assms(2) show ?thesis
  proof (cases rule: propose_cases)
    case refused
    with assms(1) show ?thesis by simp
  next
    case skipped
    with assms(1) inv' show ?thesis by (auto simp: tx_inv_def pending_token_def)
  next
    case (dispatched k v tok m0 m1)
    have m0: "matcher_inv m0" "\<And>q. hm_get (m_pending_deliveries m0) q = None"
      using dispatched(1,4) assms(1) by (auto simp: tx_inv_def pending_token_def disqualify_taps_inv)
    note d = with_delivery_pending [OF m0 dispatched(5)]
    have "hm_get (m_pending_deliveries m') q = hm_get (m_pending_deliveries m1) q" for q
      using dispatched(6) by auto
    with d dispatched(3,9) inv' show ?thesis
      by (auto simp: tx_inv_def pending_token_def pending_ok_def split: option.splits)
  qed
qed

lemma on_delivery_performs:
  assumes "tx_inv (t, m)" and "on_delivery s r (t, m) = (b, t', m')"
  shows "performs (may_do (OnDelivery s r)) m m'"
  using assms(2)
proof (cases rule: on_delivery_cases)
  case (contradicted p oc)
  moreover have "rt_device (pp_token p) = sc_generation s"
    using assms(1) contradicted by (auto simp: tx_inv_def pending_ok_def)
  ultimately show ?thesis
    by (intro performs_step [where op = "Report (pp_token p) Uncertain"]) (auto simp: Let_def case_prod_beta)
next
  case (settled p)
  have ok: "rt_device (pp_token p) = sc_generation s" "native_key (pp_key p) = Some (rt_key (pp_token p))"
    using assms(1) settled by (auto simp: tx_inv_def pending_ok_def)
  have "may_do (OnDelivery s r) (Report (pp_token p) (delivery_of (pp_decision p) r))"
    using ok settled(3) delivery_of_rejected [of "pp_decision p" r] by (auto simp: contradicts_def)
  then show ?thesis
    by (rule performs_step) (simp flip: settled(4))
qed simp

lemma on_delivery_inv:
  assumes "tx_inv (t, m)" and "on_delivery s r (t, m) = (b, t', m')"
  shows "tx_inv (t', m')"
proof -
  have inv': "matcher_inv m'"
    using performs_inv [OF on_delivery_performs [OF assms]] assms(1) by (simp add: tx_inv_def)
  have live: "hm_get (m_pending_deliveries m) q = (if q = token_press (pp_token p) then Some (rt_generation (pp_token p)) else None)"
    if "tx_pending t = Some p" for p q
    using assms(1) that by (simp add: tx_inv_def pending_token_def del: split_paired_All)
  from assms(2) show ?thesis
  proof (cases rule: on_delivery_cases)
    case ignored
    with assms(1) show ?thesis by simp
  next
    case (contradicted p oc)
    with live inv' show ?thesis
      by (intro tx_inv_quiet) (simp_all add: report_pending)
  next
    case (settled p)
    then have "m' = snd (report_delivery (pp_token p) (delivery_of (pp_decision p) r) m)"
      by (metis snd_conv)
    with live settled inv' show ?thesis
      by (intro tx_inv_quiet) (simp_all add: report_pending)
  qed
qed

lemma settle_performs:
  assumes "tx_settle_device_event s e r (t, m) = (b, t', m')"
  shows "performs (may_do (SettleEvent s e r)) m m'"
proof (cases "m' = m")
  case False
  with assms obtain k where k: "native_key (ne_key e) = Some k"
    "m' = settle_device_event (sc_generation s) (normalized_event k e) m"
    by (auto simp: tx_settle_device_event_def Let_def split: if_splits delivery_report.splits option.splits)
  then show ?thesis
    by (intro performs_step [where op = "Settle (sc_generation s) (normalized_event k e)"]) auto
qed simp

lemma settle_inv_tx:
  assumes "tx_inv (t, m)" and "tx_settle_device_event s e r (t, m) = (b, t', m')"
  shows "tx_inv (t', m')"
proof (cases "b")
  case False
  with assms have "m' = m" "tx_pending t' = tx_pending t"
    by (auto simp: tx_settle_device_event_def Let_def split: if_splits delivery_report.splits option.splits)
  with assms(1) show ?thesis
    by (simp add: tx_inv_def pending_token_def)
next
  case True
  define dropped where "dropped \<longleftrightarrow> ne_state e = 0 \<and> (\<exists>p. tx_pending t = Some p \<and>
    sc_generation (pp_scope p) = sc_generation s \<and> pp_key p = ne_key e)"
  obtain k where k: "native_key (ne_key e) = Some k"
    and m': "m' = settle_device_event (sc_generation s) (normalized_event k e) m"
    and t': "tx_pending t' = (if dropped then None else tx_pending t)"
    using assms(2) True
    by (auto simp: tx_settle_device_event_def dropped_def Let_def split: if_splits delivery_report.splits option.splits)
  have same: "p \<in> set_option (tx_pending t) \<Longrightarrow> ne_state e = 0 \<Longrightarrow>
      token_press (pp_token p) = (sc_generation s, k) \<longleftrightarrow> dropped" for p
    using assms(1) k native_key_inj [of "pp_key p" k "ne_key e"]
    by (auto simp: tx_inv_def pending_ok_def dropped_def token_press_def)
  have "matcher_inv m'" "dropped \<Longrightarrow> ne_state e = 0"
    using assms(1) by (simp_all add: m' tx_inv_def settle_inv dropped_def)
  with assms(1) same show ?thesis
    by (auto simp: tx_inv_def pending_token_def m' t' split: option.splits simp del: split_paired_All)
qed

lemma tx_invalidateD:
  "tx_invalidate_speculation (t, m) = (t', m') \<Longrightarrow> m' = invalidate_speculation m \<and> tx_pending t' = None"
  "disconnected (t, m) = (t', m') \<Longrightarrow> m' = invalidate_speculation m \<and> tx_pending t' = None"
  using tx_invalidate_simps [of t m] disconnected_simps [of t m] by (metis fst_conv snd_conv)+

fun quieting :: "tx_op \<Rightarrow> bool" where
  "quieting (AwaitReconciliation _) = True"
| "quieting (AwaitLifecycle _ _) = True"
| "quieting (UnlockedEpoch _) = True"
| "quieting (LockBoundary _) = True"
| "quieting InvalidateTx = True"
| "quieting Disconnect = True"
| "quieting _ = False"

lemma tx_step_quieting:
  assumes "quieting op" and "tx_step admit op (t, m) = Some (out, t', m')"
  shows "t' = t \<and> m' = m \<or> m' = invalidate_speculation m \<and> tx_pending t' = None"
  using assms
  by (cases op) (auto simp: await_reconciliation_def await_lifecycle_reconciliation_def observe_unlocked_epoch_def
      observe_lock_boundary_def split: if_splits prod.splits dest: tx_invalidateD)

lemma tx_step_performs:
  assumes "tx_inv (t, m)" and "tx_step admit op (t, m) = Some (out, t', m')"
  shows "performs (may_do op) m m'"
proof (cases "quieting op")
  case True
  then have "may_do op Invalidate" by (cases op) simp_all
  with tx_step_quieting [OF True assms(2)] performs_invalidate show ?thesis by blast
next
  case nq: False
  show ?thesis
  proof (cases op)
    case (Propose s e f now)
    with assms(2) propose_performs show ?thesis by auto
  next
    case (OnDelivery s r)
    with assms on_delivery_performs [OF assms(1)] show ?thesis by (auto split: prod.splits)
  next
    case (SettleEvent s e r)
    with assms settle_performs show ?thesis by (auto split: prod.splits)
  next
    case (Reconcile s b)
    with assms show ?thesis
      by (auto simp: reconciled_def intro: performs_step [where op = Reset] split: if_splits)
  next
    case (RetireGeneration g)
    with assms show ?thesis
      by (auto simp: retire_device_def Let_def intro!: performs_step [where op = "ResetDevice g"] split: if_splits)
  next
    case (Reload rules)
    have "performs (may_do op) (invalidate_speculation m) (swap_rules (rule_set_new rules) (invalidate_speculation m))"
      by (rule performs_step [where op = "SwapRules rules" and out = NoOutput]) (simp_all add: Reload)
    moreover have "performs (may_do op) m (invalidate_speculation m)"
      by (rule performs_invalidate) (simp add: Reload)
    ultimately show ?thesis
      using assms(2) Reload by (auto simp: case_prod_beta intro: performs_trans)
  qed (use nq in simp_all)
qed

lemma retire_inv:
  assumes "tx_inv (t, m)" and "retire_device g (t, m) = (t', m')" and "matcher_inv m'"
  shows "tx_inv (t', m')"
proof (cases "g = 0")
  case False
  with assms(2) have m': "m' = reset_device g m"
    and t': "tx_pending t' = (case tx_pending t of None \<Rightarrow> None
      | Some p \<Rightarrow> if sc_generation (pp_scope p) = g then None else Some p)"
    by (auto simp: retire_device_def Let_def split: option.splits)
  have "pending_token t' q = (if fst q = g then None else pending_token t q)" for q
    using assms(1) by (auto simp: tx_inv_def pending_token_def pending_ok_def token_press_def t' split: option.splits)
  with assms t' show ?thesis
    by (auto simp: tx_inv_def m' split: option.splits if_splits)
qed (use assms in \<open>simp add: retire_device_def\<close>)

lemma tx_step_inv:
  assumes "tx_inv (t, m)" and "tx_step admit op (t, m) = Some (out, t', m')"
  shows "tx_inv (t', m')"
proof (cases "quieting op")
  case True
  have "matcher_inv m"
    using assms(1) by (simp add: tx_inv_def)
  with tx_step_quieting [OF True assms(2)] assms(1) tx_inv_invalidated show ?thesis
    by auto
next
  case nq: False
  have inv: "matcher_inv m" "matcher_inv m'"
    using assms performs_inv [OF tx_step_performs [OF assms]] by (simp_all add: tx_inv_def)
  show ?thesis
  proof (cases op)
    case (Propose s e f now)
    with assms(2) propose_inv [OF assms(1)] show ?thesis by auto
  next
    case (OnDelivery s r)
    with assms on_delivery_inv [OF assms(1)] show ?thesis by (auto split: prod.splits)
  next
    case (SettleEvent s e r)
    with assms settle_inv_tx [OF assms(1)] show ?thesis by (auto split: prod.splits)
  next
    case (Reconcile s b)
    with assms inv show ?thesis
      by (auto simp: reconciled_def intro!: tx_inv_quiet split: if_splits)
  next
    case (RetireGeneration g)
    with assms(2) retire_inv [OF assms(1) _ inv(2)] show ?thesis by auto
  next
    case (Reload rules)
    with assms inv show ?thesis
      by (auto simp: case_prod_beta intro!: tx_inv_quiet)
  qed (use nq in simp_all)
qed

interpretation tx_machine: state_machine "tx_step admit" tx_inv for admit
  by unfold_locales (use tx_step_inv in \<open>auto simp: split_paired_all\<close>)

section \<open>Uncertainty\<close>

text \<open>Replacement is disabled and the connection with this nonce cannot enable it again.\<close>

definition stale :: "64 word \<Rightarrow> transactions \<times> matcher \<Rightarrow> bool" where
  "stale n tm \<longleftrightarrow> (case control (fst tm) of (disabled, armed, previous) \<Rightarrow>
     disabled \<and> armed \<noteq> Some n \<and> (previous = Some n \<or> n = 0))"

fun fresh_proof :: "64 word \<Rightarrow> tx_op \<Rightarrow> bool" where
  "fresh_proof n (Reconcile s b) \<longleftrightarrow> b = ResetBody 8 \<and> sc_generation s = 0 \<and> sc_nonce s \<noteq> n"
| "fresh_proof n _ \<longleftrightarrow> False"

fun refuses_proposal :: "tx_op \<Rightarrow> tx_output \<Rightarrow> bool" where
  "refuses_proposal (Propose s e f now) out \<longleftrightarrow> out = Proposed (Err invalid)"
| "refuses_proposal _ out \<longleftrightarrow> True"

lemma stale_propose:
  assumes "stale n (t, m)" and "propose_with_source admit s e f now (t, m) = Some (r, t', m')"
  shows "t' = t \<and> m' = m \<and> r = Err invalid"
  using assms(2)
  by (cases rule: propose_cases) (use assms(1) in \<open>auto simp: stale_def control_def\<close>)

lemma stale_step:
  assumes "stale n (t, m)" and "\<not> fresh_proof n op" and "tx_step admit op (t, m) = Some (out, t', m')"
  shows "stale n (t', m') \<and> refuses_proposal op out"
proof (cases op)
  case (Propose s e f now)
  with assms(3) obtain r where r: "propose_with_source admit s e f now (t, m) = Some (r, t', m')" "out = Proposed r"
    by auto
  with Propose assms(1) stale_propose [OF assms(1) r(1)] show ?thesis by simp
next
  case (OnDelivery s r)
  with assms obtain b where "on_delivery s r (t, m) = (b, t', m')" by (auto split: prod.splits)
  then show ?thesis
    by (cases rule: on_delivery_cases) (use assms(1) OnDelivery in \<open>auto simp: stale_def control_def\<close>)
next
  case (SettleEvent s e r)
  with assms show ?thesis
    by (auto simp: stale_def control_def tx_settle_device_event_def Let_def
        split: if_splits delivery_report.splits option.splits)
next
  case (AwaitReconciliation n')
  with assms show ?thesis
    by (auto simp: stale_def control_def await_reconciliation_def tx_invalidate_speculation_def Let_def
        split: if_splits)
next
  case (RetireGeneration g)
  with assms show ?thesis
    by (auto simp: stale_def control_def retire_device_def Let_def split: if_splits)
qed (use assms in \<open>auto simp: stale_def control_def reconciled_def await_lifecycle_reconciliation_def
    observe_unlocked_epoch_def observe_lock_boundary_def is_reconciled_def disconnected_def
    tx_invalidate_speculation_def Let_def split: if_splits\<close>)

interpretation stale_tx: stable_fact "tx_step admit" tx_inv "stale n" "fresh_proof n" refuses_proposal for admit n
  by unfold_locales (use stale_step in \<open>auto simp: split_paired_all\<close>)

section \<open>Consumed presses\<close>

fun frees :: "press \<Rightarrow> tx_op \<Rightarrow> bool" where
  "frees p (Propose s e f now) \<longleftrightarrow>
     sc_generation s = fst p \<and> native_key (ne_key e) = Some (snd p) \<and> ne_state e = 0"
| "frees p (OnDelivery s (Acknowledged oc)) \<longleftrightarrow>
     sc_generation s = fst p \<and> native_key (oc_key oc) = Some (snd p) \<and>
     oc_result oc \<in> {RejectedOriginalAdmitted, TimeoutOriginalAdmitted, OriginalAdmitted}"
| "frees p (SettleEvent s e r) \<longleftrightarrow>
     sc_generation s = fst p \<and> native_key (ne_key e) = Some (snd p) \<and> ne_state e = 0"
| "frees p (Reconcile s b) \<longleftrightarrow> True"
| "frees p (RetireGeneration g) \<longleftrightarrow> g = fst p"
| "frees p _ \<longleftrightarrow> False"

fun never_replaced :: "press \<Rightarrow> tx_op \<Rightarrow> tx_output \<Rightarrow> bool" where
  "never_replaced p (Propose s e f now) out \<longleftrightarrow>
     (sc_generation s = fst p \<and> native_key (ne_key e) = Some (snd p) \<longrightarrow>
      out \<in> {Proposed (Err invalid), Proposed (Ok PassDecision), Proposed (Ok SwallowDecision)})"
| "never_replaced p _ out \<longleftrightarrow> True"

lemma may_do_settles: "may_do op oper \<Longrightarrow> settles p oper \<Longrightarrow> frees p op"
  by (cases "(p, op)" rule: frees.cases) (auto simp: token_press_def split: if_splits)

lemma consumed_performs:
  assumes "tx_inv (t, m)" and "own m p = Consumed" and "\<not> frees p op"
    and "tx_step admit op (t, m) = Some (out, t', m')"
  shows "own m' p = Consumed"
proof -
  obtain ops outs where ops: "list_all (may_do op) ops" "run_steps apply_op ops m = Some (outs, m')"
    using tx_step_performs [OF assms(1,4)] by (auto simp: performs_def)
  have "list_all (\<lambda>oper. \<not> settles p oper) ops"
    using ops(1) assms(3) may_do_settles [of op _ p] unfolding list_all_iff by blast
  with consumed.run_fact [OF _ assms(2) _ ops(2)] assms(1) show ?thesis
    by (simp add: tx_inv_def)
qed

lemma own_disqualify [simp]: "own (disqualify_taps m) = own m"
  by (simp add: own_def disqualify_taps_def fun_eq_iff)

lemma consumed_propose:
  assumes "tx_inv (t, m)" and "own m p = Consumed" and "\<not> frees p (Propose s e f now)"
    and "propose_with_source admit s e f now (t, m) = Some (r, t', m')"
  shows "never_replaced p (Propose s e f now) (Proposed r)"
  using assms(4)
proof (cases rule: propose_cases)
  case (dispatched k v tok m0 m1)
  have m0: "matcher_inv m0" "own m0 p = Consumed"
    using dispatched(4) assms(1,2) by (auto simp: tx_inv_def disqualify_taps_inv)
  show ?thesis
  proof (cases "sc_generation s = fst p \<and> k = snd p")
    case True
    with assms(3) dispatched(3) have "ne_state e \<noteq> 0" by simp
    with True consumed_with_delivery [OF m0 dispatched(5)] have "v = Swallow" by simp
    with dispatched(7) show ?thesis by simp
  qed (use dispatched(3) in auto)
qed simp_all

interpretation consumed_tx: stable_fact "tx_step admit" tx_inv "\<lambda>tm. own (snd tm) p = Consumed" "frees p"
    "never_replaced p" for admit p
proof unfold_locales
  fix tm op out tm'
  assume a: "tx_inv tm" "own (snd tm) p = Consumed" "\<not> frees p op" "tx_step admit op tm = Some (out, tm')"
  obtain t m t' m' where tm: "tm = (t, m)" "tm' = (t', m')" by fastforce
  show "own (snd tm') p = Consumed"
    using a consumed_performs by (auto simp: tm)
  show "never_replaced p op out"
  proof (cases op)
    case (Propose s e f now)
    with a obtain r where "propose_with_source admit s e f now (t, m) = Some (r, t', m')" "out = Proposed r"
      by (auto simp: tm)
    with a Propose consumed_propose [of t m p s e f now admit r t' m'] show ?thesis
      by (simp add: tm del: never_replaced.simps)
  qed simp_all
qed

section \<open>Properties\<close>

definition ex_scope :: scope where
  "ex_scope = \<lparr>sc_generation = 1, sc_lock_epoch = 1, sc_sequence = 4, sc_deadline_ns = 900, sc_nonce = 7\<rparr>"

definition ex_press :: native_event where
  "ex_press = \<lparr>ne_key = 35, ne_state = 1, ne_time_ms = 0, ne_modifiers = 4, ne_focus_epoch = 2, ne_focus_kind = 0,
     ne_focus = []\<rparr>"

definition ex_outcome :: outcome where
  "ex_outcome = \<lparr>oc_result = Replaced, oc_reason = 0, oc_key = 35, oc_state = 1, oc_focus_epoch = 2\<rparr>"

definition ex_pending_tx :: transactions where
  "ex_pending_tx = transactions_default\<lparr>tx_pending := Some \<lparr>pp_scope = ex_scope, pp_token = ex_token,
     pp_decision = ReplaceDecision 105 0, pp_key = 35, pp_state = 1, pp_focus_epoch = 2\<rparr>\<rparr>"

lemma ex_propose:
  "propose_with_source (\<lambda>_. False) ex_scope ex_press None 0 (transactions_default, ex_matcher) =
     Some (Ok (ReplaceDecision 105 0), ex_pending_tx, ex_pending)"
  by code_simp

lemma tx_inv_initial: "tx_inv (transactions_default, matcher_new (rule_set_new rules))"
proof (rule tx_inv_quiet)
  show "matcher_inv (matcher_new (rule_set_new rules))"
    by (simp add: matcher_new_inv rule_set_new_wf)
qed (simp_all add: matcher_new_def hm_lookup transactions_default_def)

text \<open>C24: At most one proposal is open, and the matcher and the transactions agree on it: after any
  sequence of proposals, deliveries, settlements, resets, retirements, reconnections and reloads the
  matcher's only pending delivery is the one whose token the open proposal holds, and there is none
  when no proposal is open.\<close>

theorem one_live_proposal:
  assumes "run_steps (tx_step admit) ops (transactions_default, matcher_new (rule_set_new rules)) = Some (outs, t, m)"
  shows "matcher_inv m \<and> hm_get (m_pending_deliveries m) = pending_token t"
  using tx_machine.run_inv [OF tx_inv_initial assms] by (simp add: tx_inv_def fun_eq_iff)

theorem one_live_proposal_witness:
  "matcher_inv ex_pending \<and> hm_get (m_pending_deliveries ex_pending) = pending_token ex_pending_tx"
proof (rule one_live_proposal)
  show "run_steps (tx_step (\<lambda>_. False)) [Propose ex_scope ex_press None 0]
      (transactions_default, matcher_new (rule_set_new ex_rules)) =
    Some ([Proposed (Ok (ReplaceDecision 105 0))], ex_pending_tx, ex_pending)"
    using ex_propose by (simp add: ex_matcher_def)
qed



text \<open>C26: Uncertainty is cured only by fresh proof. Once replacement is disabled on a connection that is
  not armed for recovery, every proposal is refused, and this survives every sequence of events,
  reports, lock changes, reconnection attempts with the old nonce and reloads: only a global
  reconciliation reset under another nonce than the last reconciled one can end it.\<close>

theorem uncertainty_needs_fresh_proof:
  assumes "tx_inv tm" and "needs_reconciliation (fst tm)"
    and "tx_previous_recovery_nonce (fst tm) = (if n = 0 then None else Some n)"
    and "list_all (\<lambda>op. \<not> fresh_proof n op) ops" and "run_steps (tx_step admit) ops tm = Some (outs, tm')"
  shows "list_all2 refuses_proposal ops outs \<and> \<not> is_reconciled k (fst tm')"
proof -
  have "stale n tm"
    using assms(2,3) by (auto simp: stale_def control_def needs_reconciliation_def split: if_splits)
  with stale_tx.run_fact [OF assms(1) _ assms(4,5)] show ?thesis
    by (auto simp: stale_def control_def is_reconciled_def)
qed

definition ex_lost :: "transactions \<times> matcher" where
  "ex_lost = disconnected (transactions_default\<lparr>tx_previous_recovery_nonce := Some 7\<rparr>, ex_pending)"

theorem uncertainty_needs_fresh_proof_witness:
  "list_all2 refuses_proposal [AwaitReconciliation 7, Reconcile (ex_scope\<lparr>sc_generation := 0\<rparr>) (ResetBody 8),
      Propose ex_scope ex_press None 0] [Flag False, Flag False, Proposed (Err invalid)] \<and>
    \<not> is_reconciled 7 (fst ex_lost)"
proof (rule uncertainty_needs_fresh_proof)
  show "run_steps (tx_step (\<lambda>_. True)) [AwaitReconciliation 7,
      Reconcile (ex_scope\<lparr>sc_generation := 0\<rparr>) (ResetBody 8), Propose ex_scope ex_press None 0] ex_lost =
    Some ([Flag False, Flag False, Proposed (Err invalid)], ex_lost)"
    by code_simp
  show "tx_inv ex_lost"
    by (simp add: ex_lost_def disconnected_def tx_invalidate_speculation_def transactions_default_def Let_def
        tx_inv_invalidated [OF ex_pending_inv])
qed (simp_all add: ex_lost_def needs_reconciliation_def disconnected_def tx_invalidate_speculation_def
    transactions_default_def Let_def ex_scope_def)



section \<open>Requested modifiers\<close>

definition defined_flags :: modifiers where
  "defined_flags = CTRL OR SHIFT OR ALT OR CMD OR FN OR LEFT_CTRL OR RIGHT_CTRL OR LEFT_SHIFT OR RIGHT_SHIFT OR
     LEFT_ALT OR RIGHT_ALT OR LEFT_CMD OR RIGHT_CMD"

text \<open>A generic flag without a side stands for the left key.\<close>

definition left_default :: "modifiers \<Rightarrow> modifiers \<Rightarrow> modifiers \<Rightarrow> modifiers \<Rightarrow> modifiers" where
  "left_default generic left right m =
     (if mods_contains m generic \<and> \<not> mods_contains m right then left else 0)"

definition held_for :: "modifiers \<Rightarrow> modifiers" where
  "held_for m = m OR left_default CTRL LEFT_CTRL RIGHT_CTRL m OR left_default SHIFT LEFT_SHIFT RIGHT_SHIFT m OR
     left_default ALT LEFT_ALT RIGHT_ALT m OR left_default CMD LEFT_CMD RIGHT_CMD m"

lemma and_flag: "n < 32 \<Longrightarrow> w AND push_bit n 1 \<noteq> 0 \<longleftrightarrow> bit w n" for w :: "32 word"
  by (auto simp: bit_eq_iff [where 'a = "32 word"] bit_and_iff bit_exp_iff)

lemma bit_flag: "n < 32 \<Longrightarrow> bit (push_bit n 1 :: 32 word) k \<longleftrightarrow> k = n"
  by (auto simp: bit_exp_iff)

lemma requested_bits:
  assumes "requested_modifiers m = Some bits"
  shows "bit bits k \<longleftrightarrow>
    k = 0 \<and> (bit m 10 \<or> bit m 1 \<and> \<not> bit m 11) \<or> k = 1 \<and> bit m 11 \<or>
    k = 2 \<and> (bit m 8 \<or> bit m 0 \<and> \<not> bit m 9) \<or> k = 3 \<and> bit m 9 \<or>
    k = 4 \<and> (bit m 12 \<or> bit m 2 \<and> \<not> bit m 13) \<or> k = 5 \<and> bit m 13 \<or>
    k = 6 \<and> (bit m 14 \<or> bit m 3 \<and> \<not> bit m 15) \<or> k = 7 \<and> bit m 15"
proof -
  have side: "bit (request_side m (push_bit l 1, push_bit r 1, push_bit g 1, i) w) k \<longleftrightarrow>
      bit w k \<or> k = i \<and> (bit m l \<or> bit m g \<and> \<not> bit m r) \<or> k = Suc i \<and> bit m r"
    if "l < 32" "r < 32" "g < 32" "Suc i < 32" for l r g i w
    using that by (auto simp: request_side_def Let_def mods_contains_bit bit_or_iff bit_flag
        simp del: push_bit_of_1 push_bit_Suc)
  have bits: "bits = fold (request_side m)
      [(LEFT_SHIFT, RIGHT_SHIFT, SHIFT, 0), (LEFT_CTRL, RIGHT_CTRL, CTRL, 2),
       (LEFT_ALT, RIGHT_ALT, ALT, 4), (LEFT_CMD, RIGHT_CMD, CMD, 6)] 0"
    using assms unfolding requested_modifiers_def by (metis option.distinct(1) option.inject)
  show ?thesis
    unfolding bits modifier_consts by (simp add: side disj_assoc del: push_bit_of_1 push_bit_Suc push_bit_0_id)
qed

lemma evdev_modifier_bits:
  "bit (evdev_modifier 42) k \<longleftrightarrow> k = 1 \<or> k = 10" "bit (evdev_modifier 54) k \<longleftrightarrow> k = 1 \<or> k = 11"
  "bit (evdev_modifier 29) k \<longleftrightarrow> k = 0 \<or> k = 8" "bit (evdev_modifier 97) k \<longleftrightarrow> k = 0 \<or> k = 9"
  "bit (evdev_modifier 56) k \<longleftrightarrow> k = 2 \<or> k = 12" "bit (evdev_modifier 100) k \<longleftrightarrow> k = 2 \<or> k = 13"
  "bit (evdev_modifier 125) k \<longleftrightarrow> k = 3 \<or> k = 14" "bit (evdev_modifier 126) k \<longleftrightarrow> k = 3 \<or> k = 15"
  by (simp_all add: evdev_modifier_def modifier_consts bit_or_iff bit_flag
      del: push_bit_of_1 push_bit_0_id push_bit_Suc)

lemma physical_bits:
  "bit (physical_modifiers bits) k \<longleftrightarrow>
    bit bits 0 \<and> (k = 1 \<or> k = 10) \<or> bit bits 1 \<and> (k = 1 \<or> k = 11) \<or>
    bit bits 2 \<and> (k = 0 \<or> k = 8) \<or> bit bits 3 \<and> (k = 0 \<or> k = 9) \<or>
    bit bits 4 \<and> (k = 2 \<or> k = 12) \<or> bit bits 5 \<and> (k = 2 \<or> k = 13) \<or>
    bit bits 6 \<and> (k = 3 \<or> k = 14) \<or> bit bits 7 \<and> (k = 3 \<or> k = 15)"
proof -
  have flag: "bit (if w AND push_bit n 1 \<noteq> 0 then x OR evdev_modifier raw else x) k \<longleftrightarrow>
      bit x k \<or> bit w n \<and> bit (evdev_modifier raw) k" if "n < 32" for w :: "32 word" and x n raw
    using that by (simp add: and_flag bit_or_iff del: push_bit_of_1)
  show ?thesis
    unfolding physical_modifiers_def
    by (simp add: flag mods_empty_def evdev_modifier_bits disj_assoc del: push_bit_of_1 push_bit_0_id push_bit_Suc)
      (simp add: eval_nat_numeral)
qed

lemma held_for_bits:
  "bit (held_for m) k \<longleftrightarrow> bit m k \<or> k = 8 \<and> bit m 0 \<and> \<not> bit m 9 \<or> k = 10 \<and> bit m 1 \<and> \<not> bit m 11 \<or>
     k = 12 \<and> bit m 2 \<and> \<not> bit m 13 \<or> k = 14 \<and> bit m 3 \<and> \<not> bit m 15"
proof -
  have side: "bit (left_default (push_bit g 1) (push_bit l 1) (push_bit r 1) m) k \<longleftrightarrow> k = l \<and> bit m g \<and> \<not> bit m r"
    if "l < 32" "r < 32" "g < 32" for l r g
    using that by (simp add: left_default_def mods_contains_bit bit_flag del: push_bit_of_1 push_bit_0_id push_bit_Suc)
  show ?thesis
    unfolding held_for_def modifier_consts
    by (simp add: bit_or_iff side disj_assoc del: push_bit_of_1 push_bit_0_id push_bit_Suc)
qed

lemma defined_bits: "bit defined_flags k \<longleftrightarrow> k \<in> {0, 1, 2, 3, 4, 8, 9, 10, 11, 12, 13, 14, 15}"
  unfolding defined_flags_def modifier_consts
  by (simp add: bit_or_iff bit_flag disj_ac del: push_bit_of_1 push_bit_0_id push_bit_Suc)

text \<open>C28: The modifier mask sent with a replacement is exact: for every lockstep set of modifiers
  without Fn it exists, fits in the eight bits the wire format allows, and holding the keys it names
  yields exactly the requested modifiers, with the left key for each generic modifier that names no
  right key.\<close>

theorem requested_modifiers_exact:
  assumes "mods_lockstep m" and "\<not> mods_contains m FN" and "m AND NOT defined_flags = 0"
  shows "\<exists>bits. requested_modifiers m = Some bits \<and> bits AND NOT 255 = 0 \<and> physical_modifiers bits = held_for m"
proof -
  obtain bits where r: "requested_modifiers m = Some bits"
    using assms(2) by (simp add: requested_modifiers_def)
  have "bit (NOT 255 :: 32 word) k \<Longrightarrow> 8 \<le> k" for k
    by (rule ccontr) (auto simp: bit_not_iff not_le less_eq_Suc_le numeral_eq_Suc le_Suc_eq)
  then have "bits AND NOT 255 = 0"
    by (intro bit_eqI) (auto simp: bit_and_iff requested_bits [OF r])
  moreover have "physical_modifiers bits = held_for m"
  proof (rule bit_word_eqI)
    fix k
    have dom: "k \<in> {0, 1, 2, 3, 8, 9, 10, 11, 12, 13, 14, 15}" if "bit m k"
      using that assms(2) assms(3) [THEN arg_cong [where f = "\<lambda>w. bit w k"]] bit_imp_le_length [OF that]
      by (auto simp: FN_def mods_contains_bit bit_and_iff bit_not_iff defined_bits simp del: push_bit_of_1)
    show "bit (physical_modifiers bits) k \<longleftrightarrow> bit (held_for m) k"
    proof (cases "k \<in> {0, 1, 2, 3, 8, 9, 10, 11, 12, 13, 14, 15}")
      case True
      then show ?thesis
        using assms(1) unfolding mods_lockstep_bits physical_bits held_for_bits requested_bits [OF r]
        by (elim insertE emptyE) auto
    next
      case False
      with dom show ?thesis
        unfolding physical_bits held_for_bits by auto
    qed
  qed
  ultimately show ?thesis
    using r by blast
qed

theorem requested_modifiers_exact_witness:
  "\<exists>bits. requested_modifiers (CTRL OR SHIFT OR RIGHT_SHIFT) = Some bits \<and> bits AND NOT 255 = 0 \<and>
    physical_modifiers bits = held_for (CTRL OR SHIFT OR RIGHT_SHIFT)"
  by (rule requested_modifiers_exact) code_simp+

end
