(* ===== verification/Bridge.thy ===== *)
theory Bridge
  imports Transactions
begin

text \<open>
  The worker's end of the compositor connection, \<^verbatim>\<open>packages/linux/src/hyprland/mod.rs\<close> with the
  transaction traces of \<^verbatim>\<open>causal.rs\<close>. The transport is a parameter: a record of the operations on a
  connection, each a function of the world it runs in. The event handler is the source's trait as a
  record of its methods over the handler's state; only a proposal can panic, which is \<open>None\<close>.
\<close>

section \<open>Transport and handler\<close>

record ('c, 'w) net =
  net_receive :: "'c \<Rightarrow> 64 word \<Rightarrow> 'w \<Rightarrow> (packet, io_error) result \<times> 'w"
  net_receive_if_ready :: "'c \<Rightarrow> 64 word \<Rightarrow> 'w \<Rightarrow> (packet option, io_error) result \<times> 'w"
  net_send :: "'c \<Rightarrow> packet \<Rightarrow> 64 word \<Rightarrow> 'w \<Rightarrow> (unit, io_error) result \<times> 'w"
  monotonic_ns :: "'w \<Rightarrow> (64 word, io_error) result \<times> 'w"
  sleep_ns :: "nat \<Rightarrow> 'w \<Rightarrow> 'w"

datatype causal_terminal = AcknowledgedTerminal | UncertainTerminal | RejectedTerminal

record causal_trace =
  ct_scope :: scope
  ct_received_ns :: "64 word option"
  ct_decision_send_start_ns :: "64 word option"
  ct_decision_send_return_ns :: "64 word option"
  ct_decision_sent_ns :: "64 word option"
  ct_outcome_received_ns :: "64 word option"
  ct_terminal_ns :: "64 word option"
  ct_terminal :: causal_terminal

datatype research_fault =
    NoFault
  | DelayDecision duration
  | DropDecision
  | DisconnectBeforeDecision
  | DisconnectAfterDecision

record 'h event_handler =
  modifier_release_actions :: "'h \<Rightarrow> bool"
  eh_propose :: "scope \<Rightarrow> native_event \<Rightarrow> 'h \<Rightarrow> (decision \<times> 'h) option"
  eh_causal_trace :: "causal_trace \<Rightarrow> 'h \<Rightarrow> 'h"
  eh_research_fault :: "scope \<Rightarrow> native_event \<Rightarrow> 'h \<Rightarrow> research_fault \<times> 'h"
  eh_delivery :: "scope \<Rightarrow> native_event \<Rightarrow> decision \<Rightarrow> delivery_report \<Rightarrow> 'h \<Rightarrow> 'h"
  eh_reset :: "scope \<Rightarrow> body \<Rightarrow> 'h \<Rightarrow> 'h"
  eh_unlocked_epoch :: "scope \<Rightarrow> body \<Rightarrow> 'h \<Rightarrow> 'h"
  eh_disconnected :: "'h \<Rightarrow> 'h"

definition MAX_RETIRED_GENERATIONS :: nat where "MAX_RETIRED_GENERATIONS = 4096"

definition MAX_CONNECTION_NONCES :: nat where "MAX_CONNECTION_NONCES = 64"

record 'c bridge =
  br_transport :: "'c option"
  br_nonce :: "64 word"
  br_epoch :: "64 word"
  br_sequence :: "64 word"
  br_retired :: "64 word set"
  br_previous_nonces :: "64 word set"
  br_awaiting_reconciliation :: bool
  br_locked :: bool

section \<open>Clocks, deadlines and faults\<close>

definition ok_value :: "('a, 'e) result \<Rightarrow> 'a option" where
  "ok_value r = (case r of Ok a \<Rightarrow> Some a | Err _ \<Rightarrow> None)"

definition clock_ok :: "('c, 'w) net \<Rightarrow> 'w \<Rightarrow> 64 word option \<times> 'w" where
  "clock_ok net w = (let (r, w) = monotonic_ns net w in (ok_value r, w))"

definition trace_received :: "('c, 'w) net \<Rightarrow> scope \<Rightarrow> 'w \<Rightarrow> causal_trace \<times> 'w" where
  "trace_received net scope w = (let (now, w) = clock_ok net w in
     (\<lparr>ct_scope = scope, ct_received_ns = now, ct_decision_send_start_ns = None,
       ct_decision_send_return_ns = None, ct_decision_sent_ns = None, ct_outcome_received_ns = None,
       ct_terminal_ns = None, ct_terminal = UncertainTerminal\<rparr>, w))"

definition check_deadline :: "('c, 'w) net \<Rightarrow> 64 word \<Rightarrow> 'w \<Rightarrow> (unit, io_error) result \<times> 'w" where
  "check_deadline net deadline_ns w = (case monotonic_ns net w of
      (Err e, w) \<Rightarrow> (Err e, w)
    | (Ok now, w) \<Rightarrow>
        (if now \<le> deadline_ns then
           (if 1 \<le> deadline_ns - now \<and> deadline_ns - now \<le> MAX_WAIT_NS then Ok ()
            else Err (InvalidData ''Hyprland deadline outside 1..=10ms budget''))
         else Err (TimedOut ''stale Hyprland transaction''), w))"

definition apply_before_fault ::
  "('c, 'w) net \<Rightarrow> research_fault \<Rightarrow> 64 word \<Rightarrow> 'w \<Rightarrow> (unit, io_error) result \<times> 'w" where
  "apply_before_fault net fault deadline w = (case fault of
      NoFault \<Rightarrow> (Ok (), w)
    | DisconnectAfterDecision \<Rightarrow> (Ok (), w)
    | DelayDecision delay \<Rightarrow> check_deadline net deadline (sleep_ns net delay w)
    | DropDecision \<Rightarrow> (case monotonic_ns net w of
          (Err e, w) \<Rightarrow> (Err e, w)
        | (Ok now, w) \<Rightarrow>
            (Err (TimedOut ''selected dropped decision; outcome uncertain''),
             sleep_ns net (unat deadline - unat now) w))
    | DisconnectBeforeDecision \<Rightarrow> (Err (ConnectionAborted ''selected disconnect before decision''), w))"

section \<open>Validation\<close>

definition show_u64 :: "64 word \<Rightarrow> string" where
  "show_u64 v = show_nat (unat v)"

definition scope_error :: "string \<Rightarrow> scope \<Rightarrow> 64 word \<Rightarrow> 64 word \<Rightarrow> 64 word \<Rightarrow> io_error" where
  "scope_error reason scope nonce sequence epoch = InvalidData (concat
     [''Hyprland '', reason, '': generation='', show_u64 (sc_generation scope),
      '' nonce='', show_u64 (sc_nonce scope), ''/'', show_u64 nonce,
      '' sequence='', show_u64 (sc_sequence scope), ''/'', show_u64 sequence,
      '' epoch='', show_u64 (sc_lock_epoch scope), ''/'', show_u64 epoch,
      '' deadline='', show_u64 (sc_deadline_ns scope)])"

fun is_lock :: "body \<Rightarrow> bool" where
  "is_lock (LockBody _ _) = True"
| "is_lock _ = False"

fun is_event :: "body \<Rightarrow> bool" where
  "is_event (EventBody _) = True"
| "is_event _ = False"

text \<open>The first reason to reject a packet's scope.\<close>

definition scope_reject :: "'c bridge \<Rightarrow> packet \<Rightarrow> string option" where
  "scope_reject b packet =
     (let scope = pk_scope packet; lock = is_lock (pk_body packet) in
      if sc_nonce scope \<noteq> br_nonce b then Some ''nonce mismatch''
      else if sc_sequence scope \<le> br_sequence b then Some ''sequence not increasing''
      else if sc_generation scope \<in> br_retired b then Some ''retired generation''
      else if lock \<and> sc_generation scope \<noteq> 0 then Some ''lock generation must be global''
      else if lock \<and> sc_lock_epoch scope \<le> br_epoch b then Some ''lock epoch not advancing''
      else if \<not> lock \<and> sc_lock_epoch scope \<noteq> br_epoch b then Some ''epoch mismatch''
      else if is_event (pk_body packet) \<and> sc_generation scope = 0 then Some ''event generation zero''
      else None)"

definition bridge_validate ::
  "('c, 'w) net \<Rightarrow> packet \<Rightarrow> 'c bridge \<Rightarrow> 'w \<Rightarrow> (unit, io_error) result \<times> 'c bridge \<times> 'w" where
  "bridge_validate net packet b w =
     (let scope = pk_scope packet in
      case check_deadline net (sc_deadline_ns scope) w of
        (Err e, w) \<Rightarrow> (Err e, b, w)
      | (Ok _, w) \<Rightarrow> (case scope_reject b packet of
            Some reason \<Rightarrow> (Err (scope_error reason scope (br_nonce b) (br_sequence b) (br_epoch b)), b, w)
          | None \<Rightarrow>
              (let b = b\<lparr>br_sequence := sc_sequence scope, br_epoch := sc_lock_epoch scope\<rparr>;
                   b = (case pk_body packet of
                       LockBody state _ \<Rightarrow> b\<lparr>br_locked := (state \<noteq> 0)\<rparr>
                     | _ \<Rightarrow> b)
               in (Ok (), b, w))))"

section \<open>Handshakes\<close>

definition min_deadline :: "64 word \<Rightarrow> 64 word \<Rightarrow> 64 word" where
  "min_deadline a b = (if a \<le> b then a else b)"

definition handshake_packet ::
  "('c, 'w) net \<Rightarrow> 'c \<Rightarrow> native_identity \<Rightarrow> 64 word \<Rightarrow> bool \<Rightarrow> packet \<Rightarrow> 'w \<Rightarrow>
   ('c bridge, io_error) result \<times> 'w" where
  "handshake_packet net transport expected deadline_ns passive hello w = (case pk_body hello of
      HelloBody identity \<Rightarrow>
        (let scope = pk_scope hello;
             (checked, w) = (if passive then
                 (if sc_lock_epoch scope \<noteq> 0 \<or> sc_deadline_ns scope \<noteq> 0 then Err invalid else Ok (), w)
               else check_deadline net (sc_deadline_ns scope) w)
         in case checked of
             Err e \<Rightarrow> (Err e, w)
           | Ok _ \<Rightarrow>
               if identity \<noteq> expected \<or> ni_api_hash identity = [] \<or> ni_artifact identity = [] \<or>
                  sc_generation scope \<noteq> 0 \<or> sc_sequence scope \<noteq> 0 \<or> sc_nonce scope = 0
               then (Err invalid, w)
               else
                 (let ack = \<lparr>pk_scope = scope, pk_body = HelloAckBody (identity\<lparr>ni_capabilities := 0\<rparr>)\<rparr>
                  in case net_send net transport ack
                           (if passive then deadline_ns else min_deadline deadline_ns (sc_deadline_ns scope)) w of
                      (Err e, w) \<Rightarrow> (Err e, w)
                    | (Ok _, w) \<Rightarrow>
                        (Ok \<lparr>br_transport = Some transport, br_nonce = sc_nonce scope,
                             br_epoch = sc_lock_epoch scope, br_sequence = 0, br_retired = {},
                             br_previous_nonces = {}, br_awaiting_reconciliation = True,
                             br_locked = False\<rparr>, w)))
    | _ \<Rightarrow> (Err invalid, w))"

definition handshake_inner ::
  "('c, 'w) net \<Rightarrow> 'c \<Rightarrow> native_identity \<Rightarrow> 64 word \<Rightarrow> bool \<Rightarrow> 'w \<Rightarrow> ('c bridge, io_error) result \<times> 'w" where
  "handshake_inner net transport expected deadline_ns passive w =
     (case net_receive net transport deadline_ns w of
        (Err e, w) \<Rightarrow> (Err e, w)
      | (Ok hello, w) \<Rightarrow> handshake_packet net transport expected deadline_ns passive hello w)"

definition handshake ::
  "('c, 'w) net \<Rightarrow> 'c \<Rightarrow> native_identity \<Rightarrow> 64 word \<Rightarrow> 'w \<Rightarrow> ('c bridge, io_error) result \<times> 'w" where
  "handshake net transport expected deadline_ns w =
     handshake_inner net transport expected deadline_ns False w"

definition passive_handshake ::
  "('c, 'w) net \<Rightarrow> 'c \<Rightarrow> native_identity \<Rightarrow> 64 word \<Rightarrow> 'w \<Rightarrow> ('c bridge, io_error) result \<times> 'w" where
  "passive_handshake net transport expected deadline_ns w =
     (if ni_capabilities expected \<noteq> 0 then (Err invalid, w)
      else handshake_inner net transport expected deadline_ns True w)"

definition request_reconciliation :: "'h event_handler \<Rightarrow> 'c bridge \<Rightarrow> 'h \<Rightarrow> 'c bridge \<times> 'h" where
  "request_reconciliation H b h =
     (b\<lparr>br_transport := None, br_awaiting_reconciliation := True\<rparr>, eh_disconnected H h)"

definition reconnect ::
  "('c, 'w) net \<Rightarrow> 'c \<Rightarrow> native_identity \<Rightarrow> 64 word \<Rightarrow> 'c bridge \<Rightarrow> 'w \<Rightarrow>
   (unit, io_error) result \<times> 'c bridge \<times> 'w" where
  "reconnect net transport expected deadline_ns b w =
     (if ni_capabilities expected \<noteq> 0 \<or> br_transport b \<noteq> None \<or>
         MAX_CONNECTION_NONCES \<le> card (br_previous_nonces b)
      then (Err invalid, b, w)
      else case net_receive net transport deadline_ns w of
          (Err e, w) \<Rightarrow> (Err e, b, w)
        | (Ok hello, w) \<Rightarrow>
            if sc_nonce (pk_scope hello) = br_nonce b \<or> sc_nonce (pk_scope hello) \<in> br_previous_nonces b
            then (Err invalid, b, w)
            else (case handshake_packet net transport expected deadline_ns True hello w of
                (Err e, w) \<Rightarrow> (Err e, b, w)
              | (Ok fresh, w) \<Rightarrow>
                  (Ok (), b\<lparr>br_previous_nonces := insert (br_nonce b) (br_previous_nonces b),
                            br_nonce := br_nonce fresh, br_sequence := 0,
                            br_transport := br_transport fresh,
                            br_awaiting_reconciliation := True\<rparr>, w)))"

section \<open>Events\<close>

text \<open>An acknowledgement must repeat the scope and the event and must fit the decision.\<close>

definition outcome_fits :: "scope \<Rightarrow> native_event \<Rightarrow> decision \<Rightarrow> packet \<Rightarrow> (outcome, io_error) result" where
  "outcome_fits scope event decision ack = (case pk_body ack of
      OutcomeBody oc \<Rightarrow>
        if pk_scope ack \<noteq> scope \<or> oc_key oc \<noteq> ne_key event \<or> oc_state oc \<noteq> ne_state event \<or>
           oc_focus_epoch oc \<noteq> ne_focus_epoch event \<or>
           (oc_result oc = Replaced \<and> (case decision of ReplaceDecision _ _ \<Rightarrow> False | _ \<Rightarrow> True)) \<or>
           (ne_state event = 1 \<and> oc_result oc = SwallowCommitted \<and> decision \<noteq> SwallowDecision)
        then Err invalid
        else Ok oc
    | _ \<Rightarrow> Err invalid)"

text \<open>From the sent decision to the delivered report.\<close>

definition await_outcome ::
  "('c, 'w) net \<Rightarrow> 'h event_handler \<Rightarrow> 'c \<Rightarrow> scope \<Rightarrow> native_event \<Rightarrow> decision \<Rightarrow> 64 word \<Rightarrow> causal_trace \<Rightarrow>
   'h \<Rightarrow> 'w \<Rightarrow> ((unit, io_error) result \<times> causal_trace) \<times> 'h \<times> 'w" where
  "await_outcome net H transport scope event decision deadline trace h w =
     (let (received, w) = net_receive net transport deadline w;
          (result, trace, w) = (case received of
              Err e \<Rightarrow> (Err e, trace, w)
            | Ok ack \<Rightarrow> let (now, w) = clock_ok net w in
                (outcome_fits scope event decision ack, trace\<lparr>ct_outcome_received_ns := now\<rparr>, w));
          report = (case result of Ok oc \<Rightarrow> Acknowledged oc | Err _ \<Rightarrow> UncertainReport);
          trace = (case report of
              Acknowledged _ \<Rightarrow> trace\<lparr>ct_terminal := AcknowledgedTerminal\<rparr>
            | UncertainReport \<Rightarrow> trace);
          h = eh_delivery H scope event decision report h
      in ((case result of
             Ok oc \<Rightarrow> if oc_result oc = PartialUncertainFatal
               then Err (ConnectionAborted ''native partial output requires reconciliation'') else Ok ()
           | Err e \<Rightarrow> Err e, trace), h, w))"

definition send_decision ::
  "('c, 'w) net \<Rightarrow> 'h event_handler \<Rightarrow> 'c bridge \<Rightarrow> scope \<Rightarrow> native_event \<Rightarrow> decision \<Rightarrow> research_fault \<Rightarrow>
   64 word \<Rightarrow> causal_trace \<Rightarrow> 'h \<Rightarrow> 'w \<Rightarrow> ((unit, io_error) result \<times> causal_trace) \<times> 'h \<times> 'w" where
  "send_decision net H b scope event decision fault deadline trace h w = (case br_transport b of
      None \<Rightarrow> ((Err invalid, trace), h, w)
    | Some transport \<Rightarrow>
        (let (start, w) = clock_ok net w;
             trace = trace\<lparr>ct_decision_send_start_ns := start\<rparr>;
             (sent, w) = net_send net transport \<lparr>pk_scope = scope, pk_body = DecisionBody decision\<rparr> deadline w;
             (returned, w) = clock_ok net w;
             trace = trace\<lparr>ct_decision_send_return_ns := returned\<rparr>
         in case sent of
             Err e \<Rightarrow> ((Err e, trace), eh_delivery H scope event decision UncertainReport h, w)
           | Ok _ \<Rightarrow>
               (let trace = trace\<lparr>ct_decision_sent_ns := returned\<rparr> in
                if fault = DisconnectAfterDecision
                then ((Err (ConnectionAborted ''selected disconnect after decision''), trace),
                      eh_delivery H scope event decision UncertainReport h, w)
                else await_outcome net H transport scope event decision deadline trace h w)))"

definition event_traced ::
  "('c, 'w) net \<Rightarrow> 'h event_handler \<Rightarrow> 'c bridge \<Rightarrow> scope \<Rightarrow> native_event \<Rightarrow> 64 word \<Rightarrow> bool \<Rightarrow> causal_trace \<Rightarrow>
   'h \<Rightarrow> 'w \<Rightarrow> (((unit, io_error) result \<times> causal_trace) \<times> 'h \<times> 'w) option" where
  "event_traced net H b scope event deadline_ns research trace h w =
     (case (if research \<and> \<not> br_locked b \<and>
               (ne_state event = 1 \<or> (ne_state event = 0 \<and> modifier_release_actions H h))
            then eh_propose H scope event h else Some (PassDecision, h)) of
        None \<Rightarrow> None
      | Some (decision, h) \<Rightarrow>
          (let deadline = min_deadline deadline_ns (sc_deadline_ns scope);
               (fault, h) = (if research \<and> \<not> br_locked b \<and> ne_state event = 1
                             then eh_research_fault H scope event h else (NoFault, h));
               (ready, w) = apply_before_fault net fault deadline w
           in Some (case ready of
                Err e \<Rightarrow> ((Err e, trace), eh_delivery H scope event decision UncertainReport h, w)
              | Ok _ \<Rightarrow> send_decision net H b scope event decision fault deadline trace h w)))"

definition bridge_event ::
  "('c, 'w) net \<Rightarrow> 'h event_handler \<Rightarrow> 'c bridge \<Rightarrow> scope \<Rightarrow> native_event \<Rightarrow> 64 word \<Rightarrow> bool \<Rightarrow>
   64 word option \<Rightarrow> 'h \<Rightarrow> 'w \<Rightarrow> ((unit, io_error) result \<times> 'h \<times> 'w) option" where
  "bridge_event net H b scope event deadline_ns research received_ns h w =
     (let (trace, w) = trace_received net scope w;
          trace = trace\<lparr>ct_received_ns := received_ns\<rparr>
      in case event_traced net H b scope event deadline_ns research trace h w of
          None \<Rightarrow> None
        | Some ((result, trace), h, w) \<Rightarrow>
            (let trace = (if is_ok result then trace else trace\<lparr>ct_terminal := UncertainTerminal\<rparr>);
                 (now, w) = clock_ok net w
             in Some (result, eh_causal_trace H (trace\<lparr>ct_terminal_ns := now\<rparr>) h, w)))"

section \<open>Packets\<close>

text \<open>Resets, retirements and lock changes that have passed validation. The reconciliation flag is
  raised by a global reset of reason 2 or 3 and lowered only by a reset of reason 8.\<close>

definition reconciliation_reject :: "'c bridge \<Rightarrow> scope \<Rightarrow> string option" where
  "reconciliation_reject b scope =
     (if sc_generation scope \<noteq> 0 then Some ''reconciliation generation not global''
      else if br_locked b then Some ''reconciliation while locked''
      else if \<not> br_awaiting_reconciliation b then Some ''unsolicited reconciliation reason8''
      else None)"

fun is_retire :: "body \<Rightarrow> bool" where
  "is_retire (RetireBody _) = True"
| "is_retire _ = False"

definition bridge_control ::
  "'h event_handler \<Rightarrow> bool \<Rightarrow> packet \<Rightarrow> 'c bridge \<Rightarrow> 'h \<Rightarrow> (unit, io_error) result \<times> 'c bridge \<times> 'h" where
  "bridge_control H unlocked_epoch packet b h =
     (let scope = pk_scope packet; body = pk_body packet;
          b = (if (body = ResetBody 2 \<or> body = ResetBody 3) \<and> sc_generation scope = 0
               then b\<lparr>br_awaiting_reconciliation := True\<rparr> else b);
          reject = (if body = ResetBody 8 then reconciliation_reject b scope else None)
      in case reject of
          Some reason \<Rightarrow> (Err (scope_error reason scope (br_nonce b) (br_sequence b) (br_epoch b)), b, h)
        | None \<Rightarrow>
            (let b = (if body = ResetBody 8 then b\<lparr>br_awaiting_reconciliation := False\<rparr> else b)
             in if is_retire body \<and> MAX_RETIRED_GENERATIONS \<le> card (br_retired b) then (Err invalid, b, h)
                else if is_retire body \<and> sc_generation scope \<in> br_retired b then (Err invalid, b, h)
                else
                  (let b = (if is_retire body
                            then b\<lparr>br_retired := insert (sc_generation scope) (br_retired b)\<rparr> else b);
                       h = (if unlocked_epoch then eh_unlocked_epoch H scope body h
                            else eh_reset H scope body h)
                   in (Ok (), b, h))))"

definition process_packet ::
  "('c, 'w) net \<Rightarrow> 'h event_handler \<Rightarrow> packet \<Rightarrow> 64 word \<Rightarrow> bool \<Rightarrow> 'c bridge \<Rightarrow> 'h \<Rightarrow> 'w \<Rightarrow>
   ((unit, io_error) result \<times> 'c bridge \<times> 'h \<times> 'w) option" where
  "process_packet net H packet deadline_ns research b h w =
     (let (received_ns, w) = clock_ok net w;
          unlocked_epoch = (\<not> br_locked b \<and> (case pk_body packet of LockBody state _ \<Rightarrow> state = 0 | _ \<Rightarrow> False));
          scope = pk_scope packet
      in case bridge_validate net packet b w of
          (Err e, b, w) \<Rightarrow>
            if is_event (pk_body packet) then
              (let (trace, w) = trace_received net scope w;
                   (now, w) = clock_ok net w;
                   trace = trace\<lparr>ct_received_ns := received_ns, ct_terminal := RejectedTerminal,
                     ct_terminal_ns := now\<rparr>
               in Some (Err e, b, eh_causal_trace H trace h, w))
            else Some (Err e, b, h, w)
        | (Ok _, b, w) \<Rightarrow> (case pk_body packet of
              EventBody event \<Rightarrow>
                map_option (\<lambda>(result, h, w). (result, b, h, w))
                  (bridge_event net H b scope event deadline_ns research received_ns h w)
            | ResetBody _ \<Rightarrow> (case bridge_control H unlocked_epoch packet b h of (r, b, h) \<Rightarrow> Some (r, b, h, w))
            | RetireBody _ \<Rightarrow> (case bridge_control H unlocked_epoch packet b h of (r, b, h) \<Rightarrow> Some (r, b, h, w))
            | LockBody _ _ \<Rightarrow> (case bridge_control H unlocked_epoch packet b h of (r, b, h) \<Rightarrow> Some (r, b, h, w))
            | _ \<Rightarrow> Some (Err invalid, b, h, w)))"

section \<open>Steps\<close>

text \<open>Every failure closes the connection and tells the handler.\<close>

definition close_on_error ::
  "'h event_handler \<Rightarrow> ('a, io_error) result \<times> 'c bridge \<times> 'h \<times> 'w \<Rightarrow>
   ('a, io_error) result \<times> 'c bridge \<times> 'h \<times> 'w" where
  "close_on_error H r = (case r of (result, b, h, w) \<Rightarrow>
     if is_ok result then (result, b, h, w)
     else (result, b\<lparr>br_transport := None\<rparr>, eh_disconnected H h, w))"

definition step_inner ::
  "('c, 'w) net \<Rightarrow> 'h event_handler \<Rightarrow> 64 word \<Rightarrow> bool \<Rightarrow> 'c bridge \<Rightarrow> 'h \<Rightarrow> 'w \<Rightarrow>
   ((unit, io_error) result \<times> 'c bridge \<times> 'h \<times> 'w) option" where
  "step_inner net H deadline_ns research b h w = (case br_transport b of
      None \<Rightarrow> Some (Err invalid, b, h, w)
    | Some transport \<Rightarrow> (case net_receive net transport deadline_ns w of
          (Err e, w) \<Rightarrow> Some (Err e, b, h, w)
        | (Ok packet, w) \<Rightarrow> process_packet net H packet deadline_ns research b h w))"

definition step_mode ::
  "('c, 'w) net \<Rightarrow> 'h event_handler \<Rightarrow> 64 word \<Rightarrow> bool \<Rightarrow> 'c bridge \<Rightarrow> 'h \<Rightarrow> 'w \<Rightarrow>
   ((unit, io_error) result \<times> 'c bridge \<times> 'h \<times> 'w) option" where
  "step_mode net H deadline_ns research b h w =
     map_option (close_on_error H) (step_inner net H deadline_ns research b h w)"

definition ready_inner ::
  "('c, 'w) net \<Rightarrow> 'h event_handler \<Rightarrow> 64 word \<Rightarrow> bool \<Rightarrow> 'c bridge \<Rightarrow> 'h \<Rightarrow> 'w \<Rightarrow>
   ((bool, io_error) result \<times> 'c bridge \<times> 'h \<times> 'w) option" where
  "ready_inner net H idle_deadline_ns research b h w = (case br_transport b of
      None \<Rightarrow> Some (Err invalid, b, h, w)
    | Some transport \<Rightarrow> (case net_receive_if_ready net transport idle_deadline_ns w of
          (Err e, w) \<Rightarrow> Some (Err e, b, h, w)
        | (Ok None, w) \<Rightarrow> Some (Ok False, b, h, w)
        | (Ok (Some packet), w) \<Rightarrow>
            map_option (\<lambda>(r, b, h, w). (and_then r (\<lambda>_. Ok True), b, h, w))
              (process_packet net H packet (sc_deadline_ns (pk_scope packet)) research b h w)))"

definition ready_mode ::
  "('c, 'w) net \<Rightarrow> 'h event_handler \<Rightarrow> 64 word \<Rightarrow> bool \<Rightarrow> 'c bridge \<Rightarrow> 'h \<Rightarrow> 'w \<Rightarrow>
   ((bool, io_error) result \<times> 'c bridge \<times> 'h \<times> 'w) option" where
  "ready_mode net H idle_deadline_ns research b h w =
     map_option (close_on_error H) (ready_inner net H idle_deadline_ns research b h w)"

definition passive_step_if_ready ::
  "('c, 'w) net \<Rightarrow> 'h event_handler \<Rightarrow> 64 word \<Rightarrow> 'c bridge \<Rightarrow> 'h \<Rightarrow> 'w \<Rightarrow>
   ((bool, io_error) result \<times> 'c bridge \<times> 'h \<times> 'w) option" where
  "passive_step_if_ready net H idle_deadline_ns b h w = ready_mode net H idle_deadline_ns False b h w"

definition research_step_if_ready ::
  "('c, 'w) net \<Rightarrow> 'h event_handler \<Rightarrow> 64 word \<Rightarrow> 'c bridge \<Rightarrow> 'h \<Rightarrow> 'w \<Rightarrow>
   ((bool, io_error) result \<times> 'c bridge \<times> 'h \<times> 'w) option" where
  "research_step_if_ready net H idle_deadline_ns b h w = ready_mode net H idle_deadline_ns True b h w"

definition passive_step ::
  "('c, 'w) net \<Rightarrow> 'h event_handler \<Rightarrow> 64 word \<Rightarrow> 'c bridge \<Rightarrow> 'h \<Rightarrow> 'w \<Rightarrow>
   ((unit, io_error) result \<times> 'c bridge \<times> 'h \<times> 'w) option" where
  "passive_step net H deadline_ns b h w = step_mode net H deadline_ns False b h w"

definition research_step ::
  "('c, 'w) net \<Rightarrow> 'h event_handler \<Rightarrow> 64 word \<Rightarrow> 'c bridge \<Rightarrow> 'h \<Rightarrow> 'w \<Rightarrow>
   ((unit, io_error) result \<times> 'c bridge \<times> 'h \<times> 'w) option" where
  "research_step net H deadline_ns b h w = step_mode net H deadline_ns True b h w"

definition admitted_step_if_ready ::
  "('c, 'w) net \<Rightarrow> 'h event_handler \<Rightarrow> 64 word \<Rightarrow> 'c bridge \<Rightarrow> 'h \<Rightarrow> 'w \<Rightarrow>
   ((bool, io_error) result \<times> 'c bridge \<times> 'h \<times> 'w) option" where
  "admitted_step_if_ready net H idle_deadline_ns b h w = ready_mode net H idle_deadline_ns True b h w"

section \<open>The bridge as a machine\<close>

text \<open>Everything that happens to a bridge after its first handshake: packets handled under either
  mode, explicit closing and reconnection.\<close>

datatype 'c bridge_op =
    Handle packet "64 word" bool
  | Reconnect 'c native_identity "64 word"
  | CloseBridge

datatype bridge_output =
    Handled packet "(unit, io_error) result"
  | Reconnected "(unit, io_error) result"
  | ClosedBridge

fun bridge_step ::
  "('c, 'w) net \<Rightarrow> 'h event_handler \<Rightarrow> 'c bridge_op \<Rightarrow> 'c bridge \<times> 'h \<times> 'w \<Rightarrow>
   (bridge_output \<times> 'c bridge \<times> 'h \<times> 'w) option" where
  "bridge_step net H (Handle packet deadline_ns research) (b, h, w) =
     map_option (\<lambda>r. case close_on_error H r of (result, b, h, w) \<Rightarrow> (Handled packet result, b, h, w))
       (process_packet net H packet deadline_ns research b h w)"
| "bridge_step net H (Reconnect transport expected deadline_ns) (b, h, w) =
     (case reconnect net transport expected deadline_ns b w of (r, b, w) \<Rightarrow> Some (Reconnected r, b, h, w))"
| "bridge_step net H CloseBridge (b, h, w) =
     (case request_reconciliation H b h of (b, h) \<Rightarrow> Some (ClosedBridge, b, h, w))"

text \<open>What a handled packet can change in the bridge.\<close>

definition same_history :: "'c bridge \<Rightarrow> 'c bridge \<Rightarrow> bool" where
  "same_history b b' \<longleftrightarrow> br_nonce b' = br_nonce b \<and> br_previous_nonces b' = br_previous_nonces b \<and>
     br_sequence b \<le> br_sequence b' \<and> br_epoch b \<le> br_epoch b' \<and> br_retired b \<subseteq> br_retired b'"

lemma validate_frame:
  assumes "bridge_validate net packet b w = (r, b', w')"
  shows "same_history b b'" "br_transport b' = br_transport b" "br_retired b' = br_retired b"
    "br_awaiting_reconciliation b' = br_awaiting_reconciliation b"
    "is_ok r \<Longrightarrow> scope_reject b packet = None \<and> br_sequence b' = sc_sequence (pk_scope packet)"
proof -
  have "r = Ok () \<and> scope_reject b packet = None \<and>
      b' = b\<lparr>br_sequence := sc_sequence (pk_scope packet), br_epoch := sc_lock_epoch (pk_scope packet),
        br_locked := (case pk_body packet of LockBody state _ \<Rightarrow> state \<noteq> 0 | _ \<Rightarrow> br_locked b)\<rparr> \<or>
      \<not> is_ok r \<and> b' = b"
    using assms
    by (auto simp: bridge_validate_def Let_def split: prod.splits result.splits option.splits body.splits)
  then show "same_history b b'" "br_transport b' = br_transport b" "br_retired b' = br_retired b"
    "br_awaiting_reconciliation b' = br_awaiting_reconciliation b"
    "is_ok r \<Longrightarrow> scope_reject b packet = None \<and> br_sequence b' = sc_sequence (pk_scope packet)"
    by (auto simp: same_history_def scope_reject_def Let_def split: if_splits)
qed

lemma control_frame:
  assumes "bridge_control H u packet b h = (r, b', h')"
  shows "same_history b b'" "br_transport b' = br_transport b" "br_sequence b' = br_sequence b"
  using assms
  by (auto simp: bridge_control_def same_history_def Let_def split: option.splits if_splits)

lemma process_frame:
  assumes "process_packet net H packet d research b h w = Some (r, b', h', w')"
  shows "same_history b b'" "br_transport b' = br_transport b"
    "is_ok r \<Longrightarrow> scope_reject b packet = None \<and> br_sequence b' = sc_sequence (pk_scope packet)"
proof -
  obtain t w1 where c: "clock_ok net w = (t, w1)" by fastforce
  obtain r1 b1 w2 where v: "bridge_validate net packet b w1 = (r1, b1, w2)" by (metis prod_cases3)
  note frame = validate_frame [OF v]
  have "is_ok r1 \<or> \<not> is_ok r \<and> b' = b1"
    using assms by (auto simp: process_packet_def c v Let_def split: result.splits if_splits prod.splits)
  moreover have "b' = b1 \<or> (\<exists>u h1 r2 h2. bridge_control H u packet b1 h1 = (r2, b', h2))"
    using assms by (auto simp: process_packet_def c v Let_def split: result.splits if_splits prod.splits body.splits)
  ultimately show "same_history b b'" "br_transport b' = br_transport b"
    "is_ok r \<Longrightarrow> scope_reject b packet = None \<and> br_sequence b' = sc_sequence (pk_scope packet)"
    using frame control_frame by (fastforce simp: same_history_def)+
qed

lemma close_on_error_frame:
  assumes "close_on_error H (r, b, h, w) = (r', b', h', w')"
  shows "same_history b b'" "r' = r" "br_sequence b' = br_sequence b" "is_ok r \<Longrightarrow> b' = b \<and> h' = h"
    "\<not> is_ok r \<Longrightarrow> br_transport b' = None \<and> h' = eh_disconnected H h"
  using assms by (auto simp: close_on_error_def same_history_def split: if_splits)

lemma handshake_packet_nonce:
  "handshake_packet net transport expected d passive hello w = (Ok b, w') \<Longrightarrow>
   br_nonce b = sc_nonce (pk_scope hello)"
  by (auto simp: handshake_packet_def Let_def split: body.splits prod.splits result.splits if_splits)

lemma reconnect_cases [consumes 1, case_names failed reconnected]:
  fixes b :: "'c bridge"
  assumes "reconnect net transport expected d b w = (r, b', w')"
  obtains "\<not> is_ok r" "b' = b"
  | fresh :: "'c bridge" where "r = Ok ()" "br_transport b = None" "br_nonce fresh \<noteq> br_nonce b"
    "br_nonce fresh \<notin> br_previous_nonces b"
    "b' = b\<lparr>br_previous_nonces := insert (br_nonce b) (br_previous_nonces b), br_nonce := br_nonce fresh,
       br_sequence := 0, br_transport := br_transport fresh, br_awaiting_reconciliation := True\<rparr>"
proof (cases "ni_capabilities expected \<noteq> 0 \<or> br_transport b \<noteq> None \<or>
    MAX_CONNECTION_NONCES \<le> card (br_previous_nonces b)")
  case True
  with assms show thesis by (intro that(1)) (auto simp: reconnect_def)
next
  case guard: False
  obtain received w1 where n: "net_receive net transport d w = (received, w1)" by fastforce
  show thesis
  proof (cases "\<exists>hello. received = Ok hello \<and> sc_nonce (pk_scope hello) \<noteq> br_nonce b \<and>
      sc_nonce (pk_scope hello) \<notin> br_previous_nonces b")
    case False
    with assms guard n show thesis
      by (intro that(1)) (cases received; auto simp: reconnect_def)+
  next
    case True
    then obtain hello where hello: "received = Ok hello" "sc_nonce (pk_scope hello) \<noteq> br_nonce b"
      "sc_nonce (pk_scope hello) \<notin> br_previous_nonces b"
      by blast
    obtain rf w2 where f: "handshake_packet net transport expected d True hello w1 = (rf, w2)" by fastforce
    show thesis
    proof (cases rf)
      case (Ok fresh)
      show thesis
        by (rule that(2) [of fresh])
          (use assms guard n hello f Ok handshake_packet_nonce [of net transport expected d True hello w1 fresh w2] in
            \<open>auto simp: reconnect_def\<close>)
    next
      case (Err e)
      with assms guard n hello f show thesis
        by (intro that(1)) (auto simp: reconnect_def)
    qed
  qed
qed

text \<open>A pair of nonce and sequence number is spent if it belongs to an earlier connection or is not
  beyond the last one accepted on the current connection.\<close>

definition spent_scope :: "'c bridge \<times> 'h \<times> 'w \<Rightarrow> 64 word \<times> 64 word \<Rightarrow> bool" where
  "spent_scope s k \<longleftrightarrow> (case s of (b, _) \<Rightarrow>
     fst k \<in> br_previous_nonces b \<or> fst k = br_nonce b \<and> snd k \<le> br_sequence b)"

fun accepted_scope :: "bridge_output \<Rightarrow> (64 word \<times> 64 word) option" where
  "accepted_scope (Handled packet (Ok _)) = Some (sc_nonce (pk_scope packet), sc_sequence (pk_scope packet))"
| "accepted_scope _ = None"

fun refuses_generation :: "64 word \<Rightarrow> bridge_output \<Rightarrow> bool" where
  "refuses_generation g (Handled packet (Ok _)) \<longleftrightarrow> sc_generation (pk_scope packet) \<noteq> g"
| "refuses_generation g _ \<longleftrightarrow> True"

text \<open>The nonce in use is never one of the earlier ones.\<close>

definition bridge_inv :: "'c bridge \<times> 'h \<times> 'w \<Rightarrow> bool" where
  "bridge_inv s \<longleftrightarrow> br_nonce (fst s) \<notin> br_previous_nonces (fst s)"

lemma bridge_step_cases [consumes 1, case_names handled reconnected closed]:
  assumes "bridge_step net H op (b, h, w) = Some (out, b', h', w')"
  obtains packet d research r b1 h1 where "op = Handle packet d research" "out = Handled packet r"
    "process_packet net H packet d research b h w = Some (r, b1, h1, w')"
    "close_on_error H (r, b1, h1, w') = (r, b', h', w')"
  | transport expected d r where "op = Reconnect transport expected d" "out = Reconnected r"
    "reconnect net transport expected d b w = (r, b', w')" "h' = h"
  | "op = CloseBridge" "b' = b\<lparr>br_transport := None, br_awaiting_reconciliation := True\<rparr>"
    "h' = eh_disconnected H h" "out = ClosedBridge"
proof (cases op)
  case (Handle packet d research)
  with assms obtain r b1 h1 w1 where p: "process_packet net H packet d research b h w = Some (r, b1, h1, w1)"
    by auto
  moreover obtain r' b2 h2 w2 where "close_on_error H (r, b1, h1, w1) = (r', b2, h2, w2)"
    by (metis prod_cases4)
  ultimately have "close_on_error H (r, b1, h1, w1) = (r', b', h', w')" "out = Handled packet r'"
    using assms Handle by simp_all
  note p = p this
  from p(2) have "r' = r" "w' = w1"
    by (auto simp: close_on_error_def split: if_splits)
  with Handle p show thesis by (intro that(1)) simp_all
next
  case (Reconnect transport expected d)
  with assms obtain r where "reconnect net transport expected d b w = (r, b', w')" "out = Reconnected r" "h' = h"
    by (auto split: prod.splits)
  with Reconnect show thesis by (intro that(2)) simp_all
next
  case CloseBridge
  with assms show thesis by (intro that(3)) (auto simp: request_reconciliation_def)
qed

lemma handled_frame:
  assumes "process_packet net H packet d research b h w = Some (r, b1, h1, w')"
    and "close_on_error H (r, b1, h1, w') = (r, b', h', w')"
  shows "same_history b b'" "is_ok r \<Longrightarrow> scope_reject b packet = None \<and> br_sequence b' = sc_sequence (pk_scope packet)"
  using process_frame [OF assms(1)] close_on_error_frame [OF assms(2)] by (auto simp: same_history_def)

lemma accepted_scope_Some:
  "accepted_scope out = Some k \<longleftrightarrow>
     (\<exists>packet. out = Handled packet (Ok ()) \<and> k = (sc_nonce (pk_scope packet), sc_sequence (pk_scope packet)))"
  by (cases out rule: accepted_scope.cases) auto

lemma bridge_step_spent:
  assumes "bridge_inv (b, h, w)" and "bridge_step net H op (b, h, w) = Some (out, b', h', w')"
  shows "bridge_inv (b', h', w') \<and>
    (spent_scope (b, h, w) k \<longrightarrow> spent_scope (b', h', w') k) \<and>
    (accepted_scope out = Some k \<longrightarrow> \<not> spent_scope (b, h, w) k \<and> spent_scope (b', h', w') k) \<and>
    (g \<in> br_retired b \<longrightarrow> g \<in> br_retired b' \<and> refuses_generation g out)"
  using assms(2)
proof (cases rule: bridge_step_cases)
  case (handled packet d research r b1 h1)
  note frame = handled_frame [OF handled(3,4)]
  have "is_ok r \<Longrightarrow> sc_nonce (pk_scope packet) = br_nonce b \<and> br_sequence b < sc_sequence (pk_scope packet) \<and>
      sc_generation (pk_scope packet) \<notin> br_retired b"
    using frame(2) by (auto simp: scope_reject_def Let_def split: if_splits)
  with frame assms(1) show ?thesis
    by (cases r) (auto simp: handled(2) same_history_def bridge_inv_def spent_scope_def accepted_scope_Some)
next
  case (reconnected transport expected d r)
  from reconnected(3) show ?thesis
    by (cases rule: reconnect_cases)
      (use assms(1) reconnected(2) in \<open>auto simp: bridge_inv_def spent_scope_def\<close>)
next
  case closed
  with assms(1) show ?thesis
    by (auto simp: bridge_inv_def spent_scope_def)
qed

interpretation bridge_machine: fresh_issuer "bridge_step net H" bridge_inv spent_scope accepted_scope for net H
proof unfold_locales
  fix s op out s' k
  assume a: "bridge_inv s" "bridge_step net H op s = Some (out, s')"
  obtain b h w b' h' w' where s: "s = (b, h, w)" "s' = (b', h', w')" by (metis prod_cases3)
  note step = bridge_step_spent [of b h w net H op out b' h' w' k, folded s, OF a]
  show "bridge_inv s'" "spent_scope s k \<Longrightarrow> spent_scope s' k"
    "accepted_scope out = Some k \<Longrightarrow> \<not> spent_scope s k \<and> spent_scope s' k"
    using step by blast+
qed

interpretation retired_generation: stable_fact "bridge_step net H" bridge_inv
    "\<lambda>s. g \<in> br_retired (fst s)" "\<lambda>_. False" "\<lambda>_. refuses_generation g" for net H g
proof unfold_locales
  fix s op out s'
  assume a: "bridge_inv s" "g \<in> br_retired (fst s)" "bridge_step net H op s = Some (out, s')"
  obtain b h w b' h' w' where s: "s = (b, h, w)" "s' = (b', h', w')" by (metis prod_cases3)
  note step = bridge_step_spent [of b h w net H op out b' h' w' _ g, folded s, OF a(1,3)]
  show "g \<in> br_retired (fst s')" "refuses_generation g out"
    using step a(2) by (simp_all add: s)
qed

section \<open>Handlers that open and close proposals\<close>

text \<open>What the bridge's correctness asks of a handler: a proposal may leave a transaction open for its
  scope and event, a delivery for that scope and event closes it, and nothing else opens one. Under
  these laws the bridge leaves no transaction open after a step.\<close>

locale proposal_handler =
  fixes H :: "'h event_handler"
    and inv :: "'h \<Rightarrow> bool"
    and idle :: "'h \<Rightarrow> bool"
    and open_for :: "scope \<Rightarrow> native_event \<Rightarrow> 'h \<Rightarrow> bool"
  assumes idle_open: "inv h \<Longrightarrow> idle h \<Longrightarrow> open_for s e h"
    and propose_opens: "inv h \<Longrightarrow> idle h \<Longrightarrow> eh_propose H s e h = Some (d, h') \<Longrightarrow>
      ne_state e = 1 \<or> ne_state e = 0 \<Longrightarrow> inv h' \<and> open_for s e h'"
    and fault_open: "inv h \<Longrightarrow> open_for s e h \<Longrightarrow> eh_research_fault H s e h = (f, h') \<Longrightarrow> inv h' \<and> open_for s e h'"
    and delivery_closes: "inv h \<Longrightarrow> open_for s e h \<Longrightarrow> inv (eh_delivery H s e d r h) \<and> idle (eh_delivery H s e d r h)"
    and trace_idle: "inv h \<Longrightarrow> idle h \<Longrightarrow> inv (eh_causal_trace H t h) \<and> idle (eh_causal_trace H t h)"
    and reset_idle: "inv h \<Longrightarrow> idle h \<Longrightarrow> inv (eh_reset H s b h) \<and> idle (eh_reset H s b h)"
    and unlocked_idle: "inv h \<Longrightarrow> idle h \<Longrightarrow> inv (eh_unlocked_epoch H s b h) \<and> idle (eh_unlocked_epoch H s b h)"
    and disconnected_idle: "inv h \<Longrightarrow> idle h \<Longrightarrow> inv (eh_disconnected H h) \<and> idle (eh_disconnected H h)"
begin

lemma await_outcome_closes:
  "inv h \<Longrightarrow> open_for s e h \<Longrightarrow> await_outcome net H t s e d deadline trace h w = ((rr, tr), h', w') \<Longrightarrow> inv h' \<and> idle h'"
  using delivery_closes by (auto simp: await_outcome_def Let_def split: prod.splits)

lemma send_decision_closes:
  assumes "inv h" and "open_for s e h" and "br_transport b \<noteq> None"
    and "send_decision net H b s e d f deadline trace h w = ((rr, tr), h', w')"
  shows "inv h' \<and> idle h'"
proof -
  obtain t where "br_transport b = Some t" using assms(3) by auto
  with assms delivery_closes [OF assms(1,2)] show ?thesis
    by (auto simp: send_decision_def Let_def split: prod.splits result.splits if_splits
        dest: await_outcome_closes [OF assms(1,2)])
qed

lemma event_traced_closes:
  assumes "inv h" and "idle h" and "br_transport b \<noteq> None"
    and "event_traced net H b s e deadline research trace h w = Some ((rr, tr), h', w')"
  shows "inv h' \<and> idle h'"
proof -
  obtain d h1 where p: "(if research \<and> \<not> br_locked b \<and> (ne_state e = 1 \<or> (ne_state e = 0 \<and> modifier_release_actions H h))
      then eh_propose H s e h else Some (PassDecision, h)) = Some (d, h1)"
    using assms(4) by (auto simp: event_traced_def split: option.splits)
  then have "inv h1 \<and> open_for s e h1"
    using assms(1,2) propose_opens [OF assms(1,2), of s e d h1] idle_open [OF assms(1,2)] by (auto split: if_splits)
  moreover obtain f h2 where f: "(if research \<and> \<not> br_locked b \<and> ne_state e = 1
      then eh_research_fault H s e h1 else (NoFault, h1)) = (f, h2)"
    by (rule prod.exhaust)
  ultimately have h2: "inv h2" "open_for s e h2"
    using fault_open [of h1 s e f h2] by (simp_all split: if_splits)
  obtain ready w1 where r: "apply_before_fault net f (min_deadline deadline (sc_deadline_ns s)) w = (ready, w1)"
    by (rule prod.exhaust)
  have "(case ready of
        Err e1 \<Rightarrow> ((Err e1, trace), eh_delivery H s e d UncertainReport h2, w1)
      | Ok _ \<Rightarrow> send_decision net H b s e d f (min_deadline deadline (sc_deadline_ns s)) trace h2 w1) =
      ((rr, tr), h', w')"
    using assms(4) by (simp only: event_traced_def p f r Let_def option.case prod.case option.inject)
  with delivery_closes [OF h2] show ?thesis
    by (cases ready) (auto dest: send_decision_closes [OF h2 assms(3)])
qed

lemma bridge_control_idle:
  "inv h \<Longrightarrow> idle h \<Longrightarrow> bridge_control H u packet b h = (r, b', h') \<Longrightarrow> inv h' \<and> idle h'"
  using reset_idle unlocked_idle
  by (auto simp: bridge_control_def Let_def split: option.splits if_splits)

lemma bridge_event_closes:
  assumes "inv h" and "idle h" and "br_transport b \<noteq> None"
    and "bridge_event net H b s e deadline research t h w = Some (r, h', w')"
  shows "inv h' \<and> idle h'"
  using assms(4)
  by (auto simp: bridge_event_def Let_def trace_idle split: prod.splits option.splits
      dest!: event_traced_closes [OF assms(1-3)])

lemma process_packet_closes:
  assumes "inv h" and "idle h" and "br_transport b \<noteq> None"
    and "process_packet net H packet deadline research b h w = Some (r, b', h', w')"
  shows "inv h' \<and> idle h'"
proof -
  obtain t w1 where c: "clock_ok net w = (t, w1)" by fastforce
  obtain r1 b1 w2 where v: "bridge_validate net packet b w1 = (r1, b1, w2)" by (metis prod_cases3)
  have b1: "br_transport b1 \<noteq> None"
    using validate_frame(2) [OF v] assms(3) by simp
  show ?thesis
  proof (cases r1)
    case (Err e)
    with assms(4) trace_idle [OF assms(1,2)] assms(1,2) show ?thesis
      by (auto simp: process_packet_def c v Let_def split: if_splits prod.splits)
  next
    case (Ok u)
    with assms(1,2,4) b1 show ?thesis
      by (auto simp: process_packet_def c v Let_def split: body.splits prod.splits
          dest: bridge_event_closes [OF assms(1,2), rotated] bridge_control_idle [OF assms(1,2)])
  qed
qed

lemma ready_mode_closes:
  assumes "inv h" and "idle h" and "ready_mode net H deadline research b h w = Some (r, b', h', w')"
  shows "inv h' \<and> idle h'"
proof -
  obtain r1 b1 h1 w1 where s: "ready_inner net H deadline research b h w = Some (r1, b1, h1, w1)"
    "close_on_error H (r1, b1, h1, w1) = (r, b', h', w')"
    using assms(3) by (auto simp: ready_mode_def)
  have "inv h1 \<and> idle h1"
    using s(1) assms(1,2)
    by (auto simp: ready_inner_def split: option.splits prod.splits result.splits
        dest: process_packet_closes [OF assms(1,2), rotated])
  with s(2) disconnected_idle show ?thesis
    using close_on_error_frame(4,5) [OF s(2)] by (cases "is_ok r1") auto
qed

end

text \<open>What a step in passive mode does not depend on.\<close>

lemma passive_irrelevant:
  "ready_mode net (H\<lparr>eh_propose := p, eh_research_fault := f, modifier_release_actions := m\<rparr>) deadline False b h w =
   ready_mode net H deadline False b h w"
proof -
  let ?H = "H\<lparr>eh_propose := p, eh_research_fault := f, modifier_release_actions := m\<rparr>"
  have kept: "eh_causal_trace ?H = eh_causal_trace H" "eh_delivery ?H = eh_delivery H" "eh_reset ?H = eh_reset H"
    "eh_unlocked_epoch ?H = eh_unlocked_epoch H" "eh_disconnected ?H = eh_disconnected H"
    by simp_all
  have send: "send_decision net ?H b s e d fault dl tr h w = send_decision net H b s e d fault dl tr h w"
    for b s e d fault dl tr h w
    unfolding send_decision_def await_outcome_def kept ..
  have event: "event_traced net ?H b s e dl False tr h w = event_traced net H b s e dl False tr h w"
    for b s e dl tr h w
    unfolding event_traced_def kept send by simp
  have packet: "process_packet net ?H packet dl False b h w = process_packet net H packet dl False b h w"
    for packet dl b h w
    unfolding process_packet_def bridge_event_def bridge_control_def kept event ..
  show ?thesis
    unfolding ready_mode_def ready_inner_def close_on_error_def kept packet ..
qed

section \<open>Properties\<close>

text \<open>A connection whose clock stands still and a handler that counts its calls, for the examples.\<close>

definition ex_net :: "(unit, unit) net" where
  "ex_net = \<lparr>net_receive = (\<lambda>_ _ w. (Err (TimedOut []), w)), net_receive_if_ready = (\<lambda>_ _ w. (Ok None, w)),
     net_send = (\<lambda>_ _ _ w. (Ok (), w)), monotonic_ns = (\<lambda>w. (Ok 1000, w)), sleep_ns = (\<lambda>_ w. w)\<rparr>"

definition ex_handler :: "nat event_handler" where
  "ex_handler = \<lparr>modifier_release_actions = (\<lambda>_. False), eh_propose = (\<lambda>_ _ h. Some (SwallowDecision, h)),
     eh_causal_trace = (\<lambda>_ h. h), eh_research_fault = (\<lambda>_ _ h. (NoFault, h)),
     eh_delivery = (\<lambda>_ _ _ _ h. h + 1), eh_reset = (\<lambda>_ _ h. h + 1), eh_unlocked_epoch = (\<lambda>_ _ h. h + 1),
     eh_disconnected = (\<lambda>h. h + 100)\<rparr>"

definition ex_bridge :: "unit bridge" where
  "ex_bridge = \<lparr>br_transport = Some (), br_nonce = 7, br_epoch = 0, br_sequence = 0, br_retired = {3},
     br_previous_nonces = {}, br_awaiting_reconciliation = True, br_locked = False\<rparr>"

definition ex_packet :: "64 word \<Rightarrow> 64 word \<Rightarrow> body \<Rightarrow> packet" where
  "ex_packet g q body = \<lparr>pk_scope = \<lparr>sc_generation = g, sc_lock_epoch = 0, sc_sequence = q, sc_deadline_ns = 1009,
     sc_nonce = 7\<rparr>, pk_body = body\<rparr>"

lemmas ex_bridge_simps = ex_net_def ex_handler_def ex_bridge_def ex_packet_def process_packet_def bridge_validate_def
  check_deadline_def MAX_WAIT_NS_def clock_ok_def ok_value_def scope_reject_def bridge_control_def
  close_on_error_def trace_received_def Let_def

text \<open>C29: No packet is accepted twice: over the whole life of a bridge, reconnections included, the pairs
  of connection nonce and sequence number of the packets it accepts are all different.\<close>

theorem no_packet_accepted_twice:
  assumes "bridge_inv s" and "run_steps (bridge_step net H) ops s = Some (outs, s')"
  shows "distinct (List.map_filter accepted_scope outs)"
  using bridge_machine.run_accepted [OF assms] by simp

theorem no_packet_accepted_twice_witness:
  "\<exists>e s'. run_steps (bridge_step ex_net ex_handler) [Handle (ex_packet 0 1 (ResetBody 5)) 9 False,
       Handle (ex_packet 0 1 (ResetBody 5)) 9 False] (ex_bridge, 0, ()) =
     Some ([Handled (ex_packet 0 1 (ResetBody 5)) (Ok ()), Handled (ex_packet 0 1 (ResetBody 5)) (Err e)], s') \<and>
   distinct (List.map_filter accepted_scope
     [Handled (ex_packet 0 1 (ResetBody 5)) (Ok ()), Handled (ex_packet 0 1 (ResetBody 5)) (Err e)])"
proof -
  obtain e s' where r: "run_steps (bridge_step ex_net ex_handler) [Handle (ex_packet 0 1 (ResetBody 5)) 9 False,
       Handle (ex_packet 0 1 (ResetBody 5)) 9 False] (ex_bridge, 0, ()) =
     Some ([Handled (ex_packet 0 1 (ResetBody 5)) (Ok ()), Handled (ex_packet 0 1 (ResetBody 5)) (Err e)], s')"
    by (simp add: ex_bridge_simps)
  moreover have "bridge_inv (ex_bridge, 0 :: nat, ())"
    by (simp add: bridge_inv_def ex_bridge_def)
  ultimately show ?thesis
    using no_packet_accepted_twice [OF _ r] by blast
qed

text \<open>A retired generation stays retired: once a bridge has accepted its retirement, no packet of
  that generation is ever accepted again, not even after reconnecting under another nonce.\<close>

lemma retired_generation_refused:
  assumes "bridge_inv s" and "g \<in> br_retired (fst s)" and "run_steps (bridge_step net H) ops s = Some (outs, s')"
  shows "list_all (refuses_generation g) outs \<and> g \<in> br_retired (fst s')"
  using retired_generation.run_fact [OF assms(1,2) _ assms(3)]
  by (auto simp: list_all_length list_all2_conv_all_nth)

text \<open>C30: A failed step fails closed: if a step returns an error, the connection is gone and the handler
  has been told, and every later step on that bridge returns an error without receiving, deciding or
  sending anything, until it is reconnected.\<close>

theorem failed_step_fails_closed:
  assumes "ready_mode net H deadline research b h w = Some (Err e, b', h', w')"
  shows "br_transport b' = None \<and> (\<exists>h1. h' = eh_disconnected H h1) \<and>
    ready_mode net H deadline' research' b' h' w' = Some (Err invalid, b', eh_disconnected H h', w')"
proof -
  obtain r1 b1 h1 w1 where "ready_inner net H deadline research b h w = Some (r1, b1, h1, w1)"
    "close_on_error H (r1, b1, h1, w1) = (Err e, b', h', w')"
    using assms by (auto simp: ready_mode_def)
  then have c: "br_transport b' = None" "h' = eh_disconnected H h1"
    by (auto simp: close_on_error_def split: if_splits)
  then show ?thesis
    by (auto simp: ready_mode_def ready_inner_def close_on_error_def)
qed

theorem failed_step_fails_closed_witness:
  "\<exists>b' h' w'. ready_mode (ex_net\<lparr>net_receive_if_ready := \<lambda>_ _ w. (Err (ConnectionReset []), w)\<rparr>) ex_handler 5 True
      ex_bridge 0 () = Some (Err (ConnectionReset []), b', h', w') \<and> br_transport b' = None"
proof -
  let ?net = "ex_net\<lparr>net_receive_if_ready := \<lambda>_ _ w. (Err (ConnectionReset []), w)\<rparr>"
  obtain b' h' w' where r: "ready_mode ?net ex_handler 5 True ex_bridge 0 () = Some (Err (ConnectionReset []), b', h', w')"
    by (simp add: ready_mode_def ready_inner_def ex_bridge_simps)
  from failed_step_fails_closed [OF this] r show ?thesis
    by blast
qed

text \<open>C31: The passive mode never consults the handler for a decision: replacing the handler's proposal,
  fault and release methods by any others changes nothing in what a passive step does and sends.\<close>

theorem passive_mode_never_proposes:
  "passive_step_if_ready net (H\<lparr>eh_propose := p, eh_research_fault := f, modifier_release_actions := m\<rparr>) deadline b h w =
   passive_step_if_ready net H deadline b h w"
  by (simp add: passive_step_if_ready_def passive_irrelevant)

end
