(* ===== verification/Transport.thy ===== *)
theory Transport
  imports World Bridge
begin

unbundle bit_operations_syntax

text \<open>
  The packet transport and the private listener of the compositor connection,
  \<^verbatim>\<open>packages/linux/src/hyprland/transport.rs\<close> and \<^verbatim>\<open>listener.rs\<close>, over the system calls of
  \<^verbatim>\<open>World\<close>. The waiting loops are partial functions; they are shown to return when time passes.
\<close>

section \<open>Clock and errors\<close>

record peer =
  pr_uid :: "32 word"
  pr_pid :: "32 word"

definition transport_monotonic_ns :: "('c, 'w) os \<Rightarrow> ('w, 64 word) io" where
  "transport_monotonic_ns os = io_bind (io_sys (os_clock_gettime os)) (\<lambda>(tv_sec, tv_nsec).
     io_of (if sint tv_sec < 0 \<or> 2 ^ 64 \<le> unat tv_sec * 1000000000 \<or> sint tv_nsec < 0 \<or>
               2 ^ 64 \<le> unat tv_sec * 1000000000 + unat tv_nsec
            then Err invalid else Ok (of_nat (unat tv_sec * 1000000000 + unat tv_nsec))))"

definition timeout_error :: io_error where
  "timeout_error = TimedOut ''Hyprland aggregate deadline expired''"

definition disconnected_error :: io_error where
  "disconnected_error = ConnectionReset ''Hyprland peer disconnected''"

definition denied_error :: io_error where
  "denied_error = PermissionDenied ''Hyprland endpoint/peer identity rejected''"

text \<open>The check that ends every deadline-bound operation.\<close>

definition before_deadline :: "('c, 'w) os \<Rightarrow> 64 word \<Rightarrow> io_error \<Rightarrow> ('w, unit) io" where
  "before_deadline os deadline_ns late = io_bind (transport_monotonic_ns os)
     (\<lambda>now. io_ensure (now < deadline_ns) late)"

section \<open>Waiting\<close>

definition poll_millis :: "64 word \<Rightarrow> 16 word" where
  "poll_millis left = of_nat (min ((unat left + 999999) div 1000000) 65535)"

partial_function (option) wait_ready ::
  "('c, 'w) os \<Rightarrow> 'c \<Rightarrow> 16 word \<Rightarrow> 64 word \<Rightarrow> 'w \<Rightarrow> ((16 word, io_error) result \<times> 'w) option" where
  [code]: "wait_ready os fd flags deadline_ns w = io_bind (transport_monotonic_ns os) (\<lambda>now w.
     if deadline_ns \<le> now then Some (Err timeout_error, w)
     else (case os_poll os fd flags (poll_millis (deadline_ns - now)) w of
         (Ok (ready, revents), w) \<Rightarrow>
           if ready = 0 then wait_ready os fd flags deadline_ns w
           else io_seq (before_deadline os deadline_ns timeout_error)
             (io_of (Ok (case revents of None \<Rightarrow> 0 | Some events \<Rightarrow> events))) w
       | (Err n, w) \<Rightarrow>
           if n = EINTR then wait_ready os fd flags deadline_ns w else Some (Err (OsError n), w))) w"

definition transport_wait :: "('c, 'w) os \<Rightarrow> 'c \<Rightarrow> 16 word \<Rightarrow> 64 word \<Rightarrow> ('w, unit) io" where
  "transport_wait os fd flags deadline_ns = io_bind (wait_ready os fd flags deadline_ns)
     (\<lambda>readiness. io_ensure (readiness AND flags = flags) disconnected_error)"

definition wait_readable :: "('c, 'w) os \<Rightarrow> 'c \<Rightarrow> 64 word \<Rightarrow> ('w, unit) io" where
  "wait_readable os fd deadline_ns = transport_wait os fd POLLIN deadline_ns"

section \<open>Packets\<close>

partial_function (option) receive ::
  "('c, 'w) os \<Rightarrow> 'c \<Rightarrow> 64 word \<Rightarrow> 'w \<Rightarrow> ((packet, io_error) result \<times> 'w) option" where
  [code]: "receive os fd deadline_ns w = io_bind (transport_wait os fd POLLIN deadline_ns) (\<lambda>_ w.
     (case os_recv os fd w of
         (Ok (n, bytes), w) \<Rightarrow>
           if n = 0 then Some (Err (UnexpectedEof ''Hyprland peer disconnected''), w)
           else if n = PACKET_SIZE
           then io_seq (before_deadline os deadline_ns timeout_error) (io_of (decode bytes)) w
           else Some (Err invalid, w)
       | (Err n, w) \<Rightarrow>
           if n = EAGAIN \<or> n = EINTR then receive os fd deadline_ns w else Some (Err (OsError n), w))) w"

definition receive_if_ready :: "('c, 'w) os \<Rightarrow> 'c \<Rightarrow> 64 word \<Rightarrow> ('w, packet option) io" where
  "receive_if_ready os fd deadline_ns w = (case transport_wait os fd POLLIN deadline_ns w of
      None \<Rightarrow> None
    | Some (Ok _, w) \<Rightarrow> io_bind (receive os fd deadline_ns) (\<lambda>packet. io_of (Ok (Some packet))) w
    | Some (Err e, w) \<Rightarrow> if kind_of e = TimedOutKind then Some (Ok None, w) else Some (Err e, w))"

partial_function (option) send_bytes ::
  "('c, 'w) os \<Rightarrow> 'c \<Rightarrow> byte list \<Rightarrow> 64 word \<Rightarrow> 'w \<Rightarrow> ((unit, io_error) result \<times> 'w) option" where
  [code]: "send_bytes os fd bytes deadline_ns w = io_bind (transport_wait os fd POLLOUT deadline_ns) (\<lambda>_ w.
     (case os_send os fd bytes w of
         (Ok n, w) \<Rightarrow>
           if n = PACKET_SIZE then before_deadline os deadline_ns timeout_error w
           else Some (Err invalid, w)
       | (Err n, w) \<Rightarrow>
           if n = EAGAIN \<or> n = EINTR then send_bytes os fd bytes deadline_ns w else Some (Err (OsError n), w))) w"

definition transport_send :: "('c, 'w) os \<Rightarrow> 'c \<Rightarrow> packet \<Rightarrow> 64 word \<Rightarrow> ('w, unit) io" where
  "transport_send os fd packet deadline_ns = io_bind (io_of (encode packet))
     (\<lambda>bytes. send_bytes os fd bytes deadline_ns)"

section \<open>Connecting\<close>

definition authenticate :: "('c, 'w) os \<Rightarrow> 'c \<Rightarrow> peer \<Rightarrow> ('w, unit) io" where
  "authenticate os fd peer = io_bind (io_sys (os_peer_credentials os fd)) (\<lambda>(uid, pid).
     io_ensure (\<not> (pr_uid peer \<noteq> os_geteuid os \<or> uid \<noteq> pr_uid peer \<or> pid \<noteq> pr_pid peer \<or> sint (pr_pid peer) \<le> 0))
       denied_error)"

text \<open>A pending connection: the socket's error first, then the readiness.\<close>

definition finish_connect :: "('c, 'w) os \<Rightarrow> 'c \<Rightarrow> 64 word \<Rightarrow> ('w, unit) io" where
  "finish_connect os fd deadline_ns = io_bind (wait_ready os fd POLLOUT deadline_ns) (\<lambda>readiness.
     io_bind (io_sys (os_socket_error os fd)) (\<lambda>error.
     io_seq (io_ensure (error = 0) (OsError error))
       (io_ensure (\<not> (readiness AND POLLOUT \<noteq> POLLOUT \<or> readiness AND (POLLHUP OR POLLNVAL) \<noteq> 0))
          disconnected_error)))"

definition start_connect :: "('c, 'w) os \<Rightarrow> 'c \<Rightarrow> path \<Rightarrow> 64 word \<Rightarrow> ('w, unit) io" where
  "start_connect os fd anchored deadline_ns w = (case os_connect os fd anchored w of
      (Ok _, w) \<Rightarrow> Some (Ok (), w)
    | (Err n, w) \<Rightarrow> if n = EINPROGRESS then finish_connect os fd deadline_ns w else Some (Err (OsError n), w))"

text \<open>The name under an open directory, immune to a replaced parent.\<close>

definition anchored_path :: "('c, 'w) os \<Rightarrow> 'c \<Rightarrow> string \<Rightarrow> path" where
  "anchored_path os directory name =
     \<lparr>pt_absolute = True, pt_components = [''proc'', ''self'', ''fd'', show_nat (os_raw_fd os directory), name]\<rparr>"

definition transport_connect :: "('c, 'w) os \<Rightarrow> path \<Rightarrow> peer \<Rightarrow> 64 word \<Rightarrow> ('w, 'c) io" where
  "transport_connect os path peer deadline_ns =
     io_seq (io_ensure (\<not> (\<not> pt_absolute path \<or> pr_uid peer \<noteq> os_geteuid os \<or> sint (pr_pid peer) \<le> 0)) denied_error)
     (io_bind (io_some (path_parent path) denied_error) (\<lambda>parent.
      io_bind (io_some (path_file_name path) denied_error) (\<lambda>name.
      io_bind (io_sys (os_open_directory os parent)) (\<lambda>directory.
      io_bind (io_sys (os_fstat os directory)) (\<lambda>stat.
      io_seq (io_ensure (\<not> (st_uid stat \<noteq> pr_uid peer \<or> st_mode stat AND 63 \<noteq> 0)) denied_error)
      (let anchored = anchored_path os directory name in
       io_bind (io_sys (os_symlink_metadata os anchored)) (\<lambda>metadata.
       io_seq (io_ensure (\<not> (st_uid metadata \<noteq> pr_uid peer \<or> st_mode metadata AND 63 \<noteq> 0 \<or>
                 st_mode metadata AND 0xF000 \<noteq> 0xC000)) denied_error)
       (io_bind (io_sys (os_socket os)) (\<lambda>fd.
        io_seq (io_sys (os_unix_addr os anchored))
        (io_seq (start_connect os fd anchored deadline_ns)
        (io_seq (authenticate os fd peer)
        (io_seq (before_deadline os deadline_ns timeout_error)
          (io_of (Ok fd))))))))))))))"

section \<open>The private listener\<close>

record 'c listener =
  ls_fd :: 'c
  ls_directory :: 'c
  ls_name :: string
  ls_device :: "64 word"
  ls_inode :: "64 word"
  ls_uid :: "32 word"

definition listener_denied :: io_error where
  "listener_denied = PermissionDenied ''passive endpoint must be private and same-user''"

definition listener_bind :: "('c, 'w) os \<Rightarrow> path \<Rightarrow> ('w, 'c listener) io" where
  "listener_bind os path =
     io_seq (io_ensure (pt_absolute path) listener_denied)
     (io_bind (io_some (path_parent path) listener_denied) (\<lambda>parent.
      io_bind (io_some (path_file_name path) listener_denied) (\<lambda>name.
      io_bind (io_sys (os_open_directory os parent)) (\<lambda>directory.
      io_bind (io_sys (os_fstat os directory)) (\<lambda>stat.
      io_seq (io_ensure (\<not> (st_uid stat \<noteq> os_geteuid os \<or> st_mode stat AND 63 \<noteq> 0)) listener_denied)
      (let anchored = anchored_path os directory name in
       io_bind (io_sys (os_socket os)) (\<lambda>fd.
       io_seq (io_sys (os_unix_addr os anchored))
       (io_seq (io_sys (os_bind os fd anchored))
       (io_bind (io_sys (os_fstatat os directory name)) (\<lambda>stat.
        io_seq (io_sys (os_set_permissions os anchored 0x180))
        (io_seq (io_sys (os_listen os fd))
          (io_of (Ok \<lparr>ls_fd = fd, ls_directory = directory, ls_name = name, ls_device = st_dev stat,
             ls_inode = st_ino stat, ls_uid = os_geteuid os\<rparr>)))))))))))))"

definition verify_endpoint :: "('c, 'w) os \<Rightarrow> 'c listener \<Rightarrow> ('w, unit) io" where
  "verify_endpoint os l = io_bind (io_sys (os_fstat os (ls_directory l))) (\<lambda>parent.
     io_bind (io_sys (os_fstatat os (ls_directory l) (ls_name l))) (\<lambda>endpoint.
     io_ensure (\<not> (st_uid parent \<noteq> ls_uid l \<or> st_mode parent AND 63 \<noteq> 0 \<or> st_uid endpoint \<noteq> ls_uid l \<or>
       st_mode endpoint AND 63 \<noteq> 0 \<or> st_dev endpoint \<noteq> ls_device l \<or> st_ino endpoint \<noteq> ls_inode l))
       listener_denied))"

definition listener_accept :: "('c, 'w) os \<Rightarrow> 'c listener \<Rightarrow> peer \<Rightarrow> 64 word \<Rightarrow> ('w, 'c) io" where
  "listener_accept os l peer deadline_ns =
     io_seq (verify_endpoint os l)
     (io_seq (wait_readable os (ls_fd l) deadline_ns)
     (io_seq (verify_endpoint os l)
     (io_bind (io_sys (os_accept os (ls_fd l))) (\<lambda>fd.
      io_seq (authenticate os fd peer)
      (io_seq (verify_endpoint os l)
      (io_seq (before_deadline os deadline_ns (TimedOut ''passive accept deadline expired''))
        (io_of (Ok fd))))))))"

text \<open>Dropping the listener removes the endpoint only while it is still the one it created. Errors are
  ignored.\<close>

definition listener_drop :: "('c, 'w) os \<Rightarrow> 'c listener \<Rightarrow> 'w \<Rightarrow> 'w" where
  "listener_drop os l w = (case os_fstatat os (ls_directory l) (ls_name l) w of
      (Ok stat, w) \<Rightarrow>
        if st_dev stat = ls_device l \<and> st_ino stat = ls_inode l \<and> st_uid stat = ls_uid l
        then snd (os_unlinkat os (ls_directory l) (ls_name l) w) else w
    | (Err _, w) \<Rightarrow> w)"

section \<open>The loops return\<close>

lemma tickingD:
  assumes "ticking os time"
  shows "os_poll os c f t w = (r, w') \<Longrightarrow> time w < time w'"
    and "os_recv os c w = (r2, w') \<Longrightarrow> time w < time w'"
    and "os_send os c b w = (r3, w') \<Longrightarrow> time w < time w'"
    and "os_clock_gettime os w = (r4, w') \<Longrightarrow> time w < time w'"
    and "os_clock_gettime os w = (Ok (s, n), w') \<Longrightarrow> time w \<le> unat s * 1000000000 + unat n"
    and "os_read os c k w = (r6, w') \<Longrightarrow> time w < time w'"
  using assms by (auto simp: ticking_def takes_time_def)

lemma monotonic_returns:
  assumes "ticking os time"
  shows "returns time (transport_monotonic_ns os) w"
    and "transport_monotonic_ns os w = Some (r, w') \<Longrightarrow> time w < time w'"
    and "transport_monotonic_ns os w = Some (Ok now, w') \<Longrightarrow> time w \<le> unat now"
proof -
  show "transport_monotonic_ns os w = Some (r, w') \<Longrightarrow> time w < time w'"
    using tickingD(4) [OF assms]
    by (auto simp: transport_monotonic_ns_def io_bind_def io_sys_def io_of_def split: prod.splits result.splits)
  show "transport_monotonic_ns os w = Some (Ok now, w') \<Longrightarrow> time w \<le> unat now"
    using tickingD(5) [OF assms]
    by (auto simp: transport_monotonic_ns_def unat_of_nat simp del: of_nat_add of_nat_mult split: if_splits)
  show "returns time (transport_monotonic_ns os) w"
    unfolding transport_monotonic_ns_def case_prod_beta by (intro returns_intros assms)
qed

lemma before_deadline_returns: "ticking os time \<Longrightarrow> returns time (before_deadline os d e) w"
  by (simp add: before_deadline_def returns_bind monotonic_returns)

lemma wait_ready_returns:
  assumes "ticking os time"
  shows "returns time (wait_ready os fd flags d) w"
proof (rule loop_returns [where D = "unat d"])
  fix w
  assume IH: "\<And>w'. time w < time w' \<Longrightarrow> time w < unat d \<Longrightarrow> returns time (wait_ready os fd flags d) w'"
  have "returns time (\<lambda>w. if d \<le> now then Some (Err timeout_error, w)
      else (case os_poll os fd flags (poll_millis (d - now)) w of
          (Ok (ready, revents), w) \<Rightarrow>
            if ready = 0 then wait_ready os fd flags d w
            else io_seq (before_deadline os d timeout_error)
              (io_of (Ok (case revents of None \<Rightarrow> 0 | Some events \<Rightarrow> events))) w
        | (Err n, w) \<Rightarrow> if n = EINTR then wait_ready os fd flags d w else Some (Err (OsError n), w))) w1"
    if now: "transport_monotonic_ns os w = Some (Ok now, w1)" "time w \<le> time w1" for now w1
  proof (cases "d \<le> now")
    case False
    then have d: "time w < unat d"
      using monotonic_returns(3) [OF assms now(1)] by (simp add: word_less_nat_alt not_le)
    have seq: "returns time (io_seq (before_deadline os d timeout_error) (io_of v)) w2" for v w2
      by (intro returns_seq before_deadline_returns [OF assms] returns_of)
    have "returns time (wait_ready os fd flags d) w2 \<and> time w1 \<le> time w2"
      if "os_poll os fd flags (poll_millis (d - now)) w1 = (r, w2)" for r w2
      using tickingD(1) [OF assms that] now(2) IH [OF _ d, of w2] by simp
    with False seq show ?thesis
      by (auto intro!: returns_call returns_result returns_pair returns_if)
  qed simp
  then show "returns time (wait_ready os fd flags d) w"
    by (rule returns_unfold [OF wait_ready.simps returns_bind [OF monotonic_returns(1) [OF assms]]])
qed

lemma wait_returns: "ticking os time \<Longrightarrow> returns time (transport_wait os fd flags d) w"
  by (simp add: transport_wait_def returns_bind wait_ready_returns)

text \<open>Past its deadline a wait fails.\<close>

lemma wait_ok_early:
  assumes "ticking os time" and "transport_wait os fd flags d w = Some (Ok (), w')"
  shows "time w < unat d"
proof -
  obtain r where "wait_ready os fd flags d w = Some (Ok r, w')"
    using assms(2) by (auto simp: transport_wait_def)
  then obtain now w1 where "transport_monotonic_ns os w = Some (Ok now, w1)" "\<not> d \<le> now"
    by (subst (asm) wait_ready.simps) (auto split: if_splits)
  then show ?thesis
    using monotonic_returns(3) [OF assms(1)] by (fastforce simp: not_le word_less_nat_alt)
qed

lemma retry_returns:
  assumes "ticking os time"
    and unfold: "\<And>w. loop w = io_bind (transport_wait os fd flags d) (\<lambda>_ w. case call w of (r, w) \<Rightarrow> K r w) w"
    and call: "\<And>w r w'. call w = (r, w') \<Longrightarrow> time w < time w'"
    and K: "\<And>r w. returns time loop w \<Longrightarrow> returns time (K r) w"
  shows "returns time loop w"
proof (rule loop_returns [where D = "unat d"])
  fix w
  assume IH: "\<And>w'. time w < time w' \<Longrightarrow> time w < unat d \<Longrightarrow> returns time loop w'"
  have "returns time (\<lambda>w. case call w of (r, w) \<Rightarrow> K r w) w1"
    if w1: "transport_wait os fd flags d w = Some (Ok u, w1)" "time w \<le> time w1" for u w1
  proof (rule returns_call)
    fix r w2
    assume "call w1 = (r, w2)"
    with call w1(2) have "time w < time w2" "time w1 \<le> time w2"
      by (auto dest: le_less_trans less_imp_le)
    moreover have "time w < unat d"
      using wait_ok_early [OF assms(1)] w1(1) by (cases u) simp
    ultimately show "time w1 \<le> time w2 \<and> returns time (K r) w2"
      using IH K by simp
  qed
  then show "returns time loop w"
    by (rule returns_unfold [OF unfold returns_bind [OF wait_returns [OF assms(1)]]])
qed

lemma receive_returns:
  assumes "ticking os time"
  shows "returns time (receive os fd d) w"
proof (rule retry_returns [OF assms receive.simps])
  fix r w
  assume "returns time (receive os fd d) w"
  moreover have "returns time (io_seq (before_deadline os d timeout_error) (io_of v)) w" for v
    by (intro returns_seq before_deadline_returns [OF assms] returns_of)
  ultimately show "returns time (\<lambda>w. case r of
      Ok (n, bytes) \<Rightarrow> if n = 0 then Some (Err (UnexpectedEof ''Hyprland peer disconnected''), w)
        else if n = PACKET_SIZE then io_seq (before_deadline os d timeout_error) (io_of (decode bytes)) w
        else Some (Err invalid, w)
    | Err n \<Rightarrow> if n = EAGAIN \<or> n = EINTR then receive os fd d w else Some (Err (OsError n), w)) w"
    by (auto intro!: returns_result returns_pair returns_if)
qed (rule tickingD(2) [OF assms])

lemma send_bytes_returns:
  assumes "ticking os time"
  shows "returns time (send_bytes os fd bytes d) w"
proof (rule retry_returns [OF assms send_bytes.simps])
  fix r w
  assume "returns time (send_bytes os fd bytes d) w"
  with before_deadline_returns [OF assms] show "returns time (\<lambda>w. case r of
      Ok n \<Rightarrow> if n = PACKET_SIZE then before_deadline os d timeout_error w else Some (Err invalid, w)
    | Err n \<Rightarrow> if n = EAGAIN \<or> n = EINTR then send_bytes os fd bytes d w else Some (Err (OsError n), w)) w"
    by (auto intro!: returns_result returns_pair returns_if)
qed (rule tickingD(3) [OF assms])

lemma send_returns: "ticking os time \<Longrightarrow> returns time (transport_send os fd packet d) w"
  by (simp add: transport_send_def returns_bind send_bytes_returns)

lemma receive_if_ready_returns:
  assumes "ticking os time"
  shows "returns time (receive_if_ready os fd d) w"
proof -
  obtain r w1 where r: "transport_wait os fd POLLIN d w = Some (r, w1)" "time w \<le> time w1"
    using wait_returns [OF assms] by (rule returnsE)
  have "returns time (io_bind (receive os fd d) (\<lambda>packet. io_of (Ok (Some packet)))) w1"
    by (simp add: returns_bind receive_returns [OF assms])
  with r show ?thesis
    by (cases r) (auto simp: returns_def receive_if_ready_def intro: le_trans)
qed

section \<open>The bridge's connection\<close>

text \<open>The operations a bridge calls on its connection are those of the transport.\<close>

definition transport_net :: "('c, 'w) os \<Rightarrow> ('c, 'w) net" where
  "transport_net os = \<lparr>net_receive = (\<lambda>fd d w. the (receive os fd d w)),
     net_receive_if_ready = (\<lambda>fd d w. the (receive_if_ready os fd d w)),
     net_send = (\<lambda>fd packet d w. the (transport_send os fd packet d w)),
     monotonic_ns = (\<lambda>w. the (transport_monotonic_ns os w)), sleep_ns = os_sleep os\<rparr>"

lemma monotonic_ns_transport: "transport_monotonic_ns os w = Some (monotonic_ns (transport_net os) w)"
  by (auto simp: transport_net_def transport_monotonic_ns_def io_bind_def io_sys_def io_of_def
      split: prod.splits result.splits)

lemma authenticate_ok:
  "authenticate os fd peer w = Some (Ok u, w') \<longleftrightarrow>
     os_peer_credentials os fd w = (Ok (pr_uid peer, pr_pid peer), w') \<and> pr_uid peer = os_geteuid os \<and> 0 < sint (pr_pid peer)"
  by (auto simp: authenticate_def)

lemma accept_authenticated:
  "listener_accept os l peer d w = Some (Ok fd, w') \<Longrightarrow> pr_uid peer = os_geteuid os \<and> 0 < sint (pr_pid peer) \<and>
     (\<exists>w1 w2. os_peer_credentials os fd w1 = (Ok (pr_uid peer, pr_pid peer), w2))"
  by (auto simp: listener_accept_def authenticate_ok)

section \<open>Properties\<close>

text \<open>A system whose clock counts the calls and whose socket never becomes ready, for the examples.\<close>

definition ex_os :: "(unit, nat) os" where
  "ex_os = \<lparr>os_clock_gettime = (\<lambda>w. (if w < 2 ^ 32 then Ok (0, of_nat w) else Err 22, w + 1)), os_sleep = (\<lambda>_ w. w + 1),
     os_poll = (\<lambda>_ _ _ w. (Ok (0, None), w + 1)), os_recv = (\<lambda>_ w. (Err EAGAIN, w + 1)),
     os_send = (\<lambda>_ _ w. (Err EAGAIN, w + 1)), os_geteuid = 1000,
     os_peer_credentials = (\<lambda>_ w. (Ok (1000, 42), w + 1)), os_socket = (\<lambda>w. (Ok (), w + 1)),
     os_unix_addr = (\<lambda>_ w. (Ok (), w + 1)), os_connect = (\<lambda>_ _ w. (Ok (), w + 1)), os_socket_error = (\<lambda>_ w. (Ok 0, w + 1)),
     os_bind = (\<lambda>_ _ w. (Ok (), w + 1)), os_listen = (\<lambda>_ w. (Ok (), w + 1)), os_accept = (\<lambda>_ w. (Ok (), w + 1)),
     os_open_directory = (\<lambda>_ w. (Ok (), w + 1)), os_raw_fd = (\<lambda>_. 3),
     os_fstat = (\<lambda>_ w. (Ok \<lparr>st_uid = 1000, st_mode = 0x41C0, st_dev = 1, st_ino = 2, st_device = (0, 1), st_size = 0\<rparr>, w + 1)),
     os_fstatat = (\<lambda>_ _ w. (Ok \<lparr>st_uid = 1000, st_mode = 0xC180, st_dev = 1, st_ino = 2, st_device = (0, 1), st_size = 0\<rparr>, w + 1)),
     os_symlink_metadata = (\<lambda>_ w. (Err 2, w + 1)), os_set_permissions = (\<lambda>_ _ w. (Ok (), w + 1)),
     os_unlinkat = (\<lambda>_ _ w. (Ok (), w + 1)), os_canonicalize = (\<lambda>p w. (Ok p, w + 1)), os_metadata = (\<lambda>_ w. (Err 2, w + 1)),
     os_read_prefix = (\<lambda>_ _ w. (Err 2, w + 1)), os_open_file = (\<lambda>_ w. (Err 2, w + 1)),
     os_open_nofollow = (\<lambda>_ w. (Err 2, w + 1)),
     os_read_to_end = (\<lambda>_ _ w. (Ok [], w + 1)), os_read = (\<lambda>_ _ w. (Ok [], w + 1))\<rparr>"

lemma ex_os_ticking: "ticking ex_os id"
  by (auto simp: ticking_def takes_time_def ex_os_def unat_of_nat split: if_splits)

text \<open>C32: The transport loops end: on a system where time passes, receiving, the bounded idle receive and
  sending return for every deadline and every sequence of interrupted, spurious and premature wake-ups, so
  the bridge's operations on its connection are exactly these loops.\<close>

theorem transport_operations_return:
  assumes "ticking os time"
  shows "receive os fd d w = Some (net_receive (transport_net os) fd d w) \<and>
    receive_if_ready os fd d w = Some (net_receive_if_ready (transport_net os) fd d w) \<and>
    transport_send os fd packet d w = Some (net_send (transport_net os) fd packet d w)"
  using returns_the [OF receive_returns [OF assms]] returns_the [OF receive_if_ready_returns [OF assms]]
    returns_the [OF send_returns [OF assms]]
  by (simp add: transport_net_def)

theorem transport_operations_return_witness:
  "receive ex_os () 2 0 = Some (net_receive (transport_net ex_os) () 2 0) \<and>
   receive ex_os () 2 0 = Some (Err timeout_error, 3)"
proof
  show "receive ex_os () 2 0 = Some (net_receive (transport_net ex_os) () 2 0)"
    using transport_operations_return [OF ex_os_ticking] by blast
  have "wait_ready ex_os () POLLIN 2 0 = Some (Err timeout_error, 3)"
    by (simp add: wait_ready.simps ex_os_def transport_monotonic_ns_def io_bind_def io_sys_def io_of_def
        word_le_nat_alt)
  then show "receive ex_os () 2 0 = Some (Err timeout_error, 3)"
    by (subst receive.simps) (simp add: transport_wait_def io_bind_def)
qed

end
