(* ===== verification/Metadata.thy ===== *)
theory Metadata
  imports Transport
begin

unbundle bit_operations_syntax

text \<open>
  The installed registration of a compositor and the verification of its files and process, the first part
  of \<^verbatim>\<open>packages/linux/src/hyprland/session.rs\<close>. The JSON reader and the hash function are third-party
  code and parameters.
\<close>

section \<open>Descriptors\<close>

record installed_descriptor =
  id_wire_version :: "16 word"
  id_qualification_revision :: "64 word"
  id_build_id :: string
  id_compositor_path :: path
  id_compositor_sha256 :: string
  id_sdk_api_hash :: string
  id_plugin_path :: path
  id_plugin_sha256 :: string
  id_capabilities :: "64 word"

datatype qualification = Unqualified | Candidate | Supported

record verified_metadata =
  vm_descriptor :: installed_descriptor
  vm_peer :: peer
  vm_start_time :: "64 word"
  vm_descriptor_digest :: string

definition denied :: "string \<Rightarrow> io_error" where
  "denied message = PermissionDenied message"

definition digest_syntax :: "string \<Rightarrow> bool" where
  "digest_syntax value \<longleftrightarrow> length value = 64 \<and>
     list_all (\<lambda>c. let b = of_char c :: nat in 48 \<le> b \<and> b \<le> 57 \<or> 97 \<le> b \<and> b \<le> 102) value"

definition build_digest :: "string \<Rightarrow> string option" where
  "build_digest build_id = (let prefix = ''sledge-stock-v1:'' in
     if take (length prefix) build_id = prefix then Some (drop (length prefix) build_id) else None)"

definition descriptor_validate :: "installed_descriptor \<Rightarrow> (unit, io_error) result" where
  "descriptor_validate d =
     (if id_wire_version d \<noteq> 1 \<or> id_capabilities d AND NOT 15 \<noteq> 0 \<or>
         \<not> (case build_digest (id_build_id d) of None \<Rightarrow> False | Some value \<Rightarrow> digest_syntax value) \<or>
         id_sdk_api_hash d = [] \<or> 192 < length (id_sdk_api_hash d) \<or> CHR 0x00 \<in> set (id_sdk_api_hash d) \<or>
         \<not> digest_syntax (id_compositor_sha256 d) \<or> \<not> digest_syntax (id_plugin_sha256 d)
      then Err (denied ''invalid descriptor version/build/hash/capabilities'')
      else Ok ())"

section \<open>Files\<close>

definition immutable_file :: "('c, 'w) os \<Rightarrow> path \<Rightarrow> ('w, path) io" where
  "immutable_file os path = io_bind (io_sys (os_canonicalize os path)) (\<lambda>canonical.
     io_bind (io_some (strip_prefix [''nix'', ''store''] canonical)
       (denied ''registration/artifact is not immutable store file'')) (\<lambda>relative.
     io_seq (io_ensure (\<not> length relative < 2) (denied ''invalid immutable artifact path''))
     (io_bind (io_sys (os_metadata os canonical)) (\<lambda>metadata.
      io_seq (io_ensure (\<not> (st_mode metadata AND 0xF000 \<noteq> 0x8000 \<or> st_uid metadata \<noteq> 0 \<or> st_mode metadata AND 146 \<noteq> 0))
        (denied ''artifact must be immutable root-owned regular file''))
      (io_of (Ok canonical))))))"

definition bounded_read :: "('c, 'w) os \<Rightarrow> path \<Rightarrow> nat \<Rightarrow> ('w, byte list) io" where
  "bounded_read os path limit = io_bind (io_sys (os_read_prefix os path (limit + 1))) (\<lambda>bytes.
     io_seq (io_ensure (\<not> limit < length bytes) (denied ''verification input oversized'')) (io_of (Ok bytes)))"

definition HASH_BUDGET :: nat where "HASH_BUDGET = 512 * 1024 * 1024"

text \<open>The hashing loop: every chunk counts against the budget before it is hashed.\<close>

function hash_chunks ::
  "('c, 'w) os \<Rightarrow> (byte list \<Rightarrow> string) \<Rightarrow> 'c \<Rightarrow> nat \<Rightarrow> byte list \<Rightarrow> 'w \<Rightarrow> ((string, io_error) result \<times> 'w) option" where
  "hash_chunks os sha256 fd count hashed w = (case os_read os fd (16 * 1024) w of
      (Err n, w) \<Rightarrow> Some (Err (OsError n), w)
    | (Ok chunk, w) \<Rightarrow>
        if chunk = [] then Some (Ok (sha256 hashed), w)
        else if HASH_BUDGET < count + length chunk then Some (Err (denied ''artifact exceeds hashing budget''), w)
        else hash_chunks os sha256 fd (count + length chunk) (hashed @ chunk) w)"
  by pat_completeness auto
termination
proof (relation "measure (\<lambda>(os, sha256, fd, count, hashed, w). HASH_BUDGET - count)")
  fix count :: nat and chunk :: "byte list"
  assume "chunk \<noteq> []" "\<not> HASH_BUDGET < count + length chunk"
  then show "((os, sha256, fd, count + length chunk, hashed @ chunk, w'), os, sha256, fd, count, hashed, w)
      \<in> measure (\<lambda>(os, sha256, fd, count, hashed, w). HASH_BUDGET - count)" for os sha256 fd hashed w w'
    by (cases chunk) auto
qed simp

declare hash_chunks.simps [simp del]

definition hash_file :: "('c, 'w) os \<Rightarrow> (byte list \<Rightarrow> string) \<Rightarrow> path \<Rightarrow> ('w, string) io" where
  "hash_file os sha256 path = io_bind (io_sys (os_open_file os path)) (\<lambda>file.
     io_bind (io_sys (os_fstat os file)) (\<lambda>metadata.
     io_seq (io_ensure (\<not> HASH_BUDGET < unat (st_size metadata)) (denied ''artifact exceeds hashing budget''))
       (hash_chunks os sha256 file 0 [])))"

section \<open>Processes\<close>

definition show_i32 :: "32 word \<Rightarrow> string" where
  "show_i32 v = (if sint v < 0 then CHR ''-'' # show_nat (nat (- sint v)) else show_nat (nat (sint v)))"

definition proc_path :: "peer \<Rightarrow> string list \<Rightarrow> path" where
  "proc_path peer names = \<lparr>pt_absolute = True, pt_components = ''proc'' # show_i32 (pr_pid peer) # names\<rparr>"

definition word_at :: "string list \<Rightarrow> nat \<Rightarrow> string option" where
  "word_at ws i = (if i < length ws then Some (ws ! i) else None)"

definition parse_start :: "string \<Rightarrow> (64 word, io_error) result" where
  "parse_start stat = (case after_last CHR '')'' stat of
      None \<Rightarrow> Err (denied ''invalid process stat'')
    | Some rest \<Rightarrow> (case word_at (split_whitespace rest) 19 of
          None \<Rightarrow> Err (denied ''missing process starttime'')
        | Some start \<Rightarrow> (case parse_u64 10 start of
              None \<Rightarrow> Err (denied ''invalid process starttime'')
            | Some v \<Rightarrow> Ok v)))"

definition process_start :: "('c, 'w) os \<Rightarrow> peer \<Rightarrow> ('w, 64 word) io" where
  "process_start os peer =
     io_seq (io_ensure (\<not> (sint (pr_pid peer) \<le> 0 \<or> pr_uid peer \<noteq> os_geteuid os)) (denied ''invalid same-user compositor PID''))
     (io_bind (io_sys (os_metadata os (proc_path peer []))) (\<lambda>metadata.
      io_seq (io_ensure (st_uid metadata = pr_uid peer) (denied ''compositor UID mismatch''))
      (io_bind (bounded_read os (proc_path peer [''stat'']) 4096) (\<lambda>bytes.
       io_bind (io_utf8 bytes (denied ''invalid process stat'')) (\<lambda>stat.
       io_bind (io_some (after_last CHR '')'' stat) (denied ''invalid process stat'')) (\<lambda>rest.
       io_seq (io_ensure (word_at (split_whitespace rest) 0 \<notin> {Some ''Z'', Some ''X'', Some ''x''})
         (denied ''compositor process exited''))
       (io_of (parse_start stat))))))))"

definition parse_mapping_device :: "string \<Rightarrow> (64 word \<times> 64 word) option" where
  "parse_mapping_device device = (case split_once CHR '':'' device of
      None \<Rightarrow> None
    | Some (major, minor) \<Rightarrow> (case (parse_u64 16 major, parse_u64 16 minor) of
          (Some a, Some b) \<Rightarrow> Some (a, b)
        | _ \<Rightarrow> None))"

definition mapped_line :: "string \<Rightarrow> stat \<Rightarrow> string \<Rightarrow> bool" where
  "mapped_line plugin metadata line = (let fields = split_whitespace line in
     word_at fields 5 = Some plugin \<and>
     Option.bind (word_at fields 3) parse_mapping_device = Some (st_device metadata) \<and>
     Option.bind (word_at fields 4) (parse_u64 10) = Some (st_ino metadata))"

definition verify_files_and_process ::
  "('c, 'w) os \<Rightarrow> (byte list \<Rightarrow> string) \<Rightarrow> installed_descriptor \<Rightarrow> peer \<Rightarrow> ('w, unit) io" where
  "verify_files_and_process os sha256 d peer =
     io_bind (immutable_file os (id_compositor_path d)) (\<lambda>compositor.
     io_bind (immutable_file os (id_plugin_path d)) (\<lambda>plugin.
     io_bind (hash_file os sha256 compositor) (\<lambda>digest.
     io_seq (io_ensure (digest = id_compositor_sha256 d) (denied ''installed artifact SHA256 mismatch''))
     (io_bind (hash_file os sha256 plugin) (\<lambda>digest.
     io_seq (io_ensure (digest = id_plugin_sha256 d) (denied ''installed artifact SHA256 mismatch''))
     (io_bind (io_sys (os_canonicalize os (proc_path peer [''exe'']))) (\<lambda>executable.
     io_seq (io_ensure (executable = compositor) (denied ''compositor executable path/digest mismatch''))
     (io_bind (hash_file os sha256 executable) (\<lambda>digest.
     io_seq (io_ensure (digest = id_compositor_sha256 d) (denied ''compositor executable path/digest mismatch''))
     (io_bind (bounded_read os (proc_path peer [''maps'']) (4 * 1024 * 1024)) (\<lambda>bytes.
     io_bind (io_utf8 bytes (denied ''invalid compositor mappings'')) (\<lambda>maps.
     io_bind (io_sys (os_metadata os plugin)) (\<lambda>metadata.
     io_bind (io_utf8 (as_bytes (path_str plugin)) (denied ''non-UTF8 plugin path'')) (\<lambda>name.
       io_ensure (list_ex (mapped_line name metadata) (text_lines maps))
         (denied ''verified plugin not mapped in compositor'')))))))))))))))"

section \<open>Verification\<close>

definition verify ::
  "('c, 'w) os \<Rightarrow> (byte list \<Rightarrow> string) \<Rightarrow> (byte list \<Rightarrow> installed_descriptor option) \<Rightarrow> path \<Rightarrow> 32 word \<Rightarrow>
   ('w, verified_metadata) io" where
  "verify os sha256 from_slice registration_path pid =
     io_bind (immutable_file os registration_path) (\<lambda>path.
     io_bind (bounded_read os path (16 * 1024)) (\<lambda>bytes.
     io_bind (io_some (from_slice bytes) (denied ''invalid installed descriptor schema'')) (\<lambda>descriptor.
     io_seq (io_of (descriptor_validate descriptor))
     (let peer = \<lparr>pr_uid = os_geteuid os, pr_pid = pid\<rparr> in
      io_bind (process_start os peer) (\<lambda>before.
      io_seq (verify_files_and_process os sha256 descriptor peer)
      (io_bind (process_start os peer) (\<lambda>after.
       io_seq (io_ensure (after = before) (denied ''compositor PID identity changed during verification''))
       (io_of (Ok \<lparr>vm_descriptor = descriptor, vm_peer = peer, vm_start_time = before,
          vm_descriptor_digest = sha256 bytes\<rparr>)))))))))"

definition revalidate :: "('c, 'w) os \<Rightarrow> (byte list \<Rightarrow> string) \<Rightarrow> verified_metadata \<Rightarrow> ('w, unit) io" where
  "revalidate os sha256 m =
     io_bind (process_start os (vm_peer m)) (\<lambda>start.
     io_seq (io_ensure (start = vm_start_time m) (denied ''compositor PID/starttime changed''))
     (io_seq (verify_files_and_process os sha256 (vm_descriptor m) (vm_peer m))
     (io_bind (process_start os (vm_peer m)) (\<lambda>start.
      io_ensure (start = vm_start_time m) (denied ''compositor PID/starttime changed'')))))"

definition require_qualified :: "verified_metadata \<Rightarrow> (unit, io_error) result" where
  "require_qualified m = Err (denied ''Hyprland build metadata verified but production unqualified'')"

definition passive_identity :: "verified_metadata \<Rightarrow> native_identity" where
  "passive_identity m = \<lparr>ni_capabilities = 0, ni_api_hash = id_sdk_api_hash (vm_descriptor m),
     ni_artifact = id_build_id (vm_descriptor m)\<rparr>"

end
