(* ===== verification/Catalogue.thy ===== *)
theory Catalogue
  imports Metadata
begin

unbundle bit_operations_syntax

text \<open>
  The compiled-in admission catalogue, \<^verbatim>\<open>packages/linux/src/hyprland/catalogue.rs\<close>. The embedded
  documents are produced by the build and are parameters, with their pins; so are the JSON readers and the
  hash function.
\<close>

section \<open>Capabilities\<close>

definition FRESH_DOWN_SEND_KEY :: "64 word" where "FRESH_DOWN_SEND_KEY = 1"
definition MODIFIER_TAP_RELEASE :: "64 word" where "MODIFIER_TAP_RELEASE = 2"
definition TAP_FEATURES :: "64 word" where "TAP_FEATURES = FRESH_DOWN_SEND_KEY OR MODIFIER_TAP_RELEASE"

definition valid_capabilities :: "64 word \<Rightarrow> 64 word \<Rightarrow> bool" where
  "valid_capabilities revision features \<longleftrightarrow>
     revision = 1 \<and> features = FRESH_DOWN_SEND_KEY \<or> revision = 2 \<and> features = TAP_FEATURES"

section \<open>Documents\<close>

record entry =
  en_descriptor_sha256 :: string
  en_build_id :: string
  en_evidence_sha256 :: string
  en_feature_mask :: "64 word"
  en_qualification_revision :: "64 word"
  en_isolated_vm :: bool
  en_machine_id_sha256 :: string
  en_boot_marker_path :: path
  en_boot_marker_sha256 :: string

record supported_entry =
  se_descriptor_sha256 :: string
  se_build_id :: string
  se_evidence_sha256 :: string
  se_qualification_revision :: "64 word"
  se_feature_mask :: "64 word"
  se_approval_revision :: "64 word"

datatype admission = CandidateEntry entry | SupportedEntry supported_entry

record policy =
  po_revision :: "64 word"
  po_entries :: "admission list"

record acceptance =
  ac_revision :: "64 word"
  ac_entries :: "supported_entry list"

fun admission_revision :: "admission \<Rightarrow> 64 word" where
  "admission_revision (CandidateEntry e) = en_qualification_revision e"
| "admission_revision (SupportedEntry e) = se_qualification_revision e"

fun admission_identity :: "admission \<Rightarrow> string \<times> string" where
  "admission_identity (CandidateEntry e) = (en_descriptor_sha256 e, en_build_id e)"
| "admission_identity (SupportedEntry e) = (se_descriptor_sha256 e, se_build_id e)"

fun admission_qualification :: "admission \<Rightarrow> qualification" where
  "admission_qualification (CandidateEntry _) = Candidate"
| "admission_qualification (SupportedEntry _) = Supported"

fun admission_features :: "admission \<Rightarrow> 64 word" where
  "admission_features (CandidateEntry e) = en_feature_mask e"
| "admission_features (SupportedEntry e) = se_feature_mask e"

text \<open>The third-party readers and the embedded documents.\<close>

record embedded =
  em_sha256 :: "byte list \<Rightarrow> string"
  em_policy :: "byte list \<Rightarrow> policy option"
  em_acceptance :: "byte list \<Rightarrow> acceptance option"
  em_catalogue_bytes :: "byte list"
  em_catalogue_pin :: string
  em_acceptance_bytes :: "byte list"
  em_acceptance_pin :: string

section \<open>Selection\<close>

definition pinned :: "embedded \<Rightarrow> byte list \<Rightarrow> string \<Rightarrow> bool" where
  "pinned em bytes pin \<longleftrightarrow>
     \<not> (bytes = [] \<or> 65536 < length bytes \<or> \<not> digest_syntax pin \<or> em_sha256 em bytes \<noteq> pin)"

definition verify_acceptance :: "embedded \<Rightarrow> supported_entry \<Rightarrow> byte list \<Rightarrow> string \<Rightarrow> (unit, io_error) result" where
  "verify_acceptance em entry bytes pin =
     and_then (ensure (pinned em bytes pin) (denied ''missing/mismatched compiled acceptance'')) (\<lambda>_.
     case em_acceptance em bytes of
       None \<Rightarrow> Err (denied ''invalid acceptance schema'')
     | Some acceptance \<Rightarrow>
         ensure (\<not> (ac_revision acceptance \<noteq> 1 \<or> 16 < length (ac_entries acceptance) \<or>
                    count_list (ac_entries acceptance) entry \<noteq> 1))
           (denied ''supported binding not independently accepted''))"

fun check_entry :: "64 word \<Rightarrow> admission \<Rightarrow> (unit, io_error) result" where
  "check_entry policy_revision (CandidateEntry e) =
     ensure (\<not> (\<not> en_isolated_vm e \<or> \<not> valid_capabilities (en_qualification_revision e) (en_feature_mask e) \<or>
        \<not> digest_syntax (en_descriptor_sha256 e) \<or> \<not> digest_syntax (en_evidence_sha256 e) \<or>
        \<not> digest_syntax (en_machine_id_sha256 e) \<or> \<not> digest_syntax (en_boot_marker_sha256 e) \<or>
        \<not> pt_absolute (en_boot_marker_path e)))
       (denied ''unsupported candidate features/scope'')"
| "check_entry policy_revision (SupportedEntry e) =
     ensure (\<not> (policy_revision \<noteq> 2 \<or> \<not> valid_capabilities (se_qualification_revision e) (se_feature_mask e) \<or>
        se_approval_revision e = 0 \<or> \<not> digest_syntax (se_descriptor_sha256 e) \<or>
        \<not> digest_syntax (se_evidence_sha256 e)))
       (denied ''unsupported supported revision/features'')"

definition select :: "embedded \<Rightarrow> byte list \<Rightarrow> string \<Rightarrow> string \<Rightarrow> string \<Rightarrow> (admission, io_error) result" where
  "select em bytes pin descriptor build =
     and_then (ensure (pinned em bytes pin) (denied ''missing/mismatched compile-pinned catalogue'')) (\<lambda>_.
     case em_policy em bytes of
       None \<Rightarrow> Err (denied ''invalid catalogue schema'')
     | Some policy \<Rightarrow>
         and_then (ensure (\<not> (\<not> (po_revision policy = 1 \<or> po_revision policy = 2) \<or> 16 < length (po_entries policy)))
           (denied ''unsupported catalogue policy revision/budget'')) (\<lambda>_.
         case filter (\<lambda>e. admission_identity e = (descriptor, build)) (po_entries policy) of
           [] \<Rightarrow> Err (denied ''descriptor not in compiled catalogue'')
         | entry # rest \<Rightarrow>
             and_then (ensure (rest = []) (denied ''ambiguous catalogue descriptor'')) (\<lambda>_.
             and_then (check_entry (po_revision policy) entry) (\<lambda>_. Ok entry))))"

section \<open>Scope\<close>

definition guarded_bytes :: "('c, 'w) os \<Rightarrow> path \<Rightarrow> ('w, byte list) io" where
  "guarded_bytes os path = io_bind (io_sys (os_open_nofollow os path)) (\<lambda>file.
     io_bind (io_sys (os_fstat os file)) (\<lambda>m.
     io_seq (io_ensure (\<not> (st_mode m AND 0xF000 \<noteq> 0x8000 \<or> st_uid m \<noteq> 0 \<or> st_mode m AND 146 \<noteq> 0 \<or> 4096 < st_size m))
       (denied ''candidate scope guard is mutable/oversized/not root-owned''))
     (io_bind (io_sys (os_read_to_end os file 4097)) (\<lambda>bytes.
      io_seq (io_ensure (\<not> 4096 < length bytes) (denied ''candidate scope guard oversized''))
        (io_of (Ok bytes))))))"

definition verify_scope :: "('c, 'w) os \<Rightarrow> embedded \<Rightarrow> entry \<Rightarrow> ('w, unit) io" where
  "verify_scope os em e =
     io_bind (guarded_bytes os (path_of ''/etc/machine-id'')) (\<lambda>machine_id.
     io_seq (io_ensure (em_sha256 em machine_id = en_machine_id_sha256 e) (denied ''candidate VM scope mismatch''))
     (io_bind (guarded_bytes os (en_boot_marker_path e)) (\<lambda>marker.
      io_ensure (em_sha256 em marker = en_boot_marker_sha256 e) (denied ''candidate VM scope mismatch''))))"

fun verify_admission :: "('c, 'w) os \<Rightarrow> embedded \<Rightarrow> admission \<Rightarrow> ('w, unit) io" where
  "verify_admission os em (CandidateEntry e) = verify_scope os em e"
| "verify_admission os em (SupportedEntry e) =
     io_of (verify_acceptance em e (em_acceptance_bytes em) (em_acceptance_pin em))"

section \<open>The catalogue\<close>

record admitted_metadata =
  ad_metadata :: verified_metadata
  ad_feature_mask :: "64 word"
  ad_qualification :: qualification

definition admitted_require_qualified :: "admitted_metadata \<Rightarrow> (unit, io_error) result" where
  "admitted_require_qualified a =
     ensure (ad_qualification a = Supported) (denied ''candidate is not supported host qualification'')"

definition select_embedded :: "embedded \<Rightarrow> verified_metadata \<Rightarrow> (admission, io_error) result" where
  "select_embedded em m = select em (em_catalogue_bytes em) (em_catalogue_pin em)
     (vm_descriptor_digest m) (id_build_id (vm_descriptor m))"

definition recheck :: "('c, 'w) os \<Rightarrow> embedded \<Rightarrow> verified_metadata \<Rightarrow> ('w, unit) io" where
  "recheck os em m = io_bind (io_of (select_embedded em m)) (verify_admission os em)"

definition qualify :: "('c, 'w) os \<Rightarrow> embedded \<Rightarrow> verified_metadata \<Rightarrow> ('w, admitted_metadata) io" where
  "qualify os em m = io_bind (io_of (select_embedded em m)) (\<lambda>entry.
     io_seq (io_ensure (id_qualification_revision (vm_descriptor m) = admission_revision entry)
       (denied ''descriptor qualification revision mismatch''))
     (io_seq (verify_admission os em entry)
     (io_of (Ok \<lparr>ad_metadata = m, ad_feature_mask = admission_features entry,
        ad_qualification = admission_qualification entry\<rparr>))))"

section \<open>Admissions\<close>

lemma select_ok:
  "select em bytes pin descriptor build = Ok entry \<longleftrightarrow>
     pinned em bytes pin \<and> (\<exists>policy. em_policy em bytes = Some policy \<and> po_revision policy \<in> {1, 2} \<and>
       length (po_entries policy) \<le> 16 \<and>
       filter (\<lambda>e. admission_identity e = (descriptor, build)) (po_entries policy) = [entry] \<and>
       check_entry (po_revision policy) entry = Ok ())"
  by (auto simp: select_def split: option.splits list.splits)

lemma check_entry_capabilities:
  "check_entry r entry = Ok u \<Longrightarrow> valid_capabilities (admission_revision entry) (admission_features entry)"
  by (cases entry) auto

lemma verify_acceptance_ok:
  "verify_acceptance em entry bytes pin = Ok u \<longleftrightarrow> pinned em bytes pin \<and>
     (\<exists>a. em_acceptance em bytes = Some a \<and> ac_revision a = 1 \<and> length (ac_entries a) \<le> 16 \<and>
       count_list (ac_entries a) entry = 1)"
  by (auto simp: verify_acceptance_def split: option.splits)

lemma qualify_ok:
  "qualify os em m w = Some (Ok a, w') \<longleftrightarrow> (\<exists>entry. select_embedded em m = Ok entry \<and>
     id_qualification_revision (vm_descriptor m) = admission_revision entry \<and>
     verify_admission os em entry w = Some (Ok (), w') \<and>
     a = \<lparr>ad_metadata = m, ad_feature_mask = admission_features entry, ad_qualification = admission_qualification entry\<rparr>)"
  by (auto simp: qualify_def)

lemma qualify_capabilities:
  "qualify os em m w = Some (Ok a, w') \<Longrightarrow>
   ad_metadata a = m \<and> valid_capabilities (id_qualification_revision (vm_descriptor m)) (ad_feature_mask a)"
  by (auto simp: qualify_ok select_embedded_def select_ok dest: check_entry_capabilities)

lemma supported_iff: "admission_qualification entry = Supported \<longleftrightarrow> (\<exists>e. entry = SupportedEntry e)"
  by (cases entry) auto

section \<open>Properties\<close>

text \<open>C33: A registration is admitted as supported exactly when the compiled catalogue and the independent
  acceptance record both bind it: the catalogue is pinned, of revision 2 and within its budget, has the
  descriptor digest and build once, as a supported entry with an approval and one of the two permitted pairs
  of revision and features, the descriptor has that revision, and the pinned acceptance record of
  revision 1 lists that very entry exactly once. The system plays no part in it.\<close>

theorem supported_admission_exact:
  "(\<exists>a w'. qualify os em m w = Some (Ok a, w') \<and> admitted_require_qualified a = Ok ()) \<longleftrightarrow>
   (\<exists>policy e acceptance.
      pinned em (em_catalogue_bytes em) (em_catalogue_pin em) \<and>
      em_policy em (em_catalogue_bytes em) = Some policy \<and>
      po_revision policy = 2 \<and> length (po_entries policy) \<le> 16 \<and>
      filter (\<lambda>x. admission_identity x = (vm_descriptor_digest m, id_build_id (vm_descriptor m))) (po_entries policy) =
        [SupportedEntry e] \<and>
      se_qualification_revision e = id_qualification_revision (vm_descriptor m) \<and>
      (se_qualification_revision e, se_feature_mask e) \<in> {(1, 1), (2, 3)} \<and> se_approval_revision e \<noteq> 0 \<and>
      digest_syntax (se_descriptor_sha256 e) \<and> digest_syntax (se_evidence_sha256 e) \<and>
      pinned em (em_acceptance_bytes em) (em_acceptance_pin em) \<and>
      em_acceptance em (em_acceptance_bytes em) = Some acceptance \<and>
      ac_revision acceptance = 1 \<and> length (ac_entries acceptance) \<le> 16 \<and> count_list (ac_entries acceptance) e = 1)"
    (is "?L \<longleftrightarrow> ?R")
proof -
  have caps: "valid_capabilities r f \<longleftrightarrow> (r, f) \<in> {(1, 1), (2, 3)}" for r f
    by (auto simp: valid_capabilities_def FRESH_DOWN_SEND_KEY_def TAP_FEATURES_def MODIFIER_TAP_RELEASE_def)
  have "?L \<longleftrightarrow> (\<exists>e. select_embedded em m = Ok (SupportedEntry e) \<and>
      id_qualification_revision (vm_descriptor m) = se_qualification_revision e \<and>
      verify_acceptance em e (em_acceptance_bytes em) (em_acceptance_pin em) = Ok ())"
    by (fastforce simp: qualify_ok admitted_require_qualified_def supported_iff)
  also have "\<dots> \<longleftrightarrow> ?R"
    by (auto simp: select_embedded_def select_ok verify_acceptance_ok caps)
  finally show ?thesis .
qed

end
