(* ===== verification/Session.thy ===== *)
theory Session
  imports Catalogue
begin

text \<open>
  The daemon-facing session of a verified compositor, the second part of
  \<^verbatim>\<open>packages/linux/src/hyprland/session.rs\<close>: admission and reconnection within one deadline, health, the
  binding to the matcher, and the gated step with its proposal filter.
\<close>

section \<open>Health\<close>

record session_health =
  sh_connected :: bool
  sh_awaiting_reconciliation :: bool
  sh_locked :: bool
  sh_nonce :: "64 word"
  sh_peer :: peer
  sh_start_time :: "64 word"

definition process_is_current :: "('c, 'w) os \<Rightarrow> session_health \<Rightarrow> 'w \<Rightarrow> (bool \<times> 'w) option" where
  "process_is_current os h w =
     map_option (\<lambda>(r, w). (r = Ok (sh_start_time h), w)) (process_start os (sh_peer h) w)"

definition operational :: "('c, 'w) os \<Rightarrow> bool \<Rightarrow> session_health \<Rightarrow> 'w \<Rightarrow> (bool \<times> 'w) option" where
  "operational os matcher_reconciled h w =
     (if sh_connected h \<and> \<not> sh_awaiting_reconciliation h \<and> \<not> sh_locked h \<and> matcher_reconciled
      then process_is_current os h w else Some (False, w))"

definition health_invalidate :: "session_health \<Rightarrow> session_health" where
  "health_invalidate h = h\<lparr>sh_connected := False, sh_awaiting_reconciliation := True\<rparr>"

section \<open>Deadlines\<close>

text \<open>The clock and the attempt run over the same state, which an attempt may change.\<close>

partial_function (option) retry_hello ::
  "('v \<Rightarrow> ((64 word, io_error) result \<times> 'v) option) \<Rightarrow> ('v \<Rightarrow> (('a, io_error) result \<times> 'v) option) \<Rightarrow>
   64 word \<Rightarrow> 'v \<Rightarrow> (('a, io_error) result \<times> 'v) option" where
  [code]: "retry_hello clock attempt deadline v = io_bind clock (\<lambda>now v.
     if deadline \<le> now then Some (Err (TimedOut ''Hyprland admission deadline expired''), v)
     else (case attempt v of
         None \<Rightarrow> None
       | Some (Ok value, v) \<Rightarrow> Some (Ok value, v)
       | Some (Err error, v) \<Rightarrow>
           if kind_of error \<in> {TimedOutKind, BrokenPipeKind, UnexpectedEofKind, ConnectionResetKind, ConnectionAbortedKind}
           then retry_hello clock attempt deadline v
           else Some (Err error, v))) v"

definition handshake_deadline :: "('c, 'w) os \<Rightarrow> 64 word \<Rightarrow> ('w, 64 word) io" where
  "handshake_deadline os overall = io_bind (transport_monotonic_ns os) (\<lambda>now.
     io_of (case checked_add now 10000000 of
         None \<Rightarrow> Err invalid
       | Some limit \<Rightarrow> Ok (min_deadline overall limit)))"

definition admission_deadline_after :: "('c, 'w) os \<Rightarrow> duration \<Rightarrow> ('w, unit) io \<Rightarrow> ('w, 64 word) io" where
  "admission_deadline_after os wait verified = io_seq verified
     (io_seq (io_ensure (\<not> 2 ^ 64 \<le> wait) invalid)
     (io_seq (io_ensure (wait \<noteq> 0) invalid)
     (io_bind (transport_monotonic_ns os) (\<lambda>now.
      io_some (checked_add now (of_nat wait)) invalid))))"

section \<open>Sessions\<close>

record 'c session =
  ss_bridge :: "'c bridge"
  ss_metadata :: verified_metadata
  ss_matcher_bound :: bool
  ss_active :: bool
  ss_qualification :: qualification

definition accept_attempt ::
  "('c, 'w) os \<Rightarrow> 'c listener \<Rightarrow> verified_metadata \<Rightarrow> 64 word \<Rightarrow> ('w, 'c bridge) io" where
  "accept_attempt os listener metadata deadline =
     io_bind (listener_accept os listener (vm_peer metadata) deadline) (\<lambda>transport.
     io_bind (process_start os (vm_peer metadata)) (\<lambda>start.
     io_seq (io_ensure (start = vm_start_time metadata) (denied ''compositor PID/starttime changed at accept''))
     (io_bind (handshake_deadline os deadline) (\<lambda>limit.
      io_total (passive_handshake (transport_net os) transport (passive_identity metadata) limit)))))"

definition session_accept ::
  "('c, 'w) os \<Rightarrow> (byte list \<Rightarrow> string) \<Rightarrow> 'c listener \<Rightarrow> verified_metadata \<Rightarrow> 64 word \<Rightarrow> ('w, 'c session) io" where
  "session_accept os sha256 listener metadata deadline =
     io_seq (revalidate os sha256 metadata)
     (io_bind (retry_hello (transport_monotonic_ns os) (accept_attempt os listener metadata deadline) deadline) (\<lambda>bridge.
      io_of (Ok \<lparr>ss_bridge = bridge, ss_metadata = metadata, ss_matcher_bound = False, ss_active = False,
        ss_qualification = Unqualified\<rparr>)))"

definition accept_admitted ::
  "('c, 'w) os \<Rightarrow> embedded \<Rightarrow> 'c listener \<Rightarrow> admitted_metadata \<Rightarrow> 64 word \<Rightarrow> ('w, 'c session) io" where
  "accept_admitted os em listener admitted deadline =
     io_seq (io_ensure (valid_capabilities (id_qualification_revision (vm_descriptor (ad_metadata admitted)))
       (ad_feature_mask admitted)) (denied ''unsupported admitted features''))
     (io_seq (recheck os em (ad_metadata admitted))
     (io_bind (session_accept os (em_sha256 em) listener (ad_metadata admitted) deadline) (\<lambda>session.
      io_of (Ok (session\<lparr>ss_qualification := ad_qualification admitted, ss_active := True\<rparr>)))))"

definition connection_nonce :: "'c session \<Rightarrow> 64 word" where
  "connection_nonce s = br_nonce (ss_bridge s)"

definition health :: "'c session \<Rightarrow> session_health" where
  "health s = \<lparr>sh_connected = (br_transport (ss_bridge s) \<noteq> None),
     sh_awaiting_reconciliation = br_awaiting_reconciliation (ss_bridge s), sh_locked = br_locked (ss_bridge s),
     sh_nonce = connection_nonce s, sh_peer = vm_peer (ss_metadata s), sh_start_time = vm_start_time (ss_metadata s)\<rparr>"

definition feature_mask :: "'c session \<Rightarrow> 64 word" where
  "feature_mask s =
     (if ss_active s
      then if id_qualification_revision (vm_descriptor (ss_metadata s)) = 2 then TAP_FEATURES else FRESH_DOWN_SEND_KEY
      else 0)"

definition bind_matcher ::
  "'c session \<Rightarrow> transactions \<times> matcher \<Rightarrow> bool \<times> 'c session \<times> transactions \<times> matcher" where
  "bind_matcher s tm = (let (bound, tm) = await_reconciliation (connection_nonce s) tm
     in (bound, s\<lparr>ss_matcher_bound := bound\<rparr>, tm))"

section \<open>Reconnection\<close>

definition reverify :: "('c, 'w) os \<Rightarrow> embedded \<Rightarrow> 'c session \<Rightarrow> ('w, unit) io" where
  "reverify os em s = io_seq (if ss_active s then recheck os em (ss_metadata s) else io_of (Ok ()))
     (revalidate os (em_sha256 em) (ss_metadata s))"

text \<open>Lifting an action over the bridge that reconnection changes.\<close>

definition io_beside :: "('w, 'a) io \<Rightarrow> ('b \<times> 'w, 'a) io" where
  "io_beside m v = map_option (\<lambda>(r, w). (r, fst v, w)) (m (snd v))"

definition reconnect_attempt ::
  "('c, 'w) os \<Rightarrow> 'c listener \<Rightarrow> verified_metadata \<Rightarrow> 64 word \<Rightarrow> ('c bridge \<times> 'w, unit) io" where
  "reconnect_attempt os listener metadata deadline =
     io_bind (io_beside (listener_accept os listener (vm_peer metadata) deadline)) (\<lambda>transport.
     io_bind (io_beside (process_start os (vm_peer metadata))) (\<lambda>start.
     io_seq (io_ensure (start = vm_start_time metadata) (denied ''compositor PID/starttime changed at reconnect''))
     (io_bind (io_beside (handshake_deadline os deadline)) (\<lambda>limit.
      \<lambda>(b, w). Some (reconnect (transport_net os) transport (passive_identity metadata) limit b w)))))"

definition reconnect_verified ::
  "('c, 'w) os \<Rightarrow> 'c listener \<Rightarrow> 64 word \<Rightarrow> ('c session \<times> 'w, unit) io" where
  "reconnect_verified os listener deadline sw = (case sw of (s, w) \<Rightarrow>
     (case retry_hello (io_beside (transport_monotonic_ns os))
             (reconnect_attempt os listener (ss_metadata s) deadline) deadline (ss_bridge s, w) of
        None \<Rightarrow> None
      | Some (Ok _, b, w) \<Rightarrow> Some (Ok (), s\<lparr>ss_bridge := b, ss_matcher_bound := False\<rparr>, w)
      | Some (Err e, b, w) \<Rightarrow> Some (Err e, s\<lparr>ss_bridge := b\<rparr>, w)))"

definition session_reconnect ::
  "('c, 'w) os \<Rightarrow> embedded \<Rightarrow> 'c listener \<Rightarrow> 64 word \<Rightarrow> ('c session \<times> 'w, unit) io" where
  "session_reconnect os em listener deadline sw =
     io_seq (io_beside (reverify os em (fst sw))) (reconnect_verified os listener deadline) sw"

definition reconnect_for ::
  "('c, 'w) os \<Rightarrow> embedded \<Rightarrow> 'c listener \<Rightarrow> duration \<Rightarrow> ('c session \<times> 'w, unit) io" where
  "reconnect_for os em listener wait sw =
     io_bind (io_beside (admission_deadline_after os wait (reverify os em (fst sw))))
       (reconnect_verified os listener) sw"

definition session_request_reconciliation :: "'h event_handler \<Rightarrow> 'c session \<Rightarrow> 'h \<Rightarrow> 'c session \<times> 'h" where
  "session_request_reconciliation H s h = (let (b, h) = request_reconciliation H (ss_bridge s) h
     in (s\<lparr>ss_matcher_bound := False, ss_bridge := b\<rparr>, h))"

section \<open>Steps\<close>

text \<open>The filter around the daemon's handler: no research faults, no swallowed release.\<close>

definition down_only :: "bool \<Rightarrow> 'h event_handler \<Rightarrow> 'h event_handler" where
  "down_only releases H = \<lparr>modifier_release_actions = (\<lambda>_. releases),
     eh_propose = (\<lambda>scope event h. map_option (\<lambda>(decision, h).
        (if ne_state event = 0 \<and> decision = SwallowDecision then PassDecision else decision, h))
        (eh_propose H scope event h)),
     eh_causal_trace = eh_causal_trace H, eh_research_fault = (\<lambda>_ _ h. (NoFault, h)), eh_delivery = eh_delivery H,
     eh_reset = eh_reset H, eh_unlocked_epoch = eh_unlocked_epoch H, eh_disconnected = eh_disconnected H\<rparr>"

definition step_if_ready ::
  "('c, 'w) net \<Rightarrow> 'h event_handler \<Rightarrow> 64 word \<Rightarrow> 'c session \<Rightarrow> 'h \<Rightarrow> 'w \<Rightarrow>
   ((bool, io_error) result \<times> 'c session \<times> 'h \<times> 'w) option" where
  "step_if_ready net H deadline s h w =
     (if \<not> ss_matcher_bound s then Some (Err (denied ''matcher not bound to session nonce''), s, h, w)
      else map_option (\<lambda>(r, b, h, w). (r, s\<lparr>ss_bridge := b\<rparr>, h, w))
        (if ss_active s \<and> \<not> br_awaiting_reconciliation (ss_bridge s) \<and> \<not> br_locked (ss_bridge s)
         then admitted_step_if_ready net (down_only (feature_mask s = TAP_FEATURES) H) deadline (ss_bridge s) h w
         else passive_step_if_ready net H deadline (ss_bridge s) h w))"

section \<open>Admission ends\<close>

lemma hash_chunks_returns:
  "ticking os time \<Longrightarrow> returns time (hash_chunks os sha256 fd count hashed) w"
proof (induction os sha256 fd count hashed w rule: hash_chunks.induct)
  case (1 os sha256 fd count hashed w)
  show ?case
  proof (rule returns_unfold [OF hash_chunks.simps], rule returns_call, intro conjI)
    fix r w1
    assume r: "os_read os fd (16 * 1024) w = (r, w1)"
    then show "time w \<le> time w1"
      using tickingD(6) [OF 1(2)] by (simp add: less_imp_le)
    show "returns time (\<lambda>w. case r of
        Ok chunk \<Rightarrow> if chunk = [] then Some (Ok (sha256 hashed), w)
          else if HASH_BUDGET < count + length chunk then Some (Err (denied ''artifact exceeds hashing budget''), w)
          else hash_chunks os sha256 fd (count + length chunk) (hashed @ chunk) w
      | Err n \<Rightarrow> Some (Err (OsError n), w)) w1"
      using 1(1) [OF r [symmetric]] 1(2) by (auto intro!: returns_result returns_if simp del: hash_chunks.simps)
  qed
qed

lemma hash_file_returns [returns_intros]: "ticking os time \<Longrightarrow> returns time (hash_file os sha256 path) w"
  unfolding hash_file_def by (intro returns_intros hash_chunks_returns)

lemma bounded_read_returns [returns_intros]: "ticking os time \<Longrightarrow> returns time (bounded_read os path n) w"
  unfolding bounded_read_def by (intro returns_intros)

lemma immutable_file_returns [returns_intros]: "ticking os time \<Longrightarrow> returns time (immutable_file os path) w"
  unfolding immutable_file_def by (intro returns_intros)

lemma process_start_returns [returns_intros]: "ticking os time \<Longrightarrow> returns time (process_start os peer) w"
  unfolding process_start_def by (intro returns_intros)

lemma verify_files_returns [returns_intros]:
  "ticking os time \<Longrightarrow> returns time (verify_files_and_process os sha256 d peer) w"
  unfolding verify_files_and_process_def by (intro returns_intros)

lemma revalidate_returns [returns_intros]: "ticking os time \<Longrightarrow> returns time (revalidate os sha256 m) w"
  unfolding revalidate_def by (intro returns_intros)

lemma guarded_bytes_returns [returns_intros]: "ticking os time \<Longrightarrow> returns time (guarded_bytes os path) w"
  unfolding guarded_bytes_def by (intro returns_intros)

lemma recheck_returns [returns_intros]:
  assumes "ticking os time"
  shows "returns time (recheck os em m) w"
proof -
  have "returns time (verify_admission os em entry) w" for entry w
    using assms by (cases entry) (auto simp: verify_scope_def intro!: returns_intros)
  then show ?thesis
    unfolding recheck_def by (intro returns_intros)
qed

lemma verify_endpoint_returns [returns_intros]: "ticking os time \<Longrightarrow> returns time (verify_endpoint os l) w"
  unfolding verify_endpoint_def by (intro returns_intros)

lemma authenticate_returns [returns_intros]: "ticking os time \<Longrightarrow> returns time (authenticate os fd peer) w"
  unfolding authenticate_def case_prod_beta by (intro returns_intros)

lemmas transport_returns [returns_intros] = monotonic_returns(1) before_deadline_returns wait_returns

lemma listener_accept_returns [returns_intros]: "ticking os time \<Longrightarrow> returns time (listener_accept os l peer d) w"
  unfolding listener_accept_def wait_readable_def by (intro returns_intros)

lemma handshake_deadline_returns [returns_intros]: "ticking os time \<Longrightarrow> returns time (handshake_deadline os d) w"
  unfolding handshake_deadline_def by (intro returns_intros)

text \<open>Retrying ends, since the clock is read on every pass.\<close>

lemma retry_hello_returns:
  assumes attempt: "\<And>v. returns time attempt v"
    and clock: "\<And>v r v'. clock v = Some (r, v') \<Longrightarrow> time v < time v'" "\<And>v. returns time clock v"
      "\<And>v now v'. clock v = Some (Ok now, v') \<Longrightarrow> time v \<le> unat now"
  shows "returns time (retry_hello clock attempt d) v"
proof (rule loop_returns [where D = "unat d"])
  fix v
  assume IH: "\<And>v'. time v < time v' \<Longrightarrow> time v < unat d \<Longrightarrow> returns time (retry_hello clock attempt d) v'"
  show "returns time (retry_hello clock attempt d) v"
  proof (rule returns_unfold [OF retry_hello.simps returns_bind [OF clock(2)]])
    fix now v1
    assume now: "clock v = Some (Ok now, v1)"
    obtain r v2 where a: "attempt v1 = Some (r, v2)" "time v1 \<le> time v2"
      using attempt by (rule returnsE)
    have "returns time (retry_hello clock attempt d) v2" if "\<not> d \<le> now"
    proof (rule IH)
      show "time v < time v2"
        using clock(1) [OF now] a(2) by simp
      show "time v < unat d"
        using clock(3) [OF now] that by (simp add: not_le word_less_nat_alt)
    qed
    with a show "returns time (\<lambda>v. if d \<le> now then Some (Err (TimedOut ''Hyprland admission deadline expired''), v)
       else (case attempt v of
           None \<Rightarrow> None
         | Some (Ok value, v) \<Rightarrow> Some (Ok value, v)
         | Some (Err error, v) \<Rightarrow>
             if kind_of error \<in> {TimedOutKind, BrokenPipeKind, UnexpectedEofKind, ConnectionResetKind, ConnectionAbortedKind}
             then retry_hello clock attempt d v
             else Some (Err error, v))) v1"
      by (cases r) (auto simp: returns_def intro: le_trans)
  qed
qed

lemma net_time:
  assumes "ticking os time"
  shows "net_receive (transport_net os) fd d w = (r, w') \<Longrightarrow> time w \<le> time w'"
    and "net_send (transport_net os) fd packet d w = (r2, w') \<Longrightarrow> time w \<le> time w'"
  using receive_returns [OF assms, of fd d w] send_returns [OF assms, of fd packet d w]
  by (auto simp: transport_net_def returns_def)

lemma handshake_time:
  assumes "ticking os time"
    and "handshake_packet (transport_net os) fd identity d True hello w = (r, w')"
  shows "time w \<le> time w'"
  using assms(2) by (auto simp: handshake_packet_def Let_def dest: net_time [OF assms(1)]
      split: body.splits if_splits prod.splits result.splits)

lemma passive_handshake_returns [returns_intros]:
  assumes "ticking os time"
  shows "returns time (io_total (passive_handshake (transport_net os) fd identity d)) w"
proof -
  obtain r w' where h: "passive_handshake (transport_net os) fd identity d w = (r, w')" by (rule prod.exhaust)
  then have "time w \<le> time w'"
    by (auto simp: passive_handshake_def handshake_inner_def split: if_splits prod.splits result.splits
        dest!: net_time(1) [OF assms] handshake_time [OF assms])
  with h show ?thesis
    by (simp add: returns_def io_total_def)
qed

lemma accept_attempt_returns: "ticking os time \<Longrightarrow> returns time (accept_attempt os l m d) w"
  unfolding accept_attempt_def by (intro returns_intros)

lemma session_accept_returns [returns_intros]:
  "ticking os time \<Longrightarrow> returns time (session_accept os sha256 l m d) w"
  unfolding session_accept_def
  by (intro returns_intros retry_hello_returns accept_attempt_returns monotonic_returns)

lemma accept_admitted_returns: "ticking os time \<Longrightarrow> returns time (accept_admitted os em l a d) w"
  unfolding accept_admitted_def by (intro returns_intros)

lemma beside_returns [returns_intros]: "returns time m (snd v) \<Longrightarrow> returns (\<lambda>v. time (snd v)) (io_beside m) v"
  by (auto simp: returns_def io_beside_def)

lemma reconnect_time:
  "ticking os time \<Longrightarrow> reconnect (transport_net os) fd identity d b w = (r, b', w') \<Longrightarrow> time w \<le> time w'"
  by (auto simp: reconnect_def split: if_splits prod.splits result.splits
      dest!: net_time(1) [rotated -1] handshake_time [rotated -1])

lemma reconnect_attempt_returns:
  assumes "ticking os time"
  shows "returns (\<lambda>v. time (snd v)) (reconnect_attempt os l m d) v"
proof -
  have "returns (\<lambda>v. time (snd v))
      (\<lambda>(b, w). Some (reconnect (transport_net os) fd (passive_identity m) limit b w)) v" for fd limit v
    by (cases v, cases "reconnect (transport_net os) fd (passive_identity m) limit (fst v) (snd v)")
      (auto simp: returns_def dest: reconnect_time [OF assms])
  then show ?thesis
    unfolding reconnect_attempt_def by (intro returns_intros assms)
qed

lemma reconnect_verified_returns:
  assumes "ticking os time"
  shows "returns (\<lambda>v. time (snd v)) (reconnect_verified os l d) (s, w)"
proof -
  have "returns (\<lambda>v. time (snd v)) (retry_hello (io_beside (transport_monotonic_ns os))
      (reconnect_attempt os l (ss_metadata s) d) d) (ss_bridge s, w)"
    by (rule retry_hello_returns [OF reconnect_attempt_returns [OF assms]])
      (auto simp: io_beside_def intro: monotonic_returns [OF assms] intro!: beside_returns)
  then show ?thesis
    by (auto simp: returns_def reconnect_verified_def split: result.splits)
qed

lemma reconnect_for_returns:
  assumes "ticking os time"
  shows "returns (\<lambda>v. time (snd v)) (reconnect_for os em l wait) (s, w)"
proof -
  have "returns time (admission_deadline_after os wait (reverify os em s)) w"
    unfolding admission_deadline_after_def reverify_def by (auto intro!: returns_intros assms)
  then have "returns (\<lambda>v. time (snd v)) (io_bind (io_beside (admission_deadline_after os wait (reverify os em s)))
      (reconnect_verified os l)) (s, w)"
    using reconnect_verified_returns [OF assms] by (auto intro!: returns_bind beside_returns)
  then show ?thesis
    by (simp add: returns_def reconnect_for_def)
qed

section \<open>What an admission guarantees\<close>

text \<open>A retried action that succeeds did so in one of its attempts.\<close>

lemma retry_hello_attempt:
  assumes ret: "retry_hello clock attempt d v = Some y"
  shows "\<forall>a v'. y = (Ok a, v') \<longrightarrow> (\<exists>v1. attempt v1 = Some (Ok a, v'))"
proof (rule retry_hello.raw_induct [where P = "\<lambda>clock attempt d v y.
      \<forall>a v'. y = (Ok a, v') \<longrightarrow> (\<exists>v1. attempt v1 = Some (Ok a, v'))", OF _ ret])
  fix f clock attempt d v y
  assume IH: "\<And>clock attempt d v y. f clock attempt d v = Some y \<Longrightarrow>
      \<forall>a v'. y = (Ok a, v') \<longrightarrow> (\<exists>v1. attempt v1 = Some (Ok a, v'))"
    and eq: "io_bind clock (\<lambda>now v.
       if d \<le> now then Some (Err (TimedOut ''Hyprland admission deadline expired''), v)
       else (case attempt v of
           None \<Rightarrow> None
         | Some (Ok value, v) \<Rightarrow> Some (Ok value, v)
         | Some (Err error, v) \<Rightarrow>
             if kind_of error \<in> {TimedOutKind, BrokenPipeKind, UnexpectedEofKind, ConnectionResetKind, ConnectionAbortedKind}
             then f clock attempt d v
             else Some (Err error, v))) v = Some y"
  show "\<forall>a v'. y = (Ok a, v') \<longrightarrow> (\<exists>v1. attempt v1 = Some (Ok a, v'))"
    using eq by (auto split: if_splits option.splits result.splits) (blast dest: IH)+
qed

lemma retry_hello_ok:
  assumes "retry_hello clock attempt d v = Some (Ok a, v')"
  obtains v1 where "attempt v1 = Some (Ok a, v')"
  using retry_hello_attempt [OF assms] by blast

lemma passive_handshake_ok:
  "passive_handshake net transport identity d w = (Ok b, w') \<Longrightarrow> b = \<lparr>br_transport = Some transport, br_nonce = br_nonce b,
     br_epoch = 0, br_sequence = 0, br_retired = {}, br_previous_nonces = {}, br_awaiting_reconciliation = True,
     br_locked = False\<rparr> \<and> br_nonce b \<noteq> 0"
  by (auto simp: passive_handshake_def handshake_inner_def handshake_packet_def Let_def
      split: if_splits prod.splits result.splits body.splits)

lemma accept_attempt_ok:
  assumes "accept_attempt os l m d w = Some (Ok b, w')"
  obtains fd w1 w2 w3 w4 where "br_transport b = Some fd" "br_awaiting_reconciliation b" "br_nonce b \<noteq> 0"
    "pr_uid (vm_peer m) = os_geteuid os" "os_peer_credentials os fd w1 = (Ok (pr_uid (vm_peer m), pr_pid (vm_peer m)), w2)"
    "process_start os (vm_peer m) w3 = Some (Ok (vm_start_time m), w4)"
proof -
  obtain fd wa wb limit wc where a: "listener_accept os l (vm_peer m) d w = Some (Ok fd, wa)"
    "process_start os (vm_peer m) wa = Some (Ok (vm_start_time m), wb)"
    "passive_handshake (transport_net os) fd (passive_identity m) limit wc = (Ok b, w')"
    using assms by (auto simp: accept_attempt_def io_total_def)
  have "br_transport b = Some fd \<and> br_awaiting_reconciliation b \<and> br_nonce b \<noteq> 0"
    using passive_handshake_ok [OF a(3)] by (metis bridge.select_convs(1,7))
  with a(2) accept_authenticated [OF a(1)] that show thesis
    by blast
qed

lemma accept_admitted_ok:
  assumes "accept_admitted os em l a d w = Some (Ok s, w')"
  obtains b w1 w2 where "s = \<lparr>ss_bridge = b, ss_metadata = ad_metadata a, ss_matcher_bound = False, ss_active = True,
      ss_qualification = ad_qualification a\<rparr>"
    "valid_capabilities (id_qualification_revision (vm_descriptor (ad_metadata a))) (ad_feature_mask a)"
    "accept_attempt os l (ad_metadata a) d w1 = Some (Ok b, w2)"
proof -
  obtain b w1 w2 where r: "retry_hello (transport_monotonic_ns os) (accept_attempt os l (ad_metadata a) d) d w1 = Some (Ok b, w2)"
    and s: "s = \<lparr>ss_bridge = b, ss_metadata = ad_metadata a, ss_matcher_bound = False, ss_active = True,
      ss_qualification = ad_qualification a\<rparr>"
      "valid_capabilities (id_qualification_revision (vm_descriptor (ad_metadata a))) (ad_feature_mask a)"
    using assms by (auto simp: accept_admitted_def session_accept_def)
  from r obtain w3 where "accept_attempt os l (ad_metadata a) d w3 = Some (Ok b, w2)"
    by (rule retry_hello_ok)
  with s that show thesis
    by blast
qed

lemma down_only_congr:
  "down_only releases (H\<lparr>eh_research_fault := f, modifier_release_actions := m\<rparr>) = down_only releases H"
  by (simp add: down_only_def)

section \<open>Properties\<close>

text \<open>A machine with a registered compositor, for the examples.\<close>

definition ex_digest :: string where "ex_digest = replicate 64 CHR ''a''"

definition ex_hello :: packet where
  "ex_hello = \<lparr>pk_scope = \<lparr>sc_generation = 0, sc_lock_epoch = 0, sc_sequence = 0, sc_deadline_ns = 0, sc_nonce = 7\<rparr>,
     pk_body = HelloBody \<lparr>ni_capabilities = 0, ni_api_hash = ''api'', ni_artifact = ''sledge-stock-v1:'' @ ex_digest\<rparr>\<rparr>"

definition ex_store :: "string \<Rightarrow> path" where
  "ex_store name = \<lparr>pt_absolute = True, pt_components = [''nix'', ''store'', ''x'', name]\<rparr>"

definition ex_peer :: peer where "ex_peer = \<lparr>pr_uid = 1000, pr_pid = 42\<rparr>"

definition ex_stat :: string where
  "ex_stat = ''42 (hypr land) S 1 2 3 4 5 6 7 8 9 10 11 12 13 14 15 16 17 18 77 20''"

definition ex_maps :: string where
  "ex_maps = ''7f0-7f1 r-xp 0 08:01 9 /nix/store/x/plugin''"

definition ex_host :: "(unit, nat) os" where
  "ex_host = ex_os\<lparr>os_poll := (\<lambda>_ _ _ w. (Ok (1, Some 5), w + 1)),
     os_recv := (\<lambda>_ w. (Ok (512, case encode ex_hello of Ok bytes \<Rightarrow> bytes | Err _ \<Rightarrow> []), w + 1)),
     os_send := (\<lambda>_ _ w. (Ok 512, w + 1)),
     os_canonicalize := (\<lambda>p w. (Ok (if last (pt_components p) = ''exe'' then ex_store ''hyprland'' else p), w + 1)),
     os_metadata := (\<lambda>p w. (Ok \<lparr>st_uid = (if length (pt_components p) = 2 then 1000 else 0), st_mode = 0x8124,
        st_dev = 1, st_ino = 9, st_device = (8, 1), st_size = 0\<rparr>, w + 1)),
     os_read_prefix := (\<lambda>p n w. (Ok (as_bytes (if last (pt_components p) = ''stat'' then ex_stat else ex_maps)), w + 1)),
     os_open_file := (\<lambda>_ w. (Ok (), w + 1))\<rparr>"

definition ex_metadata :: verified_metadata where
  "ex_metadata = \<lparr>vm_descriptor = \<lparr>id_wire_version = 1, id_qualification_revision = 2,
       id_build_id = ''sledge-stock-v1:'' @ ex_digest, id_compositor_path = ex_store ''hyprland'',
       id_compositor_sha256 = ex_digest, id_sdk_api_hash = ''api'', id_plugin_path = ex_store ''plugin'',
       id_plugin_sha256 = ex_digest, id_capabilities = 0\<rparr>,
     vm_peer = ex_peer, vm_start_time = 77, vm_descriptor_digest = ex_digest\<rparr>"

definition ex_supported :: supported_entry where
  "ex_supported = \<lparr>se_descriptor_sha256 = ex_digest, se_build_id = ''sledge-stock-v1:'' @ ex_digest,
     se_evidence_sha256 = ex_digest, se_qualification_revision = 2, se_feature_mask = 3, se_approval_revision = 1\<rparr>"

definition ex_embedded :: embedded where
  "ex_embedded = \<lparr>em_sha256 = (\<lambda>_. ex_digest), em_policy = (\<lambda>_. Some \<lparr>po_revision = 2, po_entries = [SupportedEntry ex_supported]\<rparr>),
     em_acceptance = (\<lambda>_. Some \<lparr>ac_revision = 1, ac_entries = [ex_supported]\<rparr>), em_catalogue_bytes = [0],
     em_catalogue_pin = ex_digest, em_acceptance_bytes = [0], em_acceptance_pin = ex_digest\<rparr>"

definition ex_admitted :: admitted_metadata where
  "ex_admitted = \<lparr>ad_metadata = ex_metadata, ad_feature_mask = 3, ad_qualification = Supported\<rparr>"

definition ex_listener :: "unit listener" where
  "ex_listener = \<lparr>ls_fd = (), ls_directory = (), ls_name = ''s'', ls_device = 1, ls_inode = 2, ls_uid = 1000\<rparr>"

lemmas io_eval = io_bind_def io_seq_def io_sys_def io_of_def io_ensure_def ensure_def io_some_def io_utf8_def
  io_total_def

lemma ex_stat_fields:
  "after_last CHR '')'' ex_stat = Some '' S 1 2 3 4 5 6 7 8 9 10 11 12 13 14 15 16 17 18 77 20''"
  "split_whitespace '' S 1 2 3 4 5 6 7 8 9 10 11 12 13 14 15 16 17 18 77 20'' =
     [''S'', ''1'', ''2'', ''3'', ''4'', ''5'', ''6'', ''7'', ''8'', ''9'', ''10'', ''11'', ''12'', ''13'', ''14'',
      ''15'', ''16'', ''17'', ''18'', ''77'', ''20'']"
  "\<not> 4096 < length ex_stat" "utf8_valid (as_bytes ex_stat)"
  by (code_simp, code_simp, simp add: ex_stat_def, code_simp)

lemma ex_maps_fields:
  "text_lines ex_maps = [ex_maps]"
  "split_whitespace ex_maps = [''7f0-7f1'', ''r-xp'', ''0'', ''08:01'', ''9'', ''/nix/store/x/plugin'']"
  "utf8_valid (as_bytes ex_maps)" "utf8_valid (as_bytes ''/nix/store/x/plugin'')"
  by code_simp+

lemma ex_process_start: "process_start ex_host ex_peer w = Some (Ok 77, w + 2)"
  by (simp add: process_start_def bounded_read_def io_eval ex_host_def ex_os_def ex_peer_def proc_path_def
      parse_start_def ex_stat_fields word_at_def parse_u64_def digit_value_def Let_def)

lemma ex_hash: "hash_file ex_host (em_sha256 ex_embedded) path w = Some (Ok ex_digest, w + 3)"
  by (simp add: hash_file_def io_eval ex_host_def ex_os_def ex_embedded_def HASH_BUDGET_def hash_chunks.simps)

lemma ex_immutable:
  "name \<noteq> ''exe'' \<Longrightarrow> immutable_file ex_host (ex_store name) w = Some (Ok (ex_store name), w + 2)"
  by (simp add: immutable_file_def io_eval ex_host_def ex_os_def ex_store_def strip_prefix_def)

lemma ex_files: "verify_files_and_process ex_host (em_sha256 ex_embedded) (vm_descriptor ex_metadata) ex_peer w = Some (Ok (), w + 16)"
proof -
  have "mapped_line ''/nix/store/x/plugin'' \<lparr>st_uid = 0, st_mode = 0x8124, st_dev = 1, st_ino = 9, st_device = (8, 1), st_size = 0\<rparr> ex_maps"
    by (simp add: mapped_line_def ex_maps_fields word_at_def parse_mapping_device_def split_once_def parse_u64_def
        digit_value_def Let_def)
  moreover have "path_str (ex_store ''plugin'') = ''/nix/store/x/plugin''" "\<not> 4194304 < length ex_maps"
    by (simp_all add: path_str_def ex_store_def ex_maps_def)
  moreover have "os_canonicalize ex_host (proc_path ex_peer [''exe'']) w = (Ok (ex_store ''hyprland''), w + 1)"
    "bounded_read ex_host (proc_path ex_peer [''maps'']) (4 * 1024 * 1024) w =
       (if 4194304 < length ex_maps then Some (Err (denied ''verification input oversized''), w + 1) else Some (Ok (as_bytes ex_maps), w + 1))"
    "os_metadata ex_host (ex_store ''plugin'') w =
      (Ok \<lparr>st_uid = 0, st_mode = 0x8124, st_dev = 1, st_ino = 9, st_device = (8, 1), st_size = 0\<rparr>, w + 1)" for w
    by (simp_all add: bounded_read_def io_eval ex_host_def proc_path_def ex_store_def)
  ultimately show ?thesis
    by (simp add: verify_files_and_process_def ex_metadata_def io_eval ex_immutable ex_hash ex_maps_fields del: One_nat_def)
qed

lemma ex_revalidate: "revalidate ex_host (em_sha256 ex_embedded) ex_metadata w = Some (Ok (), w + 20)"
proof -
  have "vm_peer ex_metadata = ex_peer" "vm_start_time ex_metadata = 77"
    by (simp_all add: ex_metadata_def)
  then show ?thesis
    by (simp add: revalidate_def io_eval ex_process_start ex_files)
qed

lemma ex_recheck: "recheck ex_host ex_embedded ex_metadata w = Some (Ok (), w)"
proof -
  have "digest_syntax ex_digest"
    by code_simp
  then show ?thesis
    by (simp add: recheck_def select_embedded_def select_def pinned_def verify_acceptance_def io_eval ex_embedded_def
        ex_metadata_def ex_supported_def valid_capabilities_def TAP_FEATURES_def FRESH_DOWN_SEND_KEY_def
        MODIFIER_TAP_RELEASE_def)
qed

text \<open>A greeting with well-formed texts can be sent.\<close>

lemma hello_encodes:
  assumes "length (ni_api_hash i) \<le> 192" "length (ni_artifact i) \<le> 192" "ni_capabilities i = 0"
    "0 \<notin> set (as_bytes (ni_api_hash i))" "0 \<notin> set (as_bytes (ni_artifact i))"
    "utf8_valid (as_bytes (ni_api_hash i))" "utf8_valid (as_bytes (ni_artifact i))"
  shows "\<exists>bytes. encode \<lparr>pk_scope = s, pk_body = HelloBody i\<rparr> = Ok bytes"
    and "\<exists>bytes. encode \<lparr>pk_scope = s, pk_body = HelloAckBody i\<rparr> = Ok bytes"
proof -
  obtain b where b: "put_identity i (zeros 400) = Ok b" "length b = 400"
    using assms(1,2) put_identity_layout [of i] by auto
  have "decode_hello b = Ok i"
    using b(1) assms
    by (auto simp: put_identity_layout decode_hello_def fields_at unat_of_nat Let_def)
  then have "decode_body 1 s b = Ok (HelloBody i)" "decode_body 2 s b = Ok (HelloAckBody i)"
    using b(2) by (simp_all add: decode_body_def)
  then show "\<exists>bytes. encode \<lparr>pk_scope = s, pk_body = HelloBody i\<rparr> = Ok bytes"
    "\<exists>bytes. encode \<lparr>pk_scope = s, pk_body = HelloAckBody i\<rparr> = Ok bytes"
    using encode_layout [of "\<lparr>pk_scope = s, pk_body = HelloBody i\<rparr>" 1 b] encode_layout [of "\<lparr>pk_scope = s, pk_body = HelloAckBody i\<rparr>" 2 b]
      b decode_layout [of b 1 s] decode_layout [of b 2 s] by (simp_all add: Let_def)
qed

lemma ascii_text:
  assumes "list_all (\<lambda>c. 0 < (of_char c :: nat) \<and> (of_char c :: nat) < 128) t"
  shows "utf8_valid (as_bytes t) \<and> 0 \<notin> set (as_bytes t)"
  using assms
proof (induction t)
  case (Cons c t)
  then have "unat (of_nat (of_char c) :: byte) = of_char c"
    by (simp add: unat_of_nat)
  with Cons.prems have "(of_nat (of_char c) :: byte) < 0x80" "(of_nat (of_char c) :: byte) \<noteq> 0"
    by (auto simp: word_less_nat_alt)
  with Cons show ?case
    by (simp add: as_bytes_def)
qed (simp add: as_bytes_def)

lemma ex_hello_encodes:
  "\<exists>bytes. encode ex_hello = Ok bytes"
  "\<exists>bytes. encode \<lparr>pk_scope = pk_scope ex_hello, pk_body = HelloAckBody (passive_identity ex_metadata)\<rparr> = Ok bytes"
proof -
  let ?build = "''sledge-stock-v1:'' @ ex_digest"
  have "list_all (\<lambda>c. 0 < (of_char c :: nat) \<and> (of_char c :: nat) < 128) ?build"
    by (simp add: ex_digest_def list_all_iff)
  then have "utf8_valid (as_bytes ?build) \<and> 0 \<notin> set (as_bytes ?build)"
    by (rule ascii_text)
  moreover have "utf8_valid (as_bytes ''api'') \<and> 0 \<notin> set (as_bytes ''api'')"
    by (rule ascii_text) simp
  moreover have "length ?build \<le> 192"
    by (simp add: ex_digest_def)
  ultimately show "\<exists>bytes. encode ex_hello = Ok bytes"
    "\<exists>bytes. encode \<lparr>pk_scope = pk_scope ex_hello, pk_body = HelloAckBody (passive_identity ex_metadata)\<rparr> = Ok bytes"
    unfolding ex_hello_def passive_identity_def ex_metadata_def
    by (simp_all add: hello_encodes del: append.simps)
qed

lemma ex_clock: "w < 900 \<Longrightarrow> transport_monotonic_ns ex_host w = Some (Ok (of_nat w), w + 1)"
  by (simp add: transport_monotonic_ns_def io_eval ex_host_def ex_os_def unat_of_nat signed_of_nat bit_iff_odd)

lemma ex_before: "w < 900 \<Longrightarrow> (of_nat w :: 64 word) < 1000"
  by (simp add: word_less_nat_alt unat_of_nat)

lemma ex_wait: "w < 890 \<Longrightarrow> flags \<in> {POLLIN, POLLOUT} \<Longrightarrow> transport_wait ex_host () flags 1000 w = Some (Ok (), w + 3)"
proof -
  assume w: "w < 890" "flags \<in> {POLLIN, POLLOUT}"
  have "os_poll ex_host () flags n w = (Ok (1, Some 5), w + 1)" for n w
    by (simp add: ex_host_def)
  then have "wait_ready ex_host () flags 1000 w = Some (Ok 5, w + 3)"
    using w(1)
    by (subst wait_ready.simps) (simp add: before_deadline_def ex_clock ex_before not_le io_eval del: of_nat_add of_nat_Suc)
  with w(2) show ?thesis
    by (auto simp: transport_wait_def io_eval POLLIN_def POLLOUT_def)
qed

lemma ex_accept: "w < 800 \<Longrightarrow> listener_accept ex_host ex_listener ex_peer 1000 w = Some (Ok (), w + 12)"
proof -
  assume w: "w < 800"
  have "verify_endpoint ex_host ex_listener w = Some (Ok (), w + 2)" for w
    by (simp add: verify_endpoint_def io_eval ex_host_def ex_os_def ex_listener_def)
  moreover have "os_accept ex_host () w = (Ok (), w + 1)" "authenticate ex_host () ex_peer w = Some (Ok (), w + 1)" for w
    by (simp_all add: authenticate_def io_eval ex_host_def ex_os_def ex_peer_def)
  ultimately show ?thesis
    using w
    by (simp add: listener_accept_def wait_readable_def before_deadline_def ex_wait ex_clock io_eval ex_listener_def
        ex_before del: of_nat_add of_nat_Suc)
qed

lemma ex_handshake:
  "w < 800 \<Longrightarrow> \<exists>b. passive_handshake (transport_net ex_host) () (passive_identity ex_metadata) 1000 w = (Ok b, w + 10)"
proof -
  assume w: "w < 800"
  obtain bytes where b: "encode ex_hello = Ok bytes"
    using ex_hello_encodes by blast
  then have "os_recv ex_host () w = (Ok (512, bytes), w + 1)" for w
    by (simp add: ex_host_def)
  then have r: "receive ex_host () 1000 w = Some (Ok ex_hello, w + 5)"
    using w decode_encoded [OF b]
    by (subst receive.simps) (simp add: ex_wait io_eval before_deadline_def ex_clock PACKET_SIZE_def ex_before
        del: of_nat_add of_nat_Suc)
  let ?ack = "\<lparr>pk_scope = pk_scope ex_hello, pk_body = HelloAckBody (passive_identity ex_metadata)\<rparr>"
  obtain ack where "encode ?ack = Ok ack"
    using ex_hello_encodes(2) by blast
  moreover have "os_send ex_host () ack w = (Ok 512, w + 1)" for w
    by (simp add: ex_host_def)
  then have "send_bytes ex_host () ack 1000 (w + 5) = Some (Ok (), w + 10)"
    using w
    by (subst send_bytes.simps) (simp add: ex_wait io_eval before_deadline_def ex_clock PACKET_SIZE_def ex_before
        del: of_nat_add of_nat_Suc)
  ultimately have "transport_send ex_host () ?ack 1000 (w + 5) = Some (Ok (), w + 10)"
    by (simp add: transport_send_def io_eval)
  with r show ?thesis
    by (simp add: passive_handshake_def handshake_inner_def handshake_packet_def transport_net_def Let_def
        ex_hello_def passive_identity_def ex_metadata_def)
qed

lemma ex_admission: "\<exists>s w'. accept_admitted ex_host ex_embedded ex_listener ex_admitted 1000 0 = Some (Ok s, w')"
proof -
  have m: "vm_peer ex_metadata = ex_peer" "vm_start_time ex_metadata = 77" "ad_metadata ex_admitted = ex_metadata"
    by (simp_all add: ex_metadata_def ex_admitted_def)
  have "handshake_deadline ex_host 1000 35 = Some (Ok 1000, 36)"
    by (simp add: handshake_deadline_def ex_clock io_eval checked_add_def min_deadline_def)
  then have "\<exists>b. accept_attempt ex_host ex_listener ex_metadata 1000 21 = Some (Ok b, 46)"
    using ex_handshake [of 36]
    by (auto simp: accept_attempt_def m ex_accept ex_process_start io_eval)
  then have "\<exists>b. retry_hello (transport_monotonic_ns ex_host) (accept_attempt ex_host ex_listener ex_metadata 1000) 1000 20 = Some (Ok b, 46)"
    by (subst retry_hello.simps) (auto simp: ex_clock io_eval)
  moreover have "valid_capabilities (id_qualification_revision (vm_descriptor ex_metadata)) (ad_feature_mask ex_admitted)"
    by (simp add: valid_capabilities_def TAP_FEATURES_def FRESH_DOWN_SEND_KEY_def MODIFIER_TAP_RELEASE_def
        ex_metadata_def ex_admitted_def)
  ultimately show ?thesis
    by (auto simp: accept_admitted_def session_accept_def m ex_recheck ex_revalidate io_eval)
qed

text \<open>C34: Admission ends: on a system where time passes, admitting a session and reconnecting one return,
  however often the peer drops the connection or lets its greeting expire.\<close>

theorem admission_ends:
  assumes "ticking os time"
  shows "(\<exists>r w'. accept_admitted os em l a d w = Some (r, w')) \<and>
    (\<exists>r s' w'. reconnect_for os em l wait (s, w) = Some (r, s', w'))"
  using accept_admitted_returns [OF assms, of em l a d w] reconnect_for_returns [OF assms, of em l wait s w]
  by (auto simp: returns_def)

theorem admission_ends_witness:
  "\<exists>r w'. accept_admitted ex_os ex_embedded ex_listener ex_admitted 5 0 = Some (r, w')"
  using admission_ends [OF ex_os_ticking] by blast

text \<open>C35: The session decides only when it may: unless the matcher is bound to the session, the session was
  admitted, its peer is reconciled and the desktop unlocked, a step does the same for every proposal method
  of the handler, and in no state do the handler's own fault and release methods matter.\<close>

theorem session_gates_proposals:
  "step_if_ready net (H\<lparr>eh_propose := (if ss_matcher_bound s \<and> ss_active s \<and>
        \<not> br_awaiting_reconciliation (ss_bridge s) \<and> \<not> br_locked (ss_bridge s) then eh_propose H else p),
      eh_research_fault := f, modifier_release_actions := m\<rparr>) d s h w =
   step_if_ready net H d s h w"
  by (simp add: step_if_ready_def passive_step_if_ready_def admitted_step_if_ready_def passive_irrelevant down_only_congr
      del: event_handler.update_convs)



end
