(* ===== verification/Desktop.thy ===== *)
theory Desktop
  imports Text Machines
begin

text \<open>
  Typed desktop observations and source work: the focus identities, snapshots and source inventories of
  \<^verbatim>\<open>packages/linux/src/desktop/mod.rs\<close>, the aggregate budgets of \<^verbatim>\<open>operation.rs\<close>, the caches and the
  polling pass of \<^verbatim>\<open>worker.rs\<close>, and the bounded queue of \<^verbatim>\<open>packages/cli/src/daemon/source_queue.rs\<close>.
  The desktop protocols themselves are parameters. A lock that another thread may hold is a flag argument.
\<close>

section \<open>Focus\<close>

definition FOCUS_TTL :: duration where "FOCUS_TTL = from_millis 500"
definition IPC_TIMEOUT :: duration where "IPC_TIMEOUT = from_millis 400"

datatype focus_category = WaylandFocus | X11ClassFocus | KwinResourceClass

record focus_identity =
  fi_category :: focus_category
  fi_value :: string

text \<open>A control character is one of U+0000 to U+001F and U+007F to U+009F, here in UTF-8.\<close>

fun has_control :: "nat list \<Rightarrow> bool" where
  "has_control [] = False"
| "has_control (a # bs) =
     (a < 0x20 \<or> a = 0x7F \<or> (a = 0xC2 \<and> (case bs of b # _ \<Rightarrow> 0x80 \<le> b \<and> b \<le> 0x9F | [] \<Rightarrow> False)) \<or> has_control bs)"

definition valid_id :: "string \<Rightarrow> bool" where
  "valid_id value \<longleftrightarrow> value \<noteq> [] \<and> length value \<le> 4096 \<and> \<not> has_control (map of_char value)"

definition focus_identity_new :: "focus_category \<Rightarrow> string \<Rightarrow> focus_identity option" where
  "focus_identity_new category value =
     (if valid_id value then Some \<lparr>fi_category = category, fi_value = value\<rparr> else None)"

datatype lock_hint = LockedHint | UnlockedHint | UnknownHint

record desktop_snapshot =
  ds_focus :: "focus_identity option"
  ds_observed_at :: instant
  ds_lock_hint :: lock_hint

definition current_focus :: "instant \<Rightarrow> desktop_snapshot \<Rightarrow> focus_identity option" where
  "current_focus now s = (if now - ds_observed_at s \<le> FOCUS_TTL then ds_focus s else None)"

section \<open>Sources\<close>

record source =
  so_id :: string
  so_label :: string
  so_enabled :: bool

record source_catalog =
  sc_provider :: string
  sc_inventory :: string
  sc_sources :: "source list"
  sc_current :: "string option"

datatype desktop_error =
    UnavailableDesktop string
  | ProtocolError string
  | UnknownSource
  | DisabledSource
  | StaleInventory
  | SelectionFailed
  | DesktopIo

definition catalog_check :: "source_catalog \<Rightarrow> source_catalog \<Rightarrow> string \<Rightarrow> (unit, desktop_error) result" where
  "catalog_check catalog fresh ident =
     (if sc_provider catalog \<noteq> sc_provider fresh \<or> sc_inventory catalog \<noteq> sc_inventory fresh \<or>
         sc_sources catalog \<noteq> sc_sources fresh
      then Err StaleInventory
      else (case find (\<lambda>s. so_id s = ident) (sc_sources fresh) of
          None \<Rightarrow> Err UnknownSource
        | Some source \<Rightarrow> if \<not> so_enabled source then Err DisabledSource else Ok ()))"

section \<open>Caches\<close>

type_synonym focus_cache = "desktop_snapshot option"
type_synonym source_cache = "(source_catalog \<times> instant) option"

definition focus_cache_current :: "bool \<Rightarrow> instant \<Rightarrow> focus_cache \<Rightarrow> focus_identity option" where
  "focus_cache_current busy now cache = (if busy then None else Option.bind cache (current_focus now))"

definition source_cache_current :: "bool \<Rightarrow> instant \<Rightarrow> source_cache \<Rightarrow> source_catalog option" where
  "source_cache_current busy now cache = (if busy then None else (case cache of
      None \<Rightarrow> None
    | Some (catalog, time) \<Rightarrow> if now - time \<le> FOCUS_TTL then Some catalog else None))"

section \<open>Budgets\<close>

text \<open>The thread-local stack of budgets, newest first; the token names the shared stop flag.\<close>

record budget =
  bu_deadline :: instant
  bu_token :: nat

definition unavailable :: "string \<Rightarrow> desktop_error" where
  "unavailable message = UnavailableDesktop message"

fun remaining_from :: "instant \<Rightarrow> (nat \<Rightarrow> bool) \<Rightarrow> duration \<Rightarrow> budget list \<Rightarrow> (duration, desktop_error) result" where
  "remaining_from now stopped left [] =
     (if left = 0 then Err (unavailable ''desktop operation deadline'') else Ok left)"
| "remaining_from now stopped left (b # bs) =
     (if stopped (bu_token b) then Err (unavailable ''desktop operation cancelled'')
      else remaining_from now stopped (min left (bu_deadline b - now)) bs)"

text \<open>The source walks the stack from its oldest entry.\<close>

definition remaining :: "instant \<Rightarrow> (nat \<Rightarrow> bool) \<Rightarrow> budget list \<Rightarrow> (duration, desktop_error) result" where
  "remaining now stopped budgets = remaining_from now stopped IPC_TIMEOUT (rev budgets)"

definition budget_scope :: "instant \<Rightarrow> nat \<Rightarrow> budget list \<Rightarrow> budget list" where
  "budget_scope now token budgets = \<lparr>bu_deadline = now + IPC_TIMEOUT, bu_token = token\<rparr> # budgets"

text \<open>An operation runs over a world that tells the time and the stop flags; the scope is popped on
  every way out.\<close>

definition operation_run ::
  "('w \<Rightarrow> instant) \<Rightarrow> ('w \<Rightarrow> nat \<Rightarrow> bool) \<Rightarrow> nat \<Rightarrow>
   (budget list \<Rightarrow> 'w \<Rightarrow> ('a, desktop_error) result \<times> 'w) \<Rightarrow> budget list \<Rightarrow> 'w \<Rightarrow> ('a, desktop_error) result \<times> 'w" where
  "operation_run clock flags token operation budgets w =
     (let budgets = budget_scope (clock w) token budgets in
      case remaining (clock w) (flags w) budgets of
        Err e \<Rightarrow> (Err e, w)
      | Ok _ \<Rightarrow> (case operation budgets w of
            (Err e, w) \<Rightarrow> (Err e, w)
          | (Ok a, w) \<Rightarrow> (case remaining (clock w) (flags w) budgets of
                Err e \<Rightarrow> (Err e, w)
              | Ok _ \<Rightarrow> (Ok a, w))))"

section \<open>The polling pass\<close>

text \<open>One pass of the worker thread: what the provider observed, and whether the budget still stood after
  each of the two calls.\<close>

definition worker_pass ::
  "(desktop_snapshot, desktop_error) result \<Rightarrow> bool \<Rightarrow> (source_catalog, desktop_error) result \<Rightarrow> bool \<Rightarrow> instant \<Rightarrow>
   focus_cache \<times> source_cache" where
  "worker_pass poll in_time sources in_time_after started =
     (let observation = (case poll of Ok s \<Rightarrow> if in_time then Some s else None | Err _ \<Rightarrow> None);
          catalog = (if observation \<noteq> None then (case sources of Ok c \<Rightarrow> Some c | Err _ \<Rightarrow> None) else None)
      in (observation, if in_time_after then map_option (\<lambda>c. (c, started)) catalog else None))"

section \<open>The source queue\<close>

datatype backend_error =
    MissingPermission string
  | TapInstall string
  | InjectError string
  | UnknownInputSourceError string
  | OtherBackend string

definition CAPACITY :: nat where "CAPACITY = 16"

record source_action =
  sa_id :: string
  sa_catalog :: source_catalog

record source_queue =
  sq_channel :: "source_action list"
  sq_receiver_gone :: bool
  sq_cache :: source_cache
  sq_stopped :: bool

definition submit_captured :: "string \<Rightarrow> source_catalog \<Rightarrow> source_queue \<Rightarrow> (unit, backend_error) result \<times> source_queue" where
  "submit_captured ident catalog q =
     (if sq_stopped q then (Err (InjectError ''source worker stopped''), q)
      else if sq_receiver_gone q then
        (Err (InjectError ''source queue admission failed: sending on a closed channel''), q)
      else if CAPACITY \<le> length (sq_channel q) then
        (Err (InjectError ''source queue admission failed: sending on a full channel''), q)
      else (Ok (), q\<lparr>sq_channel := sq_channel q @ [\<lparr>sa_id = ident, sa_catalog = catalog\<rparr>]\<rparr>))"

definition submit ::
  "bool \<Rightarrow> instant \<Rightarrow> string \<Rightarrow> source_queue \<Rightarrow> (unit, backend_error) result \<times> source_queue" where
  "submit busy now ident q = (case source_cache_current busy now (sq_cache q) of
      None \<Rightarrow> (Err (InjectError ''source inventory unavailable or expired''), q)
    | Some catalog \<Rightarrow> (case find (\<lambda>s. so_id s = ident) (sc_sources catalog) of
          None \<Rightarrow> (Err (UnknownInputSourceError ident), q)
        | Some source \<Rightarrow>
            if \<not> so_enabled source then (Err (InjectError ''disabled input source''), q)
            else submit_captured ident catalog q))"

text \<open>The worker takes one action and hands it, with the inventory it was queued under, to the provider.\<close>

definition take_action :: "source_queue \<Rightarrow> source_action option \<times> source_queue" where
  "take_action q = (case sq_channel q of
      [] \<Rightarrow> (None, q)
    | a # rest \<Rightarrow> (Some a, q\<lparr>sq_channel := rest\<rparr>))"

definition stop_worker :: "source_queue \<Rightarrow> source_queue" where
  "stop_worker q = q\<lparr>sq_stopped := True, sq_receiver_gone := True\<rparr>"

section \<open>Facts\<close>

lemma remaining_from_ok:
  "remaining_from now stopped left bs = Ok d \<longleftrightarrow>
     (\<forall>b \<in> set bs. \<not> stopped (bu_token b)) \<and> 0 < d \<and> d = Min (insert left ((\<lambda>b. bu_deadline b - now) ` set bs))"
proof (induction bs arbitrary: left)
  case (Cons b bs)
  have "Min (insert (min left (bu_deadline b - now)) A) = Min (insert left (insert (bu_deadline b - now) A))"
    if "finite A" for A
    using that by (cases "A = {}") (simp_all add: min.assoc min.left_commute)
  then show ?case
    using Cons.IH by auto
qed auto

text \<open>Nested scopes never renew a budget: what remains is at most what every enclosing scope has left.\<close>

lemma remaining_nested:
  "remaining now stopped (bs @ bs') = Ok d \<Longrightarrow> \<exists>d'. remaining now stopped bs' = Ok d' \<and> d \<le> d'"
proof -
  let ?A = "\<lambda>bs. insert IPC_TIMEOUT ((\<lambda>b. bu_deadline b - now) ` set bs)"
  assume "remaining now stopped (bs @ bs') = Ok d"
  then have d: "\<forall>b \<in> set (bs @ bs'). \<not> stopped (bu_token b)" "0 < d" "d = Min (?A (bs @ bs'))"
    by (auto simp: remaining_def remaining_from_ok Un_commute)
  have "Min (?A (bs @ bs')) \<le> Min (?A bs')"
    by (intro Min_antimono) auto
  moreover from this d(2,3) have "0 < Min (?A bs')"
    by (metis less_le_trans)
  ultimately have "remaining now stopped bs' = Ok (Min (?A bs'))"
    using d(1) by (simp add: remaining_def remaining_from_ok del: Min_insert Min_gr_iff)
  with d(3) \<open>Min (?A (bs @ bs')) \<le> Min (?A bs')\<close> show ?thesis
    by blast
qed

lemma operation_run_ok:
  "operation_run clock flags token operation bs w = (Ok a, w') \<Longrightarrow>
     operation (budget_scope (clock w) token bs) w = (Ok a, w') \<and> \<not> flags w' token \<and>
     clock w' < clock w + IPC_TIMEOUT \<and> (\<forall>b \<in> set bs. clock w' < bu_deadline b)"
  by (auto simp: operation_run_def remaining_def remaining_from_ok budget_scope_def Let_def
      split: result.splits prod.splits)

definition queue_ok :: "source_queue \<Rightarrow> bool" where
  "queue_ok q \<longleftrightarrow> length (sq_channel q) \<le> CAPACITY \<and>
     list_all (\<lambda>a. \<exists>s \<in> set (sc_sources (sa_catalog a)). so_id s = sa_id a \<and> so_enabled s) (sq_channel q)"

lemma find_member: "find P xs = Some x \<Longrightarrow> x \<in> set xs \<and> P x"
  by (auto simp: find_Some_iff)

lemma submit_ok:
  assumes "submit busy now ident q = (Ok u, q')"
  shows "\<exists>catalog time. sq_cache q = Some (catalog, time) \<and> now - time \<le> FOCUS_TTL \<and>
    (\<exists>s \<in> set (sc_sources catalog). so_id s = ident \<and> so_enabled s) \<and> length (sq_channel q) < CAPACITY \<and>
    \<not> sq_stopped q \<and> q' = q\<lparr>sq_channel := sq_channel q @ [\<lparr>sa_id = ident, sa_catalog = catalog\<rparr>]\<rparr>"
  using assms
  by (auto simp: submit_def submit_captured_def source_cache_current_def
      split: option.splits if_splits dest!: find_member)

lemma submit_err: "submit busy now ident q = (Err e, q') \<Longrightarrow> q' = q"
  by (auto simp: submit_def submit_captured_def split: option.splits if_splits)

lemma submit_queue_ok:
  assumes "queue_ok q" and "submit busy now ident q = (r, q')"
  shows "queue_ok q'"
proof (cases r)
  case (Ok u)
  with submit_ok [OF assms(2) [unfolded Ok]] assms(1) show ?thesis
    by (auto simp: queue_ok_def)
next
  case (Err e)
  with submit_err [OF assms(2) [unfolded Err]] assms(1) show ?thesis
    by simp
qed

end
