(* ===== verification/Config.thy ===== *)
theory Config
  imports Matcher Text "HOL-Library.List_Lexorder" "HOL-Library.Char_ord" "HOL-Library.Multiset"
begin

text \<open>
  The configuration compiler of \<^verbatim>\<open>packages/config\<close>: the document types of
  \<^verbatim>\<open>models/src/lib.rs\<close>, alias validation and lookup of \<^verbatim>\<open>src/aliases.rs\<close>, and the
  translation of bindings into rules of \<^verbatim>\<open>src/lib.rs\<close>. A Rust string is its UTF-8 byte
  sequence, which a HOL \<open>string\<close> is; its order is the byte-wise lexicographic one. The TOML
  parser and the file system are parameters. An error carries the offending identity itself
  where the source renders it as debug text.
\<close>

section \<open>Documents\<close>

record linux_app_ids =
  wayland :: "string option"
  x11_class :: "string option"

record app_alias =
  aa_macos :: "string option"
  aa_linux :: "string option"
  aa_windows :: "string option"
  aa_linux_ids :: "linux_app_ids option"

record input_source_alias =
  isa_macos :: "string option"
  isa_linux :: "string option"
  isa_windows :: "string option"

datatype trigger_doc =
    HotkeyDoc string "string list"
  | TapDoc string "32 word" "32 word"

datatype action_doc =
    SendKeyDoc string "string list"
  | SetInputSourceDoc "string option" "string option"

record binding_doc =
  bd_when :: "string list option"
  bd_trigger :: trigger_doc
  bd_action :: action_doc

record daemon_section =
  log_level :: string

definition default_log_level :: string where "default_log_level = ''info''"

definition daemon_section_default :: daemon_section where
  "daemon_section_default = \<lparr>log_level = default_log_level\<rparr>"

record config_doc =
  cd_daemon :: daemon_section
  cd_app_aliases :: "(string, app_alias) hashmap"
  cd_input_source_aliases :: "(string, input_source_alias) hashmap"
  cd_bindings :: "binding_doc list"

datatype platform = MacOS | Linux | Windows

datatype app_identity =
    MacOSApp string
  | LinuxLegacy string
  | LinuxWayland string
  | LinuxX11Class string
  | WindowsApp string

datatype identity = AppId app_identity | SourceId platform string

datatype config_error =
    Io string string
  | Parse string
  | InvalidLogLevel string
  | UnknownKey string nat
  | UnknownModifier string nat
  | UnknownAlias string nat
  | TapCountTooLow nat "32 word"
  | TapWindowZero nat
  | TapNotModifier nat string
  | InvalidInputSourceAction nat
  | UnknownInputSource nat string
  | MissingInputSourcePlatform nat string platform
  | EmptyIdentifier string string
  | DuplicateIdentifier string identity string string

record config =
  c_daemon :: daemon_section
  c_app_aliases :: "(string, app_alias) hashmap"
  c_input_source_aliases :: "(string, input_source_alias) hashmap"
  c_rules :: rule_set

section \<open>Identifiers\<close>

definition trim_is_empty :: "string \<Rightarrow> bool" where
  "trim_is_empty s = all_white (map of_char s)"

definition validate_identifier :: "string \<Rightarrow> string \<Rightarrow> string \<Rightarrow> (unit, config_error) result" where
  "validate_identifier category name ident =
     (if trim_is_empty ident then Err (EmptyIdentifier category name) else Ok ())"

section \<open>Aliases\<close>

fun identity_value :: "app_identity \<Rightarrow> string" where
  "identity_value (MacOSApp ident) = ident"
| "identity_value (LinuxLegacy ident) = ident"
| "identity_value (LinuxWayland ident) = ident"
| "identity_value (LinuxX11Class ident) = ident"
| "identity_value (WindowsApp ident) = ident"

definition flatten_options :: "'a option list \<Rightarrow> 'a list" where
  "flatten_options xs = concat (map (\<lambda>x. case x of None \<Rightarrow> [] | Some a \<Rightarrow> [a]) xs)"

definition app_identities :: "app_alias \<Rightarrow> app_identity list" where
  "app_identities alias =
     (let linux = aa_linux_ids alias
      in flatten_options [
           map_option MacOSApp (aa_macos alias),
           map_option LinuxLegacy (aa_linux alias),
           map_option LinuxWayland (Option.bind linux wayland),
           map_option LinuxX11Class (Option.bind linux x11_class),
           map_option WindowsApp (aa_windows alias)])"

fun iter_min :: "'a::linorder list \<Rightarrow> 'a option" where
  "iter_min [] = None"
| "iter_min (x # xs) = (case iter_min xs of None \<Rightarrow> Some x | Some y \<Rightarrow> Some (min x y))"

definition resolve_app_identity :: "(string, app_alias) hashmap \<Rightarrow> app_identity \<Rightarrow> string option" where
  "resolve_app_identity aliases identity =
     iter_min (map fst (filter (\<lambda>(_, alias). list_ex (\<lambda>i. i = identity) (app_identities alias)) aliases))"

definition input_source_id :: "input_source_alias \<Rightarrow> platform \<Rightarrow> string option" where
  "input_source_id alias platform = (case platform of
      MacOS \<Rightarrow> isa_macos alias | Linux \<Rightarrow> isa_linux alias | Windows \<Rightarrow> isa_windows alias)"

definition resolve_input_source ::
  "(string, input_source_alias) hashmap \<Rightarrow> string \<Rightarrow> platform \<Rightarrow> string option" where
  "resolve_input_source aliases name platform =
     (case hm_get aliases name of None \<Rightarrow> None | Some alias \<Rightarrow> input_source_id alias platform)"

definition resolve_alias :: "(string, app_alias) hashmap \<Rightarrow> string \<Rightarrow> platform \<Rightarrow> string option" where
  "resolve_alias aliases name platform = (case hm_get aliases name of
      None \<Rightarrow> None
    | Some a \<Rightarrow> (case platform of MacOS \<Rightarrow> aa_macos a | Linux \<Rightarrow> aa_linux a | Windows \<Rightarrow> aa_windows a))"

definition sorted_aliases :: "(string, 'a) hashmap \<Rightarrow> (string \<times> 'a) list" where
  "sorted_aliases aliases = sort_key fst aliases"

text \<open>The two nested loops of each alias check visit the identities in order, each with the name
  of its alias, and thread the map of identities seen so far.\<close>

fun check_identities ::
  "('i \<Rightarrow> string \<Rightarrow> (unit, config_error) result) \<Rightarrow> ('i \<Rightarrow> string \<Rightarrow> string \<Rightarrow> config_error) \<Rightarrow>
   ('i \<times> string) list \<Rightarrow> ('i, string) hashmap \<Rightarrow> (unit, config_error) result" where
  "check_identities valid duplicate [] seen = Ok ()"
| "check_identities valid duplicate ((identity, name) # rest) seen =
     and_then (valid identity name) (\<lambda>_.
       (case hm_get seen identity of
          Some first \<Rightarrow> Err (duplicate identity first name)
        | None \<Rightarrow> check_identities valid duplicate rest (hm_insert identity name seen)))"

definition app_identity_names :: "(string, app_alias) hashmap \<Rightarrow> (app_identity \<times> string) list" where
  "app_identity_names aliases =
     concat (map (\<lambda>(name, alias). map (\<lambda>i. (i, name)) (app_identities alias)) (sorted_aliases aliases))"

definition validate_app_aliases :: "(string, app_alias) hashmap \<Rightarrow> (unit, config_error) result" where
  "validate_app_aliases aliases =
     check_identities (\<lambda>identity name. validate_identifier ''app'' name (identity_value identity))
       (\<lambda>identity first second. DuplicateIdentifier ''app'' (AppId identity) first second)
       (app_identity_names aliases) []"

definition source_identity_names ::
  "(string, input_source_alias) hashmap \<Rightarrow> ((platform \<times> string) \<times> string) list" where
  "source_identity_names aliases =
     concat (map (\<lambda>(name, alias).
       concat (map (\<lambda>platform. case input_source_id alias platform of
           None \<Rightarrow> [] | Some ident \<Rightarrow> [((platform, ident), name)]) [MacOS, Linux, Windows]))
       (sorted_aliases aliases))"

definition validate_input_sources ::
  "(string, input_source_alias) hashmap \<Rightarrow> (unit, config_error) result" where
  "validate_input_sources aliases =
     check_identities (\<lambda>(platform, ident) name. validate_identifier ''input source'' name ident)
       (\<lambda>(platform, ident) first second.
          DuplicateIdentifier ''input source'' (SourceId platform ident) first second)
       (source_identity_names aliases) []"

section \<open>Names\<close>

definition validate_log_level :: "string \<Rightarrow> (unit, config_error) result" where
  "validate_log_level level =
     (if level \<in> {''trace'', ''debug'', ''info'', ''warn'', ''error''} then Ok ()
      else Err (InvalidLogLevel level))"

definition mod_names :: "(string \<times> modifiers) list" where
  "mod_names = [
     (''ctrl'', CTRL), (''shift'', SHIFT), (''alt'', ALT),
     (''cmd'', CMD), (''meta'', CMD), (''super'', CMD), (''fn'', FN),
     (''left_ctrl'', LEFT_CTRL OR CTRL), (''right_ctrl'', RIGHT_CTRL OR CTRL),
     (''left_shift'', LEFT_SHIFT OR SHIFT), (''right_shift'', RIGHT_SHIFT OR SHIFT),
     (''left_alt'', LEFT_ALT OR ALT), (''right_alt'', RIGHT_ALT OR ALT),
     (''left_cmd'', LEFT_CMD OR CMD), (''right_cmd'', RIGHT_CMD OR CMD)]"

definition mod_from_name :: "string \<Rightarrow> modifiers option" where
  "mod_from_name name = map_of mod_names name"

definition keycode_names :: "(string \<times> key_code) list" where
  "keycode_names = [
   (''KeyA'', KeyA), (''KeyB'', KeyB), (''KeyC'', KeyC), (''KeyD'', KeyD),
   (''KeyE'', KeyE), (''KeyF'', KeyF), (''KeyG'', KeyG), (''KeyH'', KeyH),
   (''KeyI'', KeyI), (''KeyJ'', KeyJ), (''KeyK'', KeyK), (''KeyL'', KeyL),
   (''KeyM'', KeyM), (''KeyN'', KeyN), (''KeyO'', KeyO), (''KeyP'', KeyP),
   (''KeyQ'', KeyQ), (''KeyR'', KeyR), (''KeyS'', KeyS), (''KeyT'', KeyT),
   (''KeyU'', KeyU), (''KeyV'', KeyV), (''KeyW'', KeyW), (''KeyX'', KeyX),
   (''KeyY'', KeyY), (''KeyZ'', KeyZ), (''Digit0'', Digit0), (''Digit1'', Digit1),
   (''Digit2'', Digit2), (''Digit3'', Digit3), (''Digit4'', Digit4), (''Digit5'', Digit5),
   (''Digit6'', Digit6), (''Digit7'', Digit7), (''Digit8'', Digit8), (''Digit9'', Digit9),
   (''F1'', F1), (''F2'', F2), (''F3'', F3), (''F4'', F4),
   (''F5'', F5), (''F6'', F6), (''F7'', F7), (''F8'', F8),
   (''F9'', F9), (''F10'', F10), (''F11'', F11), (''F12'', F12),
   (''F13'', F13), (''F14'', F14), (''F15'', F15), (''F16'', F16),
   (''F17'', F17), (''F18'', F18), (''F19'', F19), (''F20'', F20),
   (''F21'', F21), (''F22'', F22), (''F23'', F23), (''F24'', F24),
   (''ArrowUp'', ArrowUp), (''ArrowDown'', ArrowDown), (''ArrowLeft'', ArrowLeft), (''ArrowRight'', ArrowRight),
   (''LeftShift'', LeftShift), (''RightShift'', RightShift), (''LeftCtrl'', LeftCtrl), (''RightCtrl'', RightCtrl),
   (''LeftAlt'', LeftAlt), (''RightAlt'', RightAlt), (''LeftCmd'', LeftCmd), (''RightCmd'', RightCmd),
   (''Fn'', Fn), (''CapsLock'', CapsLock), (''Return'', Return), (''Tab'', Tab),
   (''Space'', Space), (''Backspace'', Backspace), (''Delete'', Delete), (''Escape'', Escape),
   (''Semicolon'', Semicolon), (''Quote'', Quote), (''Comma'', Comma), (''Period'', Period),
   (''Slash'', Slash), (''Backslash'', Backslash), (''Backquote'', Backquote), (''Minus'', Minus),
   (''Equal'', Equal), (''LeftBracket'', LeftBracket), (''RightBracket'', RightBracket), (''Home'', Home),
   (''End'', End), (''PageUp'', PageUp), (''PageDown'', PageDown), (''Insert'', Insert)]"

definition keycode_from_name :: "string \<Rightarrow> key_code option" where
  "keycode_from_name name = map_of keycode_names name"

definition parse_keycode :: "nat \<Rightarrow> string \<Rightarrow> (key_code, config_error) result" where
  "parse_keycode index name = (case keycode_from_name name of
      Some key \<Rightarrow> Ok key | None \<Rightarrow> Err (UnknownKey name index))"

fun parse_mods_from :: "nat \<Rightarrow> string list \<Rightarrow> modifiers \<Rightarrow> (modifiers, config_error) result" where
  "parse_mods_from index [] m = Ok m"
| "parse_mods_from index (name # names) m = (case mod_from_name name of
      None \<Rightarrow> Err (UnknownModifier name index)
    | Some bits \<Rightarrow> parse_mods_from index names (m OR bits))"

definition parse_mods :: "nat \<Rightarrow> string list \<Rightarrow> (modifiers, config_error) result" where
  "parse_mods index names = parse_mods_from index names mods_empty"

section \<open>Bindings\<close>

fun parse_trigger :: "nat \<Rightarrow> trigger_doc \<Rightarrow> (trigger, config_error) result" where
  "parse_trigger index (HotkeyDoc key names) =
     and_then (parse_keycode index key) (\<lambda>key.
     and_then (parse_mods index names) (\<lambda>m.
       Ok (Hotkey \<lparr>hk_key = key, hk_mods = m\<rparr>)))"
| "parse_trigger index (TapDoc tap taps within_ms) =
     and_then (parse_keycode index tap) (\<lambda>key.
     and_then (ensure (is_modifier key) (TapNotModifier index tap)) (\<lambda>_.
     and_then (ensure (\<not> taps < 2) (TapCountTooLow index taps)) (\<lambda>_.
     and_then (ensure (within_ms \<noteq> 0) (TapWindowZero index)) (\<lambda>_.
       Ok (Tap \<lparr>tt_tap = key, tt_count = taps, tt_within_ms = within_ms\<rparr>)))))"

fun parse_action ::
  "nat \<Rightarrow> action_doc \<Rightarrow> (string, input_source_alias) hashmap \<Rightarrow> platform \<Rightarrow> (action, config_error) result" where
  "parse_action index (SendKeyDoc key names) input_sources platform =
     and_then (parse_keycode index key) (\<lambda>key.
     and_then (parse_mods index names) (\<lambda>m.
       Ok (SendKey key m)))"
| "parse_action index (SetInputSourceDoc (Some ident) None) input_sources platform =
     and_then (validate_identifier ''native input source'' (''binding #'' @ show_nat index) ident) (\<lambda>_.
       Ok (SetInputSource ident))"
| "parse_action index (SetInputSourceDoc None (Some name)) input_sources platform =
     (if hm_get input_sources name = None then Err (UnknownInputSource index name)
      else (case resolve_input_source input_sources name platform of
          None \<Rightarrow> Err (MissingInputSourcePlatform index name platform)
        | Some ident \<Rightarrow> Ok (SetInputSource ident)))"
| "parse_action index (SetInputSourceDoc _ _) input_sources platform =
     Err (InvalidInputSourceAction index)"

definition validate_when ::
  "nat \<Rightarrow> string list \<Rightarrow> (string, app_alias) hashmap \<Rightarrow> (string list, config_error) result" where
  "validate_when index app_in aliases =
     and_then (try_each (\<lambda>name. ensure (hm_get aliases name \<noteq> None) (UnknownAlias name index)) app_in)
       (\<lambda>_. Ok app_in)"

definition validate_binding ::
  "nat \<Rightarrow> binding_doc \<Rightarrow> (string, app_alias) hashmap \<Rightarrow> (string, input_source_alias) hashmap \<Rightarrow>
   platform \<Rightarrow> (rule, config_error) result" where
  "validate_binding index b aliases input_sources platform =
     and_then (parse_trigger index (bd_trigger b)) (\<lambda>trigger.
     and_then (parse_action index (bd_action b) input_sources platform) (\<lambda>action.
     and_then (case bd_when b of
           None \<Rightarrow> Ok None
         | Some w \<Rightarrow> and_then (validate_when index w aliases) (\<lambda>apps. Ok (Some apps))) (\<lambda>when_app_in.
       Ok \<lparr>r_trigger = trigger, r_action = action, r_when_app_in = when_app_in\<rparr>)))"

definition validate :: "config_doc \<Rightarrow> platform \<Rightarrow> (config, config_error) result" where
  "validate doc platform =
     and_then (validate_log_level (log_level (cd_daemon doc))) (\<lambda>_.
     and_then (validate_app_aliases (cd_app_aliases doc)) (\<lambda>_.
     and_then (validate_input_sources (cd_input_source_aliases doc)) (\<lambda>_.
     and_then (collect_results (\<lambda>(idx, b). validate_binding idx b (cd_app_aliases doc)
                 (cd_input_source_aliases doc) platform) (enumerate 0 (cd_bindings doc))) (\<lambda>rules.
       Ok \<lparr>c_daemon = cd_daemon doc, c_app_aliases = cd_app_aliases doc,
           c_input_source_aliases = cd_input_source_aliases doc,
           c_rules = rule_set_new rules\<rparr>))))"

text \<open>The TOML parser and the file reader are parameters.\<close>

definition parse_str_for_platform ::
  "(string \<Rightarrow> (config_doc, string) result) \<Rightarrow> string \<Rightarrow> platform \<Rightarrow> (config, config_error) result" where
  "parse_str_for_platform toml_from_str text platform = (case toml_from_str text of
      Err e \<Rightarrow> Err (Parse e) | Ok doc \<Rightarrow> validate doc platform)"

definition load_from_file ::
  "(string \<Rightarrow> (string, string) result) \<Rightarrow> (string \<Rightarrow> (config_doc, string) result) \<Rightarrow> platform \<Rightarrow>
   string \<Rightarrow> (config, config_error) result" where
  "load_from_file read_to_string toml_from_str current path = (case read_to_string path of
      Err e \<Rightarrow> Err (Io path e) | Ok text \<Rightarrow> parse_str_for_platform toml_from_str text current)"

section \<open>Names: facts\<close>

lemma keycode_names_distinct: "distinct (map fst keycode_names)"
  by (simp add: keycode_names_def)

lemma keycode_names_complete: "k \<in> set (map snd keycode_names)"
  by (cases k) (simp_all add: keycode_names_def)

lemma mod_from_name_lockstep:
  assumes "mod_from_name name = Some m"
  shows "mods_lockstep m"
proof -
  have "list_all (\<lambda>(_, m). mods_lockstep m) mod_names"
    by (simp add: mod_names_def mods_lockstep_bits modifier_consts bit_or_iff bit_push_bit_iff bit_1_iff)
  then show ?thesis
    using assms by (auto simp: mod_from_name_def list_all_iff dest: map_of_SomeD)
qed

lemma parse_mods_from_lockstep:
  "parse_mods_from index names m = Ok m' \<Longrightarrow> mods_lockstep m \<Longrightarrow> mods_lockstep m'"
  by (induction index names m rule: parse_mods_from.induct)
    (auto simp: mods_lockstep_or mod_from_name_lockstep split: option.splits)

lemma parse_mods_lockstep: "parse_mods index names = Ok m \<Longrightarrow> mods_lockstep m"
  by (auto simp: parse_mods_def mods_lockstep_empty intro: parse_mods_from_lockstep)

lemma parse_mods_ok_iff: "is_ok (parse_mods_from index names m) \<longleftrightarrow> list_all (\<lambda>n. mod_from_name n \<noteq> None) names"
  by (induction index names m rule: parse_mods_from.induct) (auto split: option.splits)

section \<open>Alias checks: facts\<close>

lemma check_identities_ok_iff:
  "check_identities valid duplicate xs seen = Ok () \<longleftrightarrow>
     (\<forall>(i, n) \<in> set xs. valid i n = Ok ()) \<and> distinct (map fst xs) \<and>
     (\<forall>i \<in> fst ` set xs. hm_get seen i = None)"
  by (induction valid duplicate xs seen rule: check_identities.induct)
    (auto simp: hm_lookup split: option.splits if_splits)

lemma distinct_concat_names:
  assumes "distinct (map fst xs)" and "\<And>a. distinct (ids a)"
  shows "distinct (map fst (concat (map (\<lambda>(n, a). map (\<lambda>i. (i, n)) (ids a)) xs))) \<longleftrightarrow>
    (\<forall>n a n' a' i. (n, a) \<in> set xs \<longrightarrow> (n', a') \<in> set xs \<longrightarrow> i \<in> set (ids a) \<longrightarrow> i \<in> set (ids a') \<longrightarrow> n = n')"
  using assms(1)
proof (induction xs)
  case (Cons x xs)
  obtain n a where x: "x = (n, a)" by fastforce
  with Cons.prems have n: "\<And>b. (n, b) \<notin> set xs" by force
  have m: "map fst (map (\<lambda>i. (i, n)) (ids a)) = ids a"
    by (simp add: comp_def)
  have "set (ids a) \<inter> set (map fst (concat (map (\<lambda>(n, a). map (\<lambda>i. (i, n)) (ids a)) xs))) = {} \<longleftrightarrow>
      (\<forall>n' a' i. (n', a') \<in> set xs \<longrightarrow> i \<in> set (ids a) \<longrightarrow> i \<notin> set (ids a'))"
    by force
  with Cons x n m assms(2) show ?case
    by (simp add: comp_def) blast
qed simp

lemma ball_concat_names:
  "(\<forall>x \<in> set (concat (map (\<lambda>(n, a). map (\<lambda>i. (i, n)) (ids a)) xs)). P x) \<longleftrightarrow>
     (\<forall>n a i. (n, a) \<in> set xs \<longrightarrow> i \<in> set (ids a) \<longrightarrow> P (i, n))"
  unfolding set_concat set_map ball_UN image_comp by (auto simp: case_prod_beta)

lemma hm_get_iff: "hm_inv m \<Longrightarrow> hm_get m k = Some v \<longleftrightarrow> (k, v) \<in> set m"
  by (simp add: hm_get_def hm_inv_def map_of_eq_Some_iff)

lemma sorted_aliases_set [simp]: "set (sorted_aliases m) = set m"
  by (simp add: sorted_aliases_def)

lemma sorted_aliases_distinct: "hm_inv m \<Longrightarrow> distinct (map fst (sorted_aliases m))"
proof -
  have "mset (map fst (sorted_aliases m)) = mset (map fst m)"
    unfolding sorted_aliases_def mset_map by simp
  then show "hm_inv m \<Longrightarrow> distinct (map fst (sorted_aliases m))"
    unfolding hm_inv_def by (metis mset_eq_imp_distinct_iff)
qed

text \<open>The result of a check does not depend on the iteration order of the hash map.\<close>

lemma sorted_aliases_order:
  assumes "hm_inv m" and "mset m = mset m'"
  shows "sorted_aliases m = sorted_aliases m'"
  unfolding sorted_aliases_def
proof (rule sort_key_inj_key_eq)
  show "inj_on fst (set m)"
    using assms(1) by (simp add: hm_inv_def distinct_map)
qed (use assms(2) in simp_all)

lemma app_identities_distinct: "distinct (app_identities a)"
  by (simp add: app_identities_def flatten_options_def Let_def split: option.splits)

definition app_aliases_ok :: "(string, app_alias) hashmap \<Rightarrow> bool" where
  "app_aliases_ok m \<longleftrightarrow>
     (\<forall>n a i. hm_get m n = Some a \<longrightarrow> i \<in> set (app_identities a) \<longrightarrow> \<not> trim_is_empty (identity_value i)) \<and>
     (\<forall>n a n' a' i. hm_get m n = Some a \<longrightarrow> hm_get m n' = Some a' \<longrightarrow>
        i \<in> set (app_identities a) \<longrightarrow> i \<in> set (app_identities a') \<longrightarrow> n = n')"

lemma validate_identifier_ok [simp]: "validate_identifier k n i = Ok u \<longleftrightarrow> \<not> trim_is_empty i"
  by (simp add: validate_identifier_def)

lemma validate_app_aliases_iff:
  assumes "hm_inv m"
  shows "validate_app_aliases m = Ok () \<longleftrightarrow> app_aliases_ok m"
proof -
  have "distinct (map fst (app_identity_names m)) \<longleftrightarrow>
      (\<forall>n a n' a' i. (n, a) \<in> set m \<longrightarrow> (n', a') \<in> set m \<longrightarrow> i \<in> set (app_identities a) \<longrightarrow>
         i \<in> set (app_identities a') \<longrightarrow> n = n')"
    unfolding app_identity_names_def
    by (subst distinct_concat_names [OF sorted_aliases_distinct [OF assms] app_identities_distinct]) simp
  moreover have "(\<forall>x \<in> set (app_identity_names m). P x) \<longleftrightarrow>
      (\<forall>n a i. (n, a) \<in> set m \<longrightarrow> i \<in> set (app_identities a) \<longrightarrow> P (i, n))" for P
    unfolding app_identity_names_def ball_concat_names by simp
  ultimately show ?thesis
    unfolding validate_app_aliases_def check_identities_ok_iff app_aliases_ok_def hm_get_iff [OF assms]
    by (simp add: hm_lookup)
qed

definition source_ids :: "input_source_alias \<Rightarrow> (platform \<times> string) list" where
  "source_ids a = concat (map (\<lambda>p. case input_source_id a p of
     None \<Rightarrow> [] | Some i \<Rightarrow> [(p, i)]) [MacOS, Linux, Windows])"

lemma source_ids_iff: "(p, i) \<in> set (source_ids a) \<longleftrightarrow> input_source_id a p = Some i"
  by (cases p) (auto simp: source_ids_def split: option.splits)

definition input_sources_ok :: "(string, input_source_alias) hashmap \<Rightarrow> bool" where
  "input_sources_ok m \<longleftrightarrow>
     (\<forall>n p i. resolve_input_source m n p = Some i \<longrightarrow> \<not> trim_is_empty i) \<and>
     (\<forall>n n' p i. resolve_input_source m n p = Some i \<longrightarrow> resolve_input_source m n' p = Some i \<longrightarrow> n = n')"

lemma source_identity_names_eq:
  "source_identity_names m = concat (map (\<lambda>(n, a). map (\<lambda>i. (i, n)) (source_ids a)) (sorted_aliases m))"
  unfolding source_identity_names_def source_ids_def
  by (rule arg_cong [of _ _ concat], rule map_cong)
    (auto simp: map_concat comp_def split: option.splits)

lemma validate_input_sources_iff:
  assumes "hm_inv m"
  shows "validate_input_sources m = Ok () \<longleftrightarrow> input_sources_ok m"
proof -
  have d: "distinct (source_ids a)" for a
    by (simp add: source_ids_def split: option.splits)
  have "distinct (map fst (source_identity_names m)) \<longleftrightarrow>
      (\<forall>n a n' a' i. (n, a) \<in> set m \<longrightarrow> (n', a') \<in> set m \<longrightarrow> i \<in> set (source_ids a) \<longrightarrow>
         i \<in> set (source_ids a') \<longrightarrow> n = n')"
    unfolding source_identity_names_eq
    by (subst distinct_concat_names [OF sorted_aliases_distinct [OF assms] d]) simp
  moreover have "resolve_input_source m n p = Some i \<longleftrightarrow> (\<exists>a. (n, a) \<in> set m \<and> (p, i) \<in> set (source_ids a))" for n p i
    by (auto simp: resolve_input_source_def source_ids_iff hm_get_iff [OF assms, symmetric] split: option.splits)
  moreover have "(\<forall>x \<in> set (source_identity_names m). P x) \<longleftrightarrow>
      (\<forall>n a p i. (n, a) \<in> set m \<longrightarrow> (p, i) \<in> set (source_ids a) \<longrightarrow> P ((p, i), n))" for P
    unfolding source_identity_names_eq ball_concat_names by auto
  ultimately show ?thesis
    unfolding validate_input_sources_def check_identities_ok_iff input_sources_ok_def
    by (simp add: hm_lookup) blast
qed

lemma iter_min_eq: "iter_min xs = (if xs = [] then None else Some (Min (set xs)))"
  by (induction xs) auto

lemma resolve_app_identity_eq:
  "resolve_app_identity m i =
     (let S = fst ` {x \<in> set m. i \<in> set (app_identities (snd x))} in if S = {} then None else Some (Min S))"
proof -
  have "set (map fst (filter (\<lambda>(_, alias). list_ex (\<lambda>j. j = i) (app_identities alias)) m)) =
      fst ` {x \<in> set m. i \<in> set (app_identities (snd x))}"
    by (force simp: list_ex_iff)
  then show ?thesis
    unfolding resolve_app_identity_def iter_min_eq Let_def by (metis set_empty)
qed

lemma resolve_app_identity_sound:
  assumes "hm_inv m" and "resolve_app_identity m i = Some n"
  shows "\<exists>a. hm_get m n = Some a \<and> i \<in> set (app_identities a)"
proof -
  let ?S = "fst ` {x \<in> set m. i \<in> set (app_identities (snd x))}"
  from assms(2) have "?S \<noteq> {}" "n = Min ?S"
    by (auto simp: resolve_app_identity_eq Let_def split: if_splits)
  moreover have "finite ?S"
    by simp
  ultimately have "n \<in> ?S"
    using Min_in by blast
  then show ?thesis
    using assms(1) by (auto simp: hm_get_iff)
qed

lemma resolve_app_identity_complete:
  assumes "hm_inv m" and "hm_get m n = Some a" and "i \<in> set (app_identities a)"
  shows "\<exists>n'. resolve_app_identity m i = Some n' \<and> n' \<le> n"
proof -
  let ?S = "fst ` {x \<in> set m. i \<in> set (app_identities (snd x))}"
  have "n \<in> ?S"
    using assms by (force simp: hm_get_iff)
  then have "resolve_app_identity m i = Some (Min ?S)"
    unfolding resolve_app_identity_eq Let_def by (metis empty_iff)
  with \<open>n \<in> ?S\<close> show ?thesis
    by simp
qed

section \<open>What a valid document is\<close>

definition key_name_ok :: "string \<Rightarrow> bool" where
  "key_name_ok n \<longleftrightarrow> keycode_from_name n \<noteq> None"

definition mod_names_ok :: "string list \<Rightarrow> bool" where
  "mod_names_ok ns \<longleftrightarrow> list_all (\<lambda>n. mod_from_name n \<noteq> None) ns"

fun trigger_doc_ok :: "trigger_doc \<Rightarrow> bool" where
  "trigger_doc_ok (HotkeyDoc key ns) \<longleftrightarrow> key_name_ok key \<and> mod_names_ok ns"
| "trigger_doc_ok (TapDoc tap n w) \<longleftrightarrow>
     (\<exists>k. keycode_from_name tap = Some k \<and> is_modifier k) \<and> 2 \<le> n \<and> w \<noteq> 0"

fun action_doc_ok :: "(string, input_source_alias) hashmap \<Rightarrow> platform \<Rightarrow> action_doc \<Rightarrow> bool" where
  "action_doc_ok sources p (SendKeyDoc key ns) \<longleftrightarrow> key_name_ok key \<and> mod_names_ok ns"
| "action_doc_ok sources p (SetInputSourceDoc (Some i) None) \<longleftrightarrow> \<not> trim_is_empty i"
| "action_doc_ok sources p (SetInputSourceDoc None (Some n)) \<longleftrightarrow> resolve_input_source sources n p \<noteq> None"
| "action_doc_ok sources p (SetInputSourceDoc _ _) \<longleftrightarrow> False"

definition when_ok :: "(string, app_alias) hashmap \<Rightarrow> string list option \<Rightarrow> bool" where
  "when_ok aliases w \<longleftrightarrow> (case w of None \<Rightarrow> True | Some apps \<Rightarrow> list_all (\<lambda>n. hm_get aliases n \<noteq> None) apps)"

definition doc_ok :: "config_doc \<Rightarrow> platform \<Rightarrow> bool" where
  "doc_ok doc p \<longleftrightarrow>
     log_level (cd_daemon doc) \<in> {''trace'', ''debug'', ''info'', ''warn'', ''error''} \<and>
     app_aliases_ok (cd_app_aliases doc) \<and> input_sources_ok (cd_input_source_aliases doc) \<and>
     list_all (\<lambda>b. trigger_doc_ok (bd_trigger b) \<and>
       action_doc_ok (cd_input_source_aliases doc) p (bd_action b) \<and>
       when_ok (cd_app_aliases doc) (bd_when b)) (cd_bindings doc)"

lemma parse_keycode_ok: "parse_keycode index n = Ok k \<longleftrightarrow> keycode_from_name n = Some k"
  by (simp add: parse_keycode_def split: option.splits)

lemma parse_mods_ok: "is_ok (parse_mods index ns) \<longleftrightarrow> mod_names_ok ns"
  by (simp add: parse_mods_def parse_mods_ok_iff mod_names_ok_def)

lemma parse_trigger_ok: "is_ok (parse_trigger index t) \<longleftrightarrow> trigger_doc_ok t"
proof (cases t)
  case (HotkeyDoc key ns)
  then show ?thesis
    using parse_mods_ok [of index ns] by (auto simp: is_ok_iff parse_keycode_ok key_name_ok_def)
next
  case (TapDoc tap n w)
  then show ?thesis
    by (auto simp: is_ok_iff parse_keycode_ok linorder_not_less)
qed

lemma parse_action_ok: "is_ok (parse_action index a sources p) \<longleftrightarrow> action_doc_ok sources p a"
  using parse_mods_ok [of index]
  by (cases "(index, a, sources, p)" rule: parse_action.cases)
    (auto simp: is_ok_iff parse_keycode_ok key_name_ok_def resolve_input_source_def split: option.splits)

lemma validate_when_ok: "validate_when index apps aliases = Ok r \<longleftrightarrow> r = apps \<and> when_ok aliases (Some apps)"
  by (auto simp: validate_when_def when_ok_def list_all_iff)

lemma validate_binding_ok:
  "is_ok (validate_binding index b aliases sources p) \<longleftrightarrow>
     trigger_doc_ok (bd_trigger b) \<and> action_doc_ok sources p (bd_action b) \<and> when_ok aliases (bd_when b)"
  using parse_trigger_ok [of index "bd_trigger b"] parse_action_ok [of index "bd_action b" sources p]
  by (auto simp: validate_binding_def is_ok_iff validate_when_ok when_ok_def [of _ None] split: option.splits)

lemma collect_results_is_ok: "is_ok (collect_results f xs) \<longleftrightarrow> list_all (\<lambda>x. is_ok (f x)) xs"
  by (induction xs) (auto simp: is_ok_iff)

lemma list_all_enumerate: "list_all (\<lambda>(i, x). P x) (enumerate k xs) \<longleftrightarrow> list_all P xs"
  by (induction xs arbitrary: k) simp_all

lemma bindings_ok:
  "is_ok (collect_results (\<lambda>(idx, b). validate_binding idx b aliases sources p) (enumerate 0 bs)) \<longleftrightarrow>
   list_all (\<lambda>b. trigger_doc_ok (bd_trigger b) \<and> action_doc_ok sources p (bd_action b) \<and>
     when_ok aliases (bd_when b)) bs"
proof -
  have "(\<lambda>x. is_ok ((\<lambda>(idx, b). validate_binding idx b aliases sources p) x)) =
      (\<lambda>(i, b). trigger_doc_ok (bd_trigger b) \<and> action_doc_ok sources p (bd_action b) \<and>
        when_ok aliases (bd_when b))"
    by (auto simp: fun_eq_iff validate_binding_ok)
  then show ?thesis
    unfolding collect_results_is_ok by (simp only: list_all_enumerate)
qed

lemma validate_is_ok:
  assumes "hm_inv (cd_app_aliases doc)" and "hm_inv (cd_input_source_aliases doc)"
  shows "is_ok (validate doc p) \<longleftrightarrow> doc_ok doc p"
proof -
  have "is_ok (validate doc p) \<longleftrightarrow>
      validate_log_level (log_level (cd_daemon doc)) = Ok () \<and>
      validate_app_aliases (cd_app_aliases doc) = Ok () \<and>
      validate_input_sources (cd_input_source_aliases doc) = Ok () \<and>
      is_ok (collect_results (\<lambda>(idx, b). validate_binding idx b (cd_app_aliases doc)
        (cd_input_source_aliases doc) p) (enumerate 0 (cd_bindings doc)))"
    by (auto simp: is_ok_iff validate_def)
  then show ?thesis
    unfolding bindings_ok validate_app_aliases_iff [OF assms(1)] validate_input_sources_iff [OF assms(2)]
    by (simp add: doc_ok_def validate_log_level_def)
qed

section \<open>What the compiled rules are\<close>

fun trigger_ok :: "trigger \<Rightarrow> bool" where
  "trigger_ok (Hotkey h) \<longleftrightarrow> mods_lockstep (hk_mods h)"
| "trigger_ok (Tap t) \<longleftrightarrow> is_modifier (tt_tap t) \<and> 2 \<le> tt_count t \<and> tt_within_ms t \<noteq> 0"

fun action_ok :: "action \<Rightarrow> bool" where
  "action_ok (SendKey k m) \<longleftrightarrow> mods_lockstep m"
| "action_ok (SetInputSource i) \<longleftrightarrow> \<not> trim_is_empty i"

definition rule_ok :: "(string, app_alias) hashmap \<Rightarrow> rule \<Rightarrow> bool" where
  "rule_ok aliases r \<longleftrightarrow>
     trigger_ok (r_trigger r) \<and> action_ok (r_action r) \<and> when_ok aliases (r_when_app_in r)"

lemma parse_trigger_result: "parse_trigger index t = Ok t' \<Longrightarrow> trigger_ok t'"
  by (cases t) (auto simp: parse_mods_lockstep linorder_not_less)

lemma parse_action_result:
  "parse_action index a sources p = Ok a' \<Longrightarrow> input_sources_ok sources \<Longrightarrow> action_ok a'"
  by (cases "(index, a, sources, p)" rule: parse_action.cases)
    (auto simp: parse_mods_lockstep input_sources_ok_def split: if_splits option.splits)

lemma validate_binding_result:
  assumes "validate_binding index b aliases sources p = Ok r" and "input_sources_ok sources"
  shows "rule_ok aliases r \<and> r_when_app_in r = bd_when b"
  using assms
  by (auto simp: validate_binding_def rule_ok_def parse_trigger_result parse_action_result validate_when_ok
      when_ok_def [of _ None] split: option.splits)

lemma list_all2_all: "list_all2 P xs ys \<Longrightarrow> (\<And>x y. P x y \<Longrightarrow> Q y) \<Longrightarrow> list_all Q ys"
  by (induction rule: list_all2_induct) auto

lemma validate_result:
  assumes "hm_inv (cd_input_source_aliases doc)" and "validate doc p = Ok cfg"
  shows "\<exists>rules. c_rules cfg = rule_set_new rules \<and>
    list_all2 (\<lambda>(i, b) r. validate_binding i b (cd_app_aliases doc) (cd_input_source_aliases doc) p = Ok r)
      (enumerate 0 (cd_bindings doc)) rules \<and>
    list_all (rule_ok (c_app_aliases cfg)) rules"
proof -
  from assms obtain rules where v: "validate_input_sources (cd_input_source_aliases doc) = Ok ()"
    "collect_results (\<lambda>(idx, b). validate_binding idx b (cd_app_aliases doc)
        (cd_input_source_aliases doc) p) (enumerate 0 (cd_bindings doc)) = Ok rules"
    "c_rules cfg = rule_set_new rules" "c_app_aliases cfg = cd_app_aliases doc"
    by (auto simp: validate_def)
  have s: "input_sources_ok (cd_input_source_aliases doc)"
    using v(1) validate_input_sources_iff [OF assms(1)] by simp
  have l: "list_all2 (\<lambda>(i, b) r. validate_binding i b (cd_app_aliases doc) (cd_input_source_aliases doc) p = Ok r)
      (enumerate 0 (cd_bindings doc)) rules"
    using v(2) unfolding collect_results_ok_iff by (rule list_all2_mono) auto
  then have "list_all (rule_ok (cd_app_aliases doc)) rules"
    by (rule list_all2_all) (use validate_binding_result [OF _ s] in auto)
  with v l show ?thesis by auto
qed

section \<open>Which error is reported\<close>

lemma collect_results_Err_iff:
  "collect_results f xs = Err e \<longleftrightarrow>
     (\<exists>k < length xs. f (xs ! k) = Err e \<and> (\<forall>j < k. is_ok (f (xs ! j))))"
proof (induction xs)
  case (Cons x xs)
  show ?case
  proof (cases "f x")
    case (Ok y)
    then have "collect_results f (x # xs) = Err e \<longleftrightarrow> collect_results f xs = Err e"
      by (cases "collect_results f xs") auto
    with Ok Cons show ?thesis
      by (simp add: Ex_less_Suc2 All_less_Suc2)
  qed (auto simp: Ex_less_Suc2 All_less_Suc2)
qed simp

lemma map_result_and_then: "map_result f (\<lambda>e. e) (and_then r k) = and_then r (\<lambda>a. map_result f (\<lambda>e. e) (k a))"
  by (cases r) simp_all

lemma hm_get_order:
  assumes "hm_inv m" and "mset m = mset m'"
  shows "hm_get m = hm_get m'"
proof -
  have "hm_inv m'"
    using assms by (metis hm_inv_def mset_eq_imp_distinct_iff mset_map)
  with assms show ?thesis
    by (metis hm_get_iff mset_eq_setD not_None_eq ext)
qed

section \<open>Properties\<close>

text \<open>The example document: two applications, an input source, a hotkey and a tap.\<close>

definition ex_alias :: "string \<Rightarrow> app_alias" where
  "ex_alias i = \<lparr>aa_macos = Some i, aa_linux = None, aa_windows = None, aa_linux_ids = None\<rparr>"

definition ex_doc :: config_doc where
  "ex_doc = \<lparr>cd_daemon = daemon_section_default,
     cd_app_aliases = [(''term'', ex_alias ''com.term''), (''mail'', ex_alias ''com.mail'')],
     cd_input_source_aliases = [(''us'', \<lparr>isa_macos = Some ''US'', isa_linux = Some ''us'', isa_windows = None\<rparr>)],
     cd_bindings = [\<lparr>bd_when = Some [''term''], bd_trigger = HotkeyDoc ''KeyH'' [''ctrl''],
         bd_action = SendKeyDoc ''ArrowLeft'' []\<rparr>,
       \<lparr>bd_when = None, bd_trigger = TapDoc ''LeftShift'' 2 250,
         bd_action = SetInputSourceDoc None (Some ''us'')\<rparr>]\<rparr>"

lemma ex_doc_maps: "hm_inv (cd_app_aliases ex_doc)" "hm_inv (cd_input_source_aliases ex_doc)"
  by (simp_all add: ex_doc_def hm_inv_def)

lemma ex_doc_valid: "is_ok (validate ex_doc MacOS)"
  by code_simp

text \<open>C11: Validation is exact: a document is accepted for a platform if and only if its log level is
  known, no application or input source identity is blank or claimed by two aliases, and every
  binding has a known trigger (a tap names a modifier, at least two taps and a positive window), an
  action that resolves on the platform and a scope that names only declared applications.\<close>

theorem validation_exact:
  assumes "hm_inv (cd_app_aliases doc)" and "hm_inv (cd_input_source_aliases doc)"
  shows "is_ok (validate doc p) \<longleftrightarrow> doc_ok doc p"
  using validate_is_ok [OF assms] .

theorem validation_exact_witness: "doc_ok ex_doc MacOS"
  using validation_exact [OF ex_doc_maps] ex_doc_valid by simp



text \<open>In an accepted document a native application identity resolves to an alias exactly when
  that alias lists the identity, so at most one alias answers for an application.\<close>

lemma identity_resolution_exact:
  assumes "hm_inv m" and "validate_app_aliases m = Ok ()"
  shows "resolve_app_identity m i = Some n \<longleftrightarrow> (\<exists>a. hm_get m n = Some a \<and> i \<in> set (app_identities a))"
proof
  assume "\<exists>a. hm_get m n = Some a \<and> i \<in> set (app_identities a)"
  then obtain a n' where a: "hm_get m n = Some a" "i \<in> set (app_identities a)"
    and n': "resolve_app_identity m i = Some n'"
    using resolve_app_identity_complete [OF assms(1)] by metis
  moreover have "app_aliases_ok m"
    using assms validate_app_aliases_iff by blast
  ultimately show "resolve_app_identity m i = Some n"
    using resolve_app_identity_sound [OF assms(1) n'] by (auto simp: app_aliases_ok_def)
qed (rule resolve_app_identity_sound [OF assms(1)])

text \<open>The iteration order of the hash maps is invisible: two documents that differ only in the
  order of their alias tables are rejected with the same error or compiled to the same rules.\<close>

lemma validation_order_independent:
  assumes "hm_inv (cd_app_aliases doc)" and "hm_inv (cd_input_source_aliases doc)"
    and "mset (cd_app_aliases doc) = mset (cd_app_aliases doc')"
    and "mset (cd_input_source_aliases doc) = mset (cd_input_source_aliases doc')"
    and "cd_daemon doc = cd_daemon doc'" and "cd_bindings doc = cd_bindings doc'"
  shows "map_result c_rules (\<lambda>e. e) (validate doc p) = map_result c_rules (\<lambda>e. e) (validate doc' p)"
proof -
  note get = hm_get_order [OF assms(1,3)] hm_get_order [OF assms(2,4)]
  have "validate_app_aliases (cd_app_aliases doc) = validate_app_aliases (cd_app_aliases doc')"
    "validate_input_sources (cd_input_source_aliases doc) = validate_input_sources (cd_input_source_aliases doc')"
    using sorted_aliases_order [OF assms(1,3)] sorted_aliases_order [OF assms(2,4)]
    by (simp_all add: validate_app_aliases_def app_identity_names_def validate_input_sources_def
        source_identity_names_def)
  moreover have "parse_action i a (cd_input_source_aliases doc) p = parse_action i a (cd_input_source_aliases doc') p"
    for i a
    by (cases "(i, a, cd_input_source_aliases doc, p)" rule: parse_action.cases)
      (simp_all add: resolve_input_source_def get)
  moreover have "validate_when i w (cd_app_aliases doc) = validate_when i w (cd_app_aliases doc')" for i w
    by (simp add: validate_when_def get)
  ultimately have "validate_app_aliases (cd_app_aliases doc) = validate_app_aliases (cd_app_aliases doc')"
    "validate_input_sources (cd_input_source_aliases doc) = validate_input_sources (cd_input_source_aliases doc')"
    "validate_binding i b (cd_app_aliases doc) (cd_input_source_aliases doc) p =
      validate_binding i b (cd_app_aliases doc') (cd_input_source_aliases doc') p" for i b
    by (simp_all add: validate_binding_def cong: option.case_cong)
  then show ?thesis
    by (simp add: validate_def assms(5,6) map_result_and_then)
qed

text \<open>Of several bad bindings the first is reported: a document whose log level and alias tables
  are valid is rejected with an error exactly when some binding has that error, under its own
  index, and every earlier binding is valid.\<close>

lemma first_bad_binding_reported:
  assumes "validate_log_level (log_level (cd_daemon doc)) = Ok ()"
    and "validate_app_aliases (cd_app_aliases doc) = Ok ()"
    and "validate_input_sources (cd_input_source_aliases doc) = Ok ()"
  shows "validate doc p = Err e \<longleftrightarrow>
    (\<exists>k < length (cd_bindings doc).
       validate_binding k (cd_bindings doc ! k) (cd_app_aliases doc) (cd_input_source_aliases doc) p = Err e \<and>
       (\<forall>j < k. is_ok (validate_binding j (cd_bindings doc ! j) (cd_app_aliases doc)
          (cd_input_source_aliases doc) p)))"
proof -
  let ?f = "\<lambda>(idx, b). validate_binding idx b (cd_app_aliases doc) (cd_input_source_aliases doc) p"
  have "validate doc p = Err e \<longleftrightarrow> collect_results ?f (enumerate 0 (cd_bindings doc)) = Err e"
    by (cases "collect_results ?f (enumerate 0 (cd_bindings doc))") (simp_all add: validate_def assms)
  then show ?thesis
    unfolding collect_results_Err_iff
    by (simp add: nth_enumerate_eq cong: conj_cong)
qed

end
