(* ===== verification/Daemon.thy ===== *)
theory Daemon
  imports Session Desktop Config
begin

text \<open>
  The daemon around the matcher: the matching state and configuration reloads of
  \<^verbatim>\<open>packages/cli/src/daemon.rs\<close>, the event sink of \<^verbatim>\<open>daemon/linux.rs\<close>, the bridge handler of
  \<^verbatim>\<open>daemon/hyprland_research.rs\<close> and the session passes of \<^verbatim>\<open>daemon/hyprland_installed.rs\<close>.

  The matching state is behind one lock. Other threads reload the configuration while a handler runs, so
  taking the lock first publishes the reloads that went through since it was last held. The environment
  record supplies those, the clock and the state of the locks; the TOML reader is a parameter of it.
\<close>

section \<open>The matching state\<close>

record matching_state =
  ms_matcher :: matcher
  ms_aliases :: "(string, app_alias) hashmap"
  ms_hyprland :: transactions
  ms_down_only :: bool
  ms_features :: "64 word"
  ms_health :: "session_health option"

definition matching_new :: "config \<Rightarrow> matching_state" where
  "matching_new cfg = \<lparr>ms_matcher = matcher_new (c_rules cfg), ms_aliases = c_app_aliases cfg,
     ms_hyprland = transactions_default, ms_down_only = False, ms_features = 1, ms_health = None\<rparr>"

abbreviation ms_tx :: "matching_state \<Rightarrow> transactions \<times> matcher" where
  "ms_tx s \<equiv> (ms_hyprland s, ms_matcher s)"

definition with_tx :: "matching_state \<Rightarrow> transactions \<times> matcher \<Rightarrow> matching_state" where
  "with_tx s tm = s\<lparr>ms_hyprland := fst tm, ms_matcher := snd tm\<rparr>"

definition matching_replace :: "config \<Rightarrow> matching_state \<Rightarrow> matching_state" where
  "matching_replace cfg s = (let s = with_tx s (tx_invalidate_speculation (ms_tx s)) in
     s\<lparr>ms_matcher := swap_rules (c_rules cfg) (ms_matcher s), ms_aliases := c_app_aliases cfg\<rparr>)"

definition resolve_focused_app ::
  "(string, app_alias) hashmap \<Rightarrow> string option \<Rightarrow> app_identity option \<Rightarrow> string option" where
  "resolve_focused_app aliases focused_app identity =
     (case Option.bind identity (resolve_app_identity aliases) of
        Some name \<Rightarrow> Some name
      | None \<Rightarrow> (case Option.bind focused_app (\<lambda>i. resolve_app_identity aliases (LinuxLegacy i)) of
            Some name \<Rightarrow> Some name
          | None \<Rightarrow> focused_app))"

definition focus_app_identity :: "focus_identity \<Rightarrow> app_identity" where
  "focus_app_identity focus = (case fi_category focus of
      WaylandFocus \<Rightarrow> LinuxWayland (fi_value focus)
    | X11ClassFocus \<Rightarrow> LinuxX11Class (fi_value focus)
    | KwinResourceClass \<Rightarrow> LinuxLegacy (fi_value focus))"

section \<open>Reloads\<close>

datatype reload_error = LoadFailed config_error | RulesNotAdmitted

definition validate_rules :: "config \<Rightarrow> 64 word \<Rightarrow> bool" where
  "validate_rules cfg features = list_all (\<lambda>rule.
     ((case r_trigger rule of Hotkey _ \<Rightarrow> True | Tap _ \<Rightarrow> False) \<or> features = TAP_FEATURES) \<and>
     (case r_action rule of SendKey _ _ \<Rightarrow> True | SetInputSource _ \<Rightarrow> False)) (rule_set_iter (c_rules cfg))"

text \<open>What a reload reads: the text of the configuration file, or the error of reading it.\<close>

type_synonym file_text = "(string, string) result"

definition reload_state ::
  "(string \<Rightarrow> (config_doc, string) result) \<Rightarrow> file_text \<Rightarrow> matching_state \<Rightarrow>
   (config, reload_error) result \<times> matching_state" where
  "reload_state toml content s = (case load_from_file (\<lambda>_. content) toml Linux [] of
      Err e \<Rightarrow> (Err (LoadFailed e), s)
    | Ok cfg \<Rightarrow>
        if ms_down_only s \<and> \<not> validate_rules cfg (ms_features s) then (Err RulesNotAdmitted, s)
        else (Ok cfg, matching_replace cfg s))"

record daemon =
  dm_state :: matching_state
  dm_rules_loaded :: nat
  dm_last_reload_at :: "instant option"

definition reload ::
  "(string \<Rightarrow> (config_doc, string) result) \<Rightarrow> file_text \<Rightarrow> instant \<Rightarrow> daemon \<Rightarrow> (unit, reload_error) result \<times> daemon" where
  "reload toml content now d = (case reload_state toml content (dm_state d) of
      (Err e, s) \<Rightarrow> (Err e, d)
    | (Ok cfg, s) \<Rightarrow> (Ok (), d\<lparr>dm_state := s, dm_rules_loaded := rule_set_len (c_rules cfg), dm_last_reload_at := Some now\<rparr>))"

section \<open>The bridge handler\<close>

record 'e daemon_env =
  de_try_lock :: "'e \<Rightarrow> bool \<times> 'e"
  de_now :: "'e \<Rightarrow> instant \<times> 'e"
  de_cache_busy :: "'e \<Rightarrow> bool \<times> 'e"
  de_reloads :: "'e \<Rightarrow> file_text list \<times> 'e"
  de_toml :: "string \<Rightarrow> (config_doc, string) result"

record 'e handler =
  hd_matching :: matching_state
  hd_sources :: "source_queue option"
  hd_observation_gap :: bool
  hd_world :: 'e

definition publish_reloads ::
  "(string \<Rightarrow> (config_doc, string) result) \<Rightarrow> file_text list \<Rightarrow> matching_state \<Rightarrow> matching_state" where
  "publish_reloads toml files s = fold (\<lambda>content s. snd (reload_state toml content s)) files s"

definition acquire :: "'e daemon_env \<Rightarrow> 'e handler \<Rightarrow> 'e handler" where
  "acquire env h = (let (files, e) = de_reloads env (hd_world h) in
     h\<lparr>hd_matching := publish_reloads (de_toml env) files (hd_matching h), hd_world := e\<rparr>)"

definition update_tx :: "(transactions \<times> matcher \<Rightarrow> transactions \<times> matcher) \<Rightarrow> 'e handler \<Rightarrow> 'e handler" where
  "update_tx f h = h\<lparr>hd_matching := with_tx (hd_matching h) (f (ms_tx (hd_matching h)))\<rparr>"

definition event_focus :: "native_event \<Rightarrow> focus_identity option" where
  "event_focus event =
     (if ne_focus_kind event = 1 then focus_identity_new WaylandFocus (ne_focus event)
      else if ne_focus_kind event = 2 then focus_identity_new X11ClassFocus (ne_focus event)
      else None)"

definition event_app :: "(string, app_alias) hashmap \<Rightarrow> native_event \<Rightarrow> string option" where
  "event_app aliases event = (let focus = event_focus event in
     resolve_focused_app aliases (map_option fi_value focus) (map_option focus_app_identity focus))"

text \<open>The input source a proposal asks to select, if it gets that far.\<close>

definition asked_source ::
  "scope \<Rightarrow> native_event \<Rightarrow> string option \<Rightarrow> instant \<Rightarrow> transactions \<times> matcher \<Rightarrow> string option" where
  "asked_source scope event focused_app now tm = (case tm of (t, m) \<Rightarrow>
     if tx_pending t \<noteq> None \<or> tx_replacement_disabled t \<or> 1 < ne_state event \<or>
        (ne_state event = 0 \<and> \<not> tx_modifier_tap_release t) then None
     else
       let (fresh, t, m) = (if tx_modifier_tap_release t then observe_physical scope event (t, m) else (True, t, m))
       in if \<not> fresh then None
          else (case native_key (ne_key event) of
              None \<Rightarrow> None
            | Some key \<Rightarrow>
                (case dispatch_device_with_delivery (sc_generation scope) (normalized_event key event) focused_app now m of
                   Some ((Replace (SetInputSource source), _), _) \<Rightarrow> Some source
                 | _ \<Rightarrow> None)))"

definition submit_source ::
  "'e daemon_env \<Rightarrow> string option \<Rightarrow> source_queue option \<Rightarrow> 'e \<Rightarrow> bool \<times> source_queue option \<times> 'e" where
  "submit_source env asked sources e = (case (asked, sources) of
      (Some source, Some queue) \<Rightarrow>
        (let (busy, e) = de_cache_busy env e;
             (now, e) = de_now env e;
             (r, queue) = submit busy now source queue
         in (is_ok r, Some queue, e))
    | _ \<Rightarrow> (False, sources, e))"

definition propose_locked ::
  "'e daemon_env \<Rightarrow> scope \<Rightarrow> native_event \<Rightarrow> 'e handler \<Rightarrow> (decision \<times> 'e handler) option" where
  "propose_locked env scope event h =
     (let logical = event_app (ms_aliases (hd_matching h)) event;
          tm = ms_tx (hd_matching h);
          (now, e) = de_now env (hd_world h);
          (admitted, sources, e) = submit_source env (asked_source scope event logical now tm) (hd_sources h) e
      in map_option (\<lambda>(r, tm). (case r of Ok decision \<Rightarrow> decision | Err _ \<Rightarrow> PassDecision,
           h\<lparr>hd_matching := with_tx (hd_matching h) tm, hd_sources := sources, hd_world := e\<rparr>))
         (propose_with_source (\<lambda>_. admitted) scope event logical now tm))"

definition handler_propose ::
  "'e daemon_env \<Rightarrow> scope \<Rightarrow> native_event \<Rightarrow> 'e handler \<Rightarrow> (decision \<times> 'e handler) option" where
  "handler_propose env scope event h =
     (let (free, e) = de_try_lock env (hd_world h); h = h\<lparr>hd_world := e\<rparr> in
      if \<not> free then Some (PassDecision, h\<lparr>hd_observation_gap := True\<rparr>)
      else
        let h = acquire env h;
            h = (if hd_observation_gap h then update_tx tx_invalidate_speculation h else h)
        in propose_locked env scope event (h\<lparr>hd_observation_gap := False\<rparr>))"

definition handler_delivery ::
  "'e daemon_env \<Rightarrow> scope \<Rightarrow> native_event \<Rightarrow> decision \<Rightarrow> delivery_report \<Rightarrow> 'e handler \<Rightarrow> 'e handler" where
  "handler_delivery env scope event decision report h = (let h = acquire env h in
     if ne_state event = 1 \<or> tx_modifier_tap_release (ms_hyprland (hd_matching h))
     then update_tx (\<lambda>tm. snd (on_delivery scope report tm)) h
     else update_tx (\<lambda>tm. snd (tx_settle_device_event scope event report tm)) h)"

definition handler_reset :: "'e daemon_env \<Rightarrow> scope \<Rightarrow> body \<Rightarrow> 'e handler \<Rightarrow> 'e handler" where
  "handler_reset env scope body h =
     (let h = acquire env h;
          s = hd_matching h;
          s = (if body \<in> {ResetBody 2, ResetBody 3} \<or> is_lock body
               then s\<lparr>ms_health := map_option (\<lambda>x. x\<lparr>sh_awaiting_reconciliation := True\<rparr>) (ms_health s)\<rparr> else s);
          tm = ms_tx s;
          tm = (if is_lock body \<and> ms_down_only s then observe_lock_boundary (sc_nonce scope) tm else tm);
          tm = (if body \<in> {ResetBody 2, ResetBody 3} then snd (await_lifecycle_reconciliation scope body tm) else tm);
          (proved, tm) = reconciled scope body tm;
          tm = (if \<not> proved then tx_invalidate_speculation tm else tm);
          tm = (if is_retire body then retire_device (sc_generation scope) tm else tm)
      in h\<lparr>hd_matching := with_tx s tm\<rparr>)"

definition handler_unlocked_epoch :: "'e daemon_env \<Rightarrow> scope \<Rightarrow> body \<Rightarrow> 'e handler \<Rightarrow> 'e handler" where
  "handler_unlocked_epoch env scope body h = (let h = acquire env h in
     if ms_down_only (hd_matching h) then update_tx (observe_unlocked_epoch (sc_nonce scope)) h
     else handler_reset env scope body h)"

definition handler_disconnected :: "'e daemon_env \<Rightarrow> 'e handler \<Rightarrow> 'e handler" where
  "handler_disconnected env h = (let h = acquire env h; s = hd_matching h in
     update_tx disconnected (h\<lparr>hd_matching := s\<lparr>ms_health := map_option health_invalidate (ms_health s)\<rparr>\<rparr>))"

text \<open>The handler leaves the fault and release methods at their defaults and only logs traces.\<close>

definition daemon_handler :: "'e daemon_env \<Rightarrow> 'e handler event_handler" where
  "daemon_handler env = \<lparr>modifier_release_actions = (\<lambda>_. False), eh_propose = handler_propose env,
     eh_causal_trace = (\<lambda>_ h. h), eh_research_fault = (\<lambda>_ _ h. (NoFault, h)), eh_delivery = handler_delivery env,
     eh_reset = handler_reset env, eh_unlocked_epoch = handler_unlocked_epoch env,
     eh_disconnected = handler_disconnected env\<rparr>"

section \<open>Facts\<close>

named_theorems daemon_simps

lemma with_tx_simps [simp, daemon_simps]:
  "ms_tx (with_tx s tm) = tm" "ms_hyprland (with_tx s tm) = fst tm" "ms_matcher (with_tx s tm) = snd tm"
  "ms_aliases (with_tx s tm) = ms_aliases s" "ms_down_only (with_tx s tm) = ms_down_only s"
  "ms_features (with_tx s tm) = ms_features s" "ms_health (with_tx s tm) = ms_health s"
  by (simp_all add: with_tx_def)

lemma update_tx_simps [simp, daemon_simps]:
  "hd_matching (update_tx f h) = with_tx (hd_matching h) (f (ms_tx (hd_matching h)))"
  by (simp add: update_tx_def)

lemma load_rules:
  "load_from_file rd toml p path = Ok cfg \<Longrightarrow> \<exists>rules. c_rules cfg = rule_set_new rules"
  by (auto simp: load_from_file_def parse_str_for_platform_def validate_def split: result.splits)

text \<open>The admission decision is asked about one source only.\<close>

lemma propose_asked:
  "propose_with_source admit s e f now tm =
   propose_with_source (\<lambda>_. \<exists>source. asked_source s e f now tm = Some source \<and> admit source) s e f now tm"
proof -
  obtain t m where tm: "tm = (t, m)" by (rule prod.exhaust)
  show ?thesis
  proof (cases "tx_pending t \<noteq> None \<or> tx_replacement_disabled t \<or> 1 < ne_state e \<or>
      (ne_state e = 0 \<and> \<not> tx_modifier_tap_release t)")
    case True
    then show ?thesis unfolding tm propose_with_source_def by auto
  next
    case False
    obtain fresh t1 m1 where o: "(if tx_modifier_tap_release t then observe_physical s e (t, m) else (True, t, m)) =
        (fresh, t1, m1)"
      by (metis prod_cases3)
    have key: "propose_key admit s e k f now (t1, m1) =
        propose_key (\<lambda>_. \<exists>source. asked_source s e f now (t, m) = Some source \<and> admit source) s e k f now (t1, m1)"
      if k: "native_key (ne_key e) = Some k" "fresh" for k
    proof (cases "dispatch_device_with_delivery (sc_generation s) (normalized_event k e) f now m1")
      case (Some r)
      then obtain v tok m2 where d: "dispatch_device_with_delivery (sc_generation s) (normalized_event k e) f now m1 =
          Some ((v, tok), m2)" by (metis prod_cases3 prod.collapse)
      have "asked_source s e f now (t, m) = (case v of Replace (SetInputSource source) \<Rightarrow> Some source | _ \<Rightarrow> None)"
        using False o k d by (simp add: asked_source_def split: verdict.splits action.splits)
      then have "decide admit (ne_state e) v =
          decide (\<lambda>_. \<exists>source. asked_source s e f now (t, m) = Some source \<and> admit source) (ne_state e) v"
        by (cases "(admit, ne_state e, v)" rule: decide.cases) auto
      then show ?thesis by (simp add: propose_key_def d)
    qed (simp add: propose_key_def)
    show ?thesis
      using False o key by (auto simp: tm propose_with_source_def split: option.splits)
  qed
qed

lemma propose_opens_pending:
  assumes "propose_with_source admit s e f now (t, m) = Some (r, t', m')" and "tx_pending t = None"
    and "tx_pending t' = Some p"
  shows "pp_scope p = s \<and> (ne_state e = 1 \<or> ne_state e = 0 \<longrightarrow> ne_state e = 1 \<or> tx_modifier_tap_release t)"
proof -
  have "pp_scope p = s"
    using assms(1)
  proof (cases rule: propose_cases)
    case (dispatched k v tok m0 m1)
    with assms(3) show ?thesis by (cases tok) auto
  qed (use assms(2,3) in auto)
  moreover have "ne_state e = 0 \<Longrightarrow> tx_modifier_tap_release t"
    using assms by (auto simp: propose_with_source_def split: if_splits)
  ultimately show ?thesis by auto
qed

lemma tap_release_kept:
  "propose_with_source admit s e f now (t, m) = Some (r, t', m') \<Longrightarrow>
   tx_modifier_tap_release t' = tx_modifier_tap_release t"
  "tx_modifier_tap_release (fst (tx_invalidate_speculation (t, m))) = tx_modifier_tap_release t"
  by (auto simp: propose_with_source_def propose_key_def observe_physical_def tx_invalidate_speculation_def Let_def
      split: if_splits option.splits prod.splits)

text \<open>Replacement is or can become enabled only by the proof of connection \<open>k\<close>.\<close>

definition bound_to :: "64 word option \<Rightarrow> transactions \<Rightarrow> bool" where
  "bound_to k t \<longleftrightarrow> tx_recovery_nonce t \<in> {None, k} \<and>
     (\<not> tx_replacement_disabled t \<longrightarrow> tx_recovery_nonce t = None \<and> tx_previous_recovery_nonce t \<in> {None, k})"

definition tx_ok :: "64 word option \<Rightarrow> transactions \<times> matcher \<Rightarrow> bool" where
  "tx_ok k tm \<longleftrightarrow> tx_inv tm \<and> bound_to k (fst tm)"

lemma bound_to_control:
  "bound_to k t \<longleftrightarrow> (case control t of (disabled, armed, previous) \<Rightarrow>
     armed \<in> {None, k} \<and> (\<not> disabled \<longrightarrow> armed = None \<and> previous \<in> {None, k}))"
  by (simp add: bound_to_def control_def)

lemma bound_to_weaken:
  "bound_to k t \<Longrightarrow> tx_recovery_nonce t' = tx_recovery_nonce t \<and> tx_previous_recovery_nonce t' = tx_previous_recovery_nonce t \<and>
   (tx_replacement_disabled t \<longrightarrow> tx_replacement_disabled t') \<Longrightarrow> bound_to k t'"
  unfolding bound_to_def by metis

lemma bound_to_step:
  assumes "bound_to k t" and "tx_step admit op (t, m) = Some (out, t', m')" and "\<nexists>n. op = AwaitReconciliation n"
  shows "bound_to k t'"
proof -
  have disc: "disconnected (t, m) = (a, b) \<Longrightarrow> bound_to k a" for a b
    by (auto simp: disconnected_def bound_to_def case_prod_beta)
  have seen: "bound_to k (t\<lparr>tx_observation := None\<rparr>)"
    by (rule bound_to_weaken [OF assms(1)]) simp
  show ?thesis
  proof (cases op)
    case (Propose s e f now)
    with assms(2) obtain r where "propose_with_source admit s e f now (t, m) = Some (r, t', m')" by auto
    then show ?thesis
      by (cases rule: propose_cases) (use assms(1) in \<open>simp_all add: bound_to_control\<close>)
  next
    case (OnDelivery s r)
    with assms(2) show ?thesis
      by (intro bound_to_weaken [OF assms(1)]) (auto simp: on_delivery_def Let_def case_prod_beta split: option.splits if_splits)
  next
    case (SettleEvent s e r)
    with assms(2) show ?thesis
      by (intro bound_to_weaken [OF assms(1)])
        (auto simp: tx_settle_device_event_def Let_def split: if_splits delivery_report.splits option.splits)
  next
    case (AwaitLifecycle s b)
    with assms(1,2) show ?thesis
      by (auto simp: await_lifecycle_reconciliation_def bound_to_def case_prod_beta split: if_splits)
  next
    case (Reconcile s b)
    with assms(1,2) show ?thesis
      by (auto simp: reconciled_def bound_to_def split: if_splits)
  next
    case (RetireGeneration g)
    with assms(2) show ?thesis
      by (intro bound_to_weaken [OF assms(1)]) (auto simp: retire_device_def Let_def split: if_splits)
  next
    case InvalidateTx
    with assms(2) show ?thesis
      by (intro bound_to_weaken [OF assms(1)]) (auto simp: tx_invalidate_speculation_def Let_def split: if_splits)
  next
    case (Reload rules)
    with assms(2) show ?thesis
      by (intro bound_to_weaken [OF assms(1)]) (auto simp: tx_invalidate_speculation_def Let_def split: if_splits)
  qed (use assms(2,3) seen disc in \<open>auto simp: observe_unlocked_epoch_def observe_lock_boundary_def split: if_splits\<close>)
qed

lemma tx_ok_step:
  assumes "tx_ok k tm" and "tx_step admit op tm = Some (out, tm')" and "\<nexists>n. op = AwaitReconciliation n"
  shows "tx_ok k tm'"
proof -
  obtain t m t' m' where tm: "tm = (t, m)" "tm' = (t', m')" by (metis prod.exhaust)
  with assms tx_step_inv [of t m admit op out t' m'] bound_to_step [of k t admit op m out t' m'] show ?thesis
    by (simp add: tx_ok_def)
qed

lemma bound_to_reconciled: "bound_to k t \<Longrightarrow> is_reconciled n t \<Longrightarrow> k = Some n"
  by (auto simp: bound_to_def is_reconciled_def)

section \<open>Reloads: facts\<close>

lemma replace_simps [simp]:
  "ms_hyprland (matching_replace cfg s) = fst (tx_invalidate_speculation (ms_tx s))"
  "ms_matcher (matching_replace cfg s) = swap_rules (c_rules cfg) (invalidate_speculation (ms_matcher s))"
  "ms_aliases (matching_replace cfg s) = c_app_aliases cfg" "ms_down_only (matching_replace cfg s) = ms_down_only s"
  "ms_features (matching_replace cfg s) = ms_features s"
  by (simp_all add: matching_replace_def Let_def)

lemma reload_cases:
  "(\<exists>e. reload_state toml content s = (Err e, s)) \<or>
   (\<exists>cfg. load_from_file (\<lambda>_. content) toml Linux [] = Ok cfg \<and>
      reload_state toml content s = (Ok cfg, matching_replace cfg s) \<and>
      (ms_down_only s \<longrightarrow> validate_rules cfg (ms_features s)))"
  by (cases "load_from_file (\<lambda>_. content) toml Linux []") (auto simp: reload_state_def)

lemma replace_inv:
  assumes "tx_ok k (ms_tx s)" and "load_from_file rd toml p path = Ok cfg"
  shows "tx_ok k (ms_tx (matching_replace cfg s))"
proof -
  obtain rules where r: "c_rules cfg = rule_set_new rules"
    using load_rules [OF assms(2)] by blast
  have "tx_step admit (Reload rules) (ms_tx s) = Some (NoFlag, ms_tx (matching_replace cfg s))" for admit
    by (simp add: r case_prod_beta)
  from tx_ok_step [OF assms(1) this] show ?thesis by simp
qed

lemma reload_inv:
  assumes "tx_ok k (ms_tx s)" and "s' = snd (reload_state toml content s)"
  shows "tx_ok k (ms_tx s')" "tx_pending (ms_hyprland s') \<in> {tx_pending (ms_hyprland s), None}"
    "tx_modifier_tap_release (ms_hyprland s') = tx_modifier_tap_release (ms_hyprland s)"
  using reload_cases [of toml content s] assms replace_inv by (auto simp: tap_release_kept)

lemma publish_inv:
  assumes "tx_ok k (ms_tx s)"
  shows "tx_ok k (ms_tx (publish_reloads toml files s)) \<and>
    tx_pending (ms_hyprland (publish_reloads toml files s)) \<in> {tx_pending (ms_hyprland s), None} \<and>
    tx_modifier_tap_release (ms_hyprland (publish_reloads toml files s)) = tx_modifier_tap_release (ms_hyprland s)"
  using assms
proof (induction files arbitrary: s)
  case (Cons content files)
  let ?s = "snd (reload_state toml content s)"
  have "publish_reloads toml (content # files) s = publish_reloads toml files ?s"
    by (simp add: publish_reloads_def)
  with Cons.IH [OF reload_inv(1) [OF Cons.prems refl, of toml content]] reload_inv [OF Cons.prems refl, of toml content]
  show ?case by auto
qed (simp add: publish_reloads_def)

section \<open>The handler closes its proposals\<close>

definition hd_inv :: "64 word option \<Rightarrow> 'e handler \<Rightarrow> bool" where
  "hd_inv k h \<longleftrightarrow> tx_ok k (ms_tx (hd_matching h))"

definition hd_idle :: "'e handler \<Rightarrow> bool" where
  "hd_idle h \<longleftrightarrow> tx_pending (ms_hyprland (hd_matching h)) = None"

definition hd_open :: "scope \<Rightarrow> native_event \<Rightarrow> 'e handler \<Rightarrow> bool" where
  "hd_open s e h \<longleftrightarrow> (\<forall>p. tx_pending (ms_hyprland (hd_matching h)) = Some p \<longrightarrow>
     pp_scope p = s \<and> (ne_state e = 1 \<or> tx_modifier_tap_release (ms_hyprland (hd_matching h))))"

lemma acquire_matching:
  "hd_matching (acquire env h) = publish_reloads (de_toml env) (fst (de_reloads env (hd_world h))) (hd_matching h)"
  by (simp add: acquire_def case_prod_beta)

lemma acquire_keeps:
  "hd_inv k h \<Longrightarrow> hd_inv k (acquire env h)"
  "hd_inv k h \<Longrightarrow> hd_idle h \<Longrightarrow> hd_idle (acquire env h)"
  "hd_inv k h \<Longrightarrow> hd_open s e h \<Longrightarrow> hd_open s e (acquire env h)"
  using publish_inv [of k "hd_matching h" "de_toml env" "fst (de_reloads env (hd_world h))"]
  by (auto simp: acquire_matching hd_inv_def hd_idle_def hd_open_def)

text \<open>The operations that leave no proposal open.\<close>

lemma step_keeps:
  assumes "tx_step (\<lambda>_. False) op tm = Some (out, tm')" and "tx_pending (fst tm) = None"
    and "\<nexists>s e f now. op = Propose s e f now"
  shows "tx_pending (fst tm') = None"
proof -
  obtain t m t' m' where tm: "tm = (t, m)" "tm' = (t', m')" by (metis prod.exhaust)
  have "tx_pending t' = None"
  proof (cases "quieting op")
    case True
    from tx_step_quieting [OF True assms(1) [unfolded tm]] assms(2) show ?thesis by (auto simp: tm)
  next
    case False
    with assms show ?thesis
      by (cases op) (auto simp: tm on_delivery_def tx_settle_device_event_def reconciled_def retire_device_def Let_def
          case_prod_beta split: if_splits delivery_report.splits option.splits)
  qed
  then show ?thesis by (simp add: tm)
qed

text \<open>No proposal is open.\<close>

definition quiet :: "64 word option \<Rightarrow> transactions \<times> matcher \<Rightarrow> bool" where
  "quiet k tm \<longleftrightarrow> tx_ok k tm \<and> tx_pending (fst tm) = None"

lemma quiet_step:
  "quiet k tm \<Longrightarrow> tx_step (\<lambda>_. False) op tm = Some (out, tm') \<Longrightarrow> \<nexists>s e f now. op = Propose s e f now \<Longrightarrow>
   \<nexists>n. op = AwaitReconciliation n \<Longrightarrow> quiet k tm'"
  unfolding quiet_def using tx_ok_step [of k tm _ op out tm'] step_keeps [of op tm out tm'] by blast

lemma quiet_ops:
  assumes "quiet k tm"
  shows "quiet k (retire_device g tm)" "quiet k (observe_unlocked_epoch n tm)" "quiet k (observe_lock_boundary n tm)"
    "quiet k (tx_invalidate_speculation tm)" "quiet k (disconnected tm)" "quiet k (snd (await_lifecycle_reconciliation s b tm))"
    "quiet k (snd (reconciled s b tm))" "quiet k (snd (tx_settle_device_event s e r tm))"
  using quiet_step [OF assms, where op = "RetireGeneration g"] quiet_step [OF assms, where op = "UnlockedEpoch n"]
    quiet_step [OF assms, where op = "LockBoundary n"] quiet_step [OF assms, where op = InvalidateTx]
    quiet_step [OF assms, where op = Disconnect] quiet_step [OF assms, where op = "AwaitLifecycle s b"]
    quiet_step [OF assms, where op = "Reconcile s b"] quiet_step [OF assms, where op = "SettleEvent s e r"]
  by (simp_all add: case_prod_beta)

text \<open>Arming for a connection binds to it; disconnecting binds to any.\<close>

lemma quiet_await:
  assumes "quiet k tm" and "await_reconciliation n tm = (True, tm')"
  shows "quiet (Some n) tm'"
proof -
  obtain t m t' m' where tm: "tm = (t, m)" "tm' = (t', m')" by (metis prod.exhaust)
  have step: "tx_step (\<lambda>_. False) (AwaitReconciliation n) tm = Some (Flag True, tm')"
    using assms(2) by simp
  have "tx_inv tm'" "tx_pending (fst tm') = None"
    using assms(1) step_keeps [OF step] tx_step_inv [OF _ step [unfolded tm]] by (simp_all add: quiet_def tx_ok_def tm)
  with assms(2) show ?thesis
    by (auto simp: quiet_def tx_ok_def bound_to_def await_reconciliation_def tm split: if_splits prod.splits)
qed

lemma quiet_disconnected: "quiet k tm \<Longrightarrow> quiet k' (disconnected tm)"
  using quiet_ops(5) [of k tm] disconnected_simps(3) [of "fst tm" "snd tm"]
  by (auto simp: quiet_def tx_ok_def bound_to_control)

lemma quiet_if: "quiet k x \<Longrightarrow> quiet k y \<Longrightarrow> quiet k (if c then x else y)"
  by simp

lemma hd_quiet: "hd_inv k h \<and> hd_idle h \<longleftrightarrow> quiet k (ms_tx (hd_matching h))"
  by (auto simp: hd_inv_def hd_idle_def quiet_def)

lemma acquire_quiet: "hd_inv k h \<and> hd_idle h \<Longrightarrow> quiet k (ms_tx (hd_matching (acquire env h)))"
  using acquire_keeps(1,2) [of k h env] by (simp add: hd_quiet [symmetric])

lemma ms_health_tx [simp]: "ms_tx (s\<lparr>ms_health := x\<rparr>) = ms_tx s"
  by simp

lemma reset_quiet:
  assumes "hd_inv k h \<and> hd_idle h"
  shows "hd_inv k (handler_reset env s b h) \<and> hd_idle (handler_reset env s b h)"
proof -
  have m: "ms_tx (if c then s\<lparr>ms_health := x\<rparr> else s) = ms_tx s" for c x s by simp
  have hd: "hd_matching (h\<lparr>hd_matching := x\<rparr>) = x" for h :: "'a handler" and x by simp
  show ?thesis
    unfolding hd_quiet handler_reset_def Let_def case_prod_beta hd with_tx_simps prod.collapse m
    by (intro quiet_if quiet_ops acquire_quiet assms)
qed

lemma unlocked_quiet:
  assumes "hd_inv k h \<and> hd_idle h"
  shows "hd_inv k (handler_unlocked_epoch env s b h) \<and> hd_idle (handler_unlocked_epoch env s b h)"
  using reset_quiet [of k "acquire env h" env s b] acquire_quiet [OF assms, of env] quiet_ops(2)
  by (auto simp: handler_unlocked_epoch_def Let_def hd_quiet)

lemma disconnected_quiet:
  assumes "hd_inv k h \<and> hd_idle h"
  shows "hd_inv k (handler_disconnected env h) \<and> hd_idle (handler_disconnected env h)"
  using quiet_ops(5) [OF acquire_quiet [OF assms, of env]]
  by (simp add: handler_disconnected_def Let_def hd_quiet del: disconnected_simps)

lemma delivery_quiet:
  assumes "hd_inv k h" and "hd_open s e h"
  shows "hd_inv k (handler_delivery env s e d r h) \<and> hd_idle (handler_delivery env s e d r h)"
proof -
  let ?h = "acquire env h"
  obtain t m where tm: "ms_tx (hd_matching ?h) = (t, m)" by (rule prod.exhaust)
  have inv: "tx_ok k (t, m)"
    using acquire_keeps(1) [OF assms(1), of env] tm by (simp add: hd_inv_def)
  have op: "pp_scope p = s \<and> (ne_state e = 1 \<or> tx_modifier_tap_release t)" if "tx_pending t = Some p" for p
    using acquire_keeps(3) [OF assms, of env] tm that by (simp add: hd_open_def)
  show ?thesis
  proof (cases "ne_state e = 1 \<or> tx_modifier_tap_release t")
    case True
    obtain b t' m' where d: "on_delivery s r (t, m) = (b, t', m')" by (metis prod_cases3)
    have "tx_pending t' = None"
      using d by (cases rule: on_delivery_cases) (use op in auto)
    moreover have "tx_ok k (t', m')"
      using tx_ok_step [OF inv, where op = "OnDelivery s r"] d by simp
    ultimately show ?thesis using True tm d
      by (simp add: handler_delivery_def Let_def hd_quiet quiet_def)
  next
    case False
    with op inv have "quiet k (t, m)" by (cases "tx_pending t") (auto simp: quiet_def)
    from quiet_ops(8) [OF this] False tm show ?thesis
      by (simp add: handler_delivery_def Let_def hd_quiet)
  qed
qed

lemma propose_locked_proposes:
  assumes "propose_locked env s e h = Some (d, h')"
  shows "\<exists>admit f now r. propose_with_source admit s e f now (ms_tx (hd_matching h)) = Some (r, ms_tx (hd_matching h'))"
proof -
  obtain now w where n: "de_now env (hd_world h) = (now, w)" by (rule prod.exhaust)
  let ?f = "event_app (ms_aliases (hd_matching h)) e"
  obtain admitted q w' where a: "submit_source env (asked_source s e ?f now (ms_tx (hd_matching h))) (hd_sources h) w =
      (admitted, q, w')" by (metis prod_cases3)
  have "\<exists>r. propose_with_source (\<lambda>_. admitted) s e ?f now (ms_tx (hd_matching h)) = Some (r, ms_tx (hd_matching h'))"
    using assms by (auto simp: propose_locked_def n a)
  then show ?thesis by blast
qed

lemma propose_locked_open:
  assumes "quiet k (ms_tx (hd_matching h))" and "propose_locked env s e h = Some (d, h')" and "ne_state e = 1 \<or> ne_state e = 0"
  shows "hd_inv k h' \<and> hd_open s e h'"
proof -
  obtain admit f now r where
    p: "propose_with_source admit s e f now (ms_tx (hd_matching h)) = Some (r, ms_tx (hd_matching h'))"
    using propose_locked_proposes [OF assms(2)] by blast
  have q: "tx_ok k (ms_tx (hd_matching h))" "tx_pending (ms_hyprland (hd_matching h)) = None"
    using assms(1) by (simp_all add: quiet_def)
  show ?thesis
    unfolding hd_inv_def hd_open_def tap_release_kept(1) [OF p]
    using tx_ok_step [OF q(1), of admit "Propose s e f now"] p propose_opens_pending [OF p q(2)] assms(3) by fastforce
qed

lemma propose_open:
  assumes "hd_inv k h \<and> hd_idle h" and "handler_propose env s e h = Some (d, h')" and "ne_state e = 1 \<or> ne_state e = 0"
  shows "hd_inv k h' \<and> hd_open s e h'"
proof -
  obtain free w where l: "de_try_lock env (hd_world h) = (free, w)" by (rule prod.exhaust)
  let ?h = "acquire env (h\<lparr>hd_world := w\<rparr>)"
  let ?h2 = "(if hd_observation_gap ?h then update_tx tx_invalidate_speculation ?h else ?h)\<lparr>hd_observation_gap := False\<rparr>"
  have "quiet k (ms_tx (hd_matching ?h))"
    by (rule acquire_quiet) (use assms(1) in \<open>simp add: hd_inv_def hd_idle_def\<close>)
  then have q: "quiet k (ms_tx (hd_matching ?h2))"
    using quiet_ops(4) [of k "ms_tx (hd_matching ?h)"] by (simp del: tx_invalidate_simps)
  show ?thesis
  proof (cases free)
    case True
    with assms(2) have "propose_locked env s e ?h2 = Some (d, h')"
      by (simp add: handler_propose_def l Let_def)
    from propose_locked_open [OF q this assms(3)] show ?thesis .
  next
    case False
    with assms(2) have "h' = h\<lparr>hd_world := w, hd_observation_gap := True\<rparr>"
      by (simp add: handler_propose_def l Let_def)
    with assms(1) show ?thesis by (simp add: hd_inv_def hd_idle_def hd_open_def)
  qed
qed

interpretation daemon_proposals: proposal_handler "daemon_handler env" "hd_inv k" hd_idle hd_open for env k
proof (unfold_locales, goal_cases)
  case (1 h s e)
  then show ?case by (simp add: hd_open_def hd_idle_def)
next
  case (2 h s e d h')
  then show ?case using propose_open [of k h env s e d h'] by (simp add: daemon_handler_def)
next
  case (3 h s e f h')
  then show ?case by (simp add: daemon_handler_def)
next
  case (4 h s e d r)
  then show ?case using delivery_quiet [of k h s e env d r] by (simp add: daemon_handler_def)
next
  case (5 h t)
  then show ?case by (simp add: daemon_handler_def)
next
  case (6 h s b)
  then show ?case using reset_quiet [of k h env s b] by (simp add: daemon_handler_def)
next
  case (7 h s b)
  then show ?case using unlocked_quiet [of k h env s b] by (simp add: daemon_handler_def)
next
  case (8 h)
  then show ?case using disconnected_quiet [of k h env] by (simp add: daemon_handler_def)
qed

text \<open>The session's filter around a handler that closes its proposals is one too.\<close>

context proposal_handler
begin

lemma down_only_closes: "proposal_handler (down_only releases H) inv idle open_for"
proof (unfold_locales, goal_cases)
  case (2 h s e d h')
  then obtain d' where "eh_propose H s e h = Some (d', h')"
    by (auto simp: down_only_def)
  with 2 show ?case using propose_opens by blast
qed (auto simp: down_only_def idle_open delivery_closes trace_idle reset_idle unlocked_idle disconnected_idle)

lemma step_if_ready_closes:
  assumes "inv h" and "idle h" and "step_if_ready net H d s h w = Some (r, s', h', w')"
  shows "inv h' \<and> idle h'"
proof (cases "ss_matcher_bound s")
  case True
  define act where "act \<longleftrightarrow> ss_active s \<and> \<not> br_awaiting_reconciliation (ss_bridge s) \<and> \<not> br_locked (ss_bridge s)"
  from True assms(3) obtain r1 b1 where
    "(if act then ready_mode net (down_only (feature_mask s = TAP_FEATURES) H) d True (ss_bridge s) h w
      else ready_mode net H d False (ss_bridge s) h w) = Some (r1, b1, h', w')"
    unfolding step_if_ready_def act_def admitted_step_if_ready_def passive_step_if_ready_def by auto
  then show ?thesis
    using ready_mode_closes [OF assms(1,2)] proposal_handler.ready_mode_closes [OF down_only_closes assms(1,2)]
    by (simp split: if_splits)
qed (use assms in \<open>auto simp: step_if_ready_def\<close>)

end

lemma reload_owner:
  "m_rules (swap_rules rs m) = rs"
  "own (swap_rules rs m) = own m" "own (invalidate_speculation m) = own m"
  "m_delivery_generation (swap_rules rs m) = m_delivery_generation m"
  "m_delivery_generation (invalidate_speculation m) = m_delivery_generation m"
  by (simp_all add: own_def fun_eq_iff swap_rules_def invalidate_speculation_def)

section \<open>Properties\<close>

text \<open>C39: A reload publishes a whole configuration or nothing. After any sequence of reloads, some of which may
  fail to read, parse, validate or be admitted, the rules and the application aliases in force are those of
  one configuration, the initial one or one that was read and accepted; an installed session's rules stay
  within its admitted features; and no press changes owner.\<close>

theorem reloads_publish_whole_configs:
  assumes "m_rules (ms_matcher s) = c_rules cfg0" and "ms_aliases s = c_app_aliases cfg0"
    and "ms_down_only s \<longrightarrow> validate_rules cfg0 (ms_features s)"
  shows "let s' = publish_reloads toml files s in
    (\<exists>cfg. (cfg = cfg0 \<or> (\<exists>content \<in> set files. load_from_file (\<lambda>_. content) toml Linux [] = Ok cfg)) \<and>
       m_rules (ms_matcher s') = c_rules cfg \<and> ms_aliases s' = c_app_aliases cfg \<and>
       (ms_down_only s \<longrightarrow> validate_rules cfg (ms_features s))) \<and>
    ms_down_only s' = ms_down_only s \<and> ms_features s' = ms_features s \<and> own (ms_matcher s') = own (ms_matcher s)"
  using assms
proof (induction files arbitrary: s cfg0)
  case (Cons content files)
  let ?s = "snd (reload_state toml content s)"
  have p: "publish_reloads toml (content # files) s = publish_reloads toml files ?s"
    by (simp add: publish_reloads_def)
  from reload_cases [of toml content s] show ?case
  proof
    assume "\<exists>e. reload_state toml content s = (Err e, s)"
    then have "?s = s" by auto
    then show ?thesis using Cons.IH [OF Cons.prems] unfolding p Let_def by auto
  next
    assume "\<exists>cfg. load_from_file (\<lambda>_. content) toml Linux [] = Ok cfg \<and>
      reload_state toml content s = (Ok cfg, matching_replace cfg s) \<and> (ms_down_only s \<longrightarrow> validate_rules cfg (ms_features s))"
    then obtain cfg where c: "load_from_file (\<lambda>_. content) toml Linux [] = Ok cfg" "?s = matching_replace cfg s"
      "ms_down_only s \<longrightarrow> validate_rules cfg (ms_features s)"
      by auto
    then have "m_rules (ms_matcher ?s) = c_rules cfg" "own (ms_matcher ?s) = own (ms_matcher s)"
      by (simp_all add: reload_owner)
    with Cons.IH [of ?s cfg] c show ?thesis
      unfolding p Let_def by auto
  qed
qed (auto simp: publish_reloads_def)

definition ex_config :: config where
  "ex_config = \<lparr>c_daemon = daemon_section_default, c_app_aliases = [], c_input_source_aliases = [], c_rules = rule_set_new []\<rparr>"

definition ex_installed :: matching_state where
  "ex_installed = (matching_new ex_config)\<lparr>ms_down_only := True\<rparr>"

definition ex_env :: "unit daemon_env" where
  "ex_env = \<lparr>de_try_lock = (\<lambda>_. (True, ())), de_now = (\<lambda>_. (0, ())), de_cache_busy = (\<lambda>_. (False, ())),
     de_reloads = (\<lambda>_. ([], ())), de_toml = (\<lambda>_. Err [])\<rparr>"

theorem reloads_publish_whole_configs_witness:
  "ms_down_only ex_installed \<and>
   (\<exists>cfg. m_rules (ms_matcher (publish_reloads (\<lambda>_. Ok ex_doc) [Err ''gone'', Ok []] ex_installed)) = c_rules cfg \<and>
      validate_rules cfg 1)"
  using reloads_publish_whole_configs [of ex_installed ex_config "\<lambda>_. Ok ex_doc" "[Err ''gone'', Ok []]"]
  by (simp add: ex_installed_def matching_new_def ex_config_def matcher_new_def validate_rules_def rule_set_iter_def
      rule_set_new_def Let_def) blast

end
