(* ===== verification/Sink.thy ===== *)
theory Sink
  imports Daemon
begin

text \<open>
  The event sinks of the daemon: \<^verbatim>\<open>MatcherSink\<close> of \<^verbatim>\<open>packages/cli/src/daemon.rs\<close> and the Linux
  \<^verbatim>\<open>deliver\<close> of \<^verbatim>\<open>daemon/linux.rs\<close>, with the verdicts of \<^verbatim>\<open>packages/core/src/backend.rs\<close>. Injection belongs
  to the platform backend and is a parameter. On Linux the matching lock is held from the dispatch to the
  settlement, so reloads come before the dispatch or after the verdict.
\<close>

datatype backend_verdict = PassEvent | SwallowEvent

record 'e sink =
  sk_matching :: matching_state
  sk_sources :: "source_queue option"
  sk_focus :: "focus_cache option"
  sk_world :: 'e

type_synonym 'e injector = "action \<Rightarrow> 'e \<Rightarrow> (unit, backend_error) result \<times> 'e"

definition sink_focus ::
  "'e daemon_env \<Rightarrow> string option \<Rightarrow> 'e sink \<Rightarrow> (string option \<times> app_identity option) \<times> 'e" where
  "sink_focus env focused_app k = (case sk_focus k of
      None \<Rightarrow> ((focused_app, map_option LinuxLegacy focused_app), sk_world k)
    | Some cache \<Rightarrow>
        let (busy, e) = de_cache_busy env (sk_world k);
            (now, e) = de_now env e;
            focus = focus_cache_current busy now cache
        in ((map_option fi_value focus, map_option focus_app_identity focus), e))"

definition perform ::
  "'e daemon_env \<Rightarrow> 'e injector \<Rightarrow> action \<Rightarrow> source_queue option \<Rightarrow> 'e \<Rightarrow>
   (unit, backend_error) result \<times> source_queue option \<times> 'e" where
  "perform env inject action sources e = (case action of
      SetInputSource source \<Rightarrow> (case sources of
          None \<Rightarrow> (Err (UnknownInputSourceError source), None, e)
        | Some queue \<Rightarrow>
            let (busy, e) = de_cache_busy env e;
                (now, e) = de_now env e;
                (r, queue) = submit busy now source queue
            in (r, Some queue, e))
    | SendKey _ _ \<Rightarrow> (let (r, e) = inject action e in (r, sources, e)))"

definition sink_acquire :: "'e daemon_env \<Rightarrow> 'e sink \<Rightarrow> 'e sink" where
  "sink_acquire env k = (let (files, e) = de_reloads env (sk_world k) in
     k\<lparr>sk_matching := publish_reloads (de_toml env) files (sk_matching k), sk_world := e\<rparr>)"

definition set_matcher :: "matcher \<Rightarrow> 'e sink \<Rightarrow> 'e sink" where
  "set_matcher m k = k\<lparr>sk_matching := (sk_matching k)\<lparr>ms_matcher := m\<rparr>\<rparr>"

definition deliver_locked ::
  "'e daemon_env \<Rightarrow> 'e injector \<Rightarrow> device_id \<Rightarrow> key_event \<Rightarrow> string option \<Rightarrow> 'e sink \<Rightarrow> (backend_verdict \<times> 'e sink) option" where
  "deliver_locked env inject device event logical k =
     (let (now, e) = de_now env (sk_world k); k = k\<lparr>sk_world := e\<rparr> in
      (case dispatch_device_with_delivery device event logical now (ms_matcher (sk_matching k)) of
         None \<Rightarrow> None
       | Some ((Pass, _), m) \<Rightarrow> Some (PassEvent, set_matcher m k)
       | Some ((Swallow, _), m) \<Rightarrow> Some (SwallowEvent, set_matcher m k)
       | Some ((Replace action, token), m) \<Rightarrow>
           let (result, sources, e) = perform env inject action (sk_sources k) (sk_world k);
               (delivery, verdict) = (case result of
                   Ok _ \<Rightarrow> (Delivered, SwallowEvent)
                 | Err _ \<Rightarrow> (RejectedOriginalForwarded, PassEvent))
           in map_option (\<lambda>token. (verdict,
                set_matcher (snd (report_delivery token delivery m)) (k\<lparr>sk_sources := sources, sk_world := e\<rparr>))) token))"

definition deliver ::
  "'e daemon_env \<Rightarrow> 'e injector \<Rightarrow> device_id \<Rightarrow> key_event \<Rightarrow> string option \<Rightarrow> 'e sink \<Rightarrow> (backend_verdict \<times> 'e sink) option" where
  "deliver env inject device event focused_app k =
     (let ((focused_app, identity), e) = sink_focus env focused_app k;
          k = sink_acquire env (k\<lparr>sk_world := e\<rparr>);
          logical = resolve_focused_app (ms_aliases (sk_matching k)) focused_app identity
      in deliver_locked env inject device event logical k)"

definition on_event ::
  "'e daemon_env \<Rightarrow> 'e injector \<Rightarrow> key_event \<Rightarrow> string option \<Rightarrow> 'e sink \<Rightarrow> (backend_verdict \<times> 'e sink) option" where
  "on_event env inject = deliver env inject 0"

definition on_device_event ::
  "'e daemon_env \<Rightarrow> 'e injector \<Rightarrow> device_id \<Rightarrow> key_event \<Rightarrow> string option \<Rightarrow> 'e sink \<Rightarrow>
   (backend_verdict \<times> 'e sink) option" where
  "on_device_event env inject = deliver env inject"

definition on_device_reset :: "'e daemon_env \<Rightarrow> device_id \<Rightarrow> 'e sink \<Rightarrow> 'e sink" where
  "on_device_reset env device k = (let k = sink_acquire env k in
     set_matcher (reset_device device (ms_matcher (sk_matching k))) k)"

definition on_stream_reset :: "'e daemon_env \<Rightarrow> 'e sink \<Rightarrow> 'e sink" where
  "on_stream_reset env k = (let k = sink_acquire env k in
     set_matcher (matcher_reset (ms_matcher (sk_matching k))) k)"

text \<open>The sink of the other platforms: no legacy fallback for the identity, and no settlement of the
  injection.\<close>

definition dispatch_identity ::
  "device_id \<Rightarrow> key_event \<Rightarrow> string option \<Rightarrow> app_identity option \<Rightarrow> instant \<Rightarrow> matching_state \<Rightarrow>
   (verdict \<times> matching_state) option" where
  "dispatch_identity device event focused_app identity now s =
     (let logical = (case Option.bind identity (resolve_app_identity (ms_aliases s)) of
            Some name \<Rightarrow> Some name | None \<Rightarrow> focused_app)
      in map_option (\<lambda>(v, m). (v, s\<lparr>ms_matcher := m\<rparr>)) (dispatch_device device event logical now (ms_matcher s)))"

definition apply_verdict :: "'e injector \<Rightarrow> verdict \<Rightarrow> 'e \<Rightarrow> backend_verdict \<times> 'e" where
  "apply_verdict inject v e = (case v of
      Pass \<Rightarrow> (PassEvent, e)
    | Swallow \<Rightarrow> (SwallowEvent, e)
    | Replace action \<Rightarrow> (SwallowEvent, snd (inject action e)))"

definition deliver_elsewhere ::
  "(string \<Rightarrow> app_identity) \<Rightarrow> 'e injector \<Rightarrow> device_id \<Rightarrow> key_event \<Rightarrow> string option \<Rightarrow> instant \<Rightarrow>
   matching_state \<Rightarrow> 'e \<Rightarrow> (backend_verdict \<times> matching_state \<times> 'e) option" where
  "deliver_elsewhere app_identity inject device event focused_app now s e =
     map_option (\<lambda>(v, s). case apply_verdict inject v e of (verdict, e) \<Rightarrow> (verdict, s, e))
       (dispatch_identity device event focused_app (map_option app_identity focused_app) now s)"

section \<open>Facts\<close>

definition sink_ok :: "'e sink \<Rightarrow> bool" where
  "sink_ok k \<longleftrightarrow> quiet None (ms_tx (sk_matching k))"

abbreviation sink_own :: "'e sink \<Rightarrow> press \<Rightarrow> owner" where
  "sink_own k \<equiv> own (ms_matcher (sk_matching k))"

abbreviation sink_generation :: "'e sink \<Rightarrow> 64 word" where
  "sink_generation k \<equiv> m_delivery_generation (ms_matcher (sk_matching k))"

lemma publish_owner:
  "own (ms_matcher (publish_reloads toml files s)) = own (ms_matcher s) \<and>
   m_delivery_generation (ms_matcher (publish_reloads toml files s)) = m_delivery_generation (ms_matcher s)"
proof (induction files arbitrary: s)
  case (Cons content files)
  have "own (ms_matcher (snd (reload_state toml content s))) = own (ms_matcher s) \<and>
      m_delivery_generation (ms_matcher (snd (reload_state toml content s))) = m_delivery_generation (ms_matcher s)"
    using reload_cases [of toml content s] by (auto simp: reload_owner)
  with Cons.IH [of "snd (reload_state toml content s)"] show ?case
    by (simp add: publish_reloads_def)
qed (simp add: publish_reloads_def)

lemma sink_acquire_ok: "sink_ok k \<Longrightarrow> sink_ok (sink_acquire env k)"
  using publish_inv [of None "sk_matching k" "de_toml env" "fst (de_reloads env (sk_world k))"]
  by (auto simp: sink_ok_def quiet_def sink_acquire_def case_prod_beta)

lemma sink_acquire_owner:
  "sink_own (sink_acquire env k) = sink_own k" "sink_generation (sink_acquire env k) = sink_generation k"
  by (simp_all add: sink_acquire_def case_prod_beta publish_owner)

lemma set_matcher_simps [simp]:
  "ms_matcher (sk_matching (set_matcher m k)) = m" "ms_hyprland (sk_matching (set_matcher m k)) = ms_hyprland (sk_matching k)"
  by (simp_all add: set_matcher_def)

lemma sink_ok_matcher:
  "sink_ok k \<longleftrightarrow> matcher_inv (ms_matcher (sk_matching k)) \<and>
     (\<forall>q. hm_get (m_pending_deliveries (ms_matcher (sk_matching k))) q = None) \<and>
     tx_pending (ms_hyprland (sk_matching k)) = None \<and> bound_to None (ms_hyprland (sk_matching k))"
  by (auto simp: sink_ok_def quiet_def tx_ok_def tx_inv_def pending_token_def)

text \<open>What the settled event means for the press: it is consumed exactly when it is swallowed.\<close>

definition settled_as :: "press \<Rightarrow> event_kind \<Rightarrow> backend_verdict \<Rightarrow> (press \<Rightarrow> owner) \<Rightarrow> (press \<Rightarrow> owner) \<Rightarrow> bool" where
  "settled_as p k v before after \<longleftrightarrow>
     (\<forall>q. q \<noteq> p \<longrightarrow> after q = before q) \<and>
     (\<not> is_modifier (snd p) \<and> k = KeyDown \<longrightarrow> (v = SwallowEvent \<longleftrightarrow> after p = Consumed) \<and>
        (before p \<noteq> Free \<longrightarrow> after p = before p)) \<and>
     (\<not> is_modifier (snd p) \<and> k = KeyUp \<longrightarrow> (v = SwallowEvent \<longleftrightarrow> before p = Consumed) \<and> after p = Free)"

lemma plain_settled:
  assumes "matcher_inv m" and "dispatch_device d e f now m = Some (v, m')" and "\<And>a. v \<noteq> Replace a"
  shows "settled_as (d, code e) (kind e) (if v = Swallow then SwallowEvent else PassEvent) (own m) (own m')"
  using dispatch_device_owner [OF assms(1,2)] dispatch_device_verdict [OF assms(1,2)] assms(3)
  by (cases v; cases "kind e"; cases "own m (d, code e)") (auto simp: settled_as_def)

lemma replaced_press:
  assumes "matcher_inv m" and "dispatch_device d e f now m = Some (Replace a, m')"
  shows "own m (d, code e) = Free" "own m' = (own m)((d, code e) := if is_modifier (code e) then Free else Consumed)"
    "\<not> is_modifier (code e) \<Longrightarrow> kind e = KeyDown"
proof -
  show free: "own m (d, code e) = Free"
    using dispatch_device_verdict [OF assms] by (cases "kind e"; cases "own m (d, code e)") auto
  then show "own m' = (own m)((d, code e) := if is_modifier (code e) then Free else Consumed)"
    using dispatch_device_owner [OF assms] by simp
  show "kind e = KeyDown" if "\<not> is_modifier (code e)"
    using assms
  proof (cases rule: dispatch_device_cases)
    case rules
    then show ?thesis using rules_verdict_key_pass [OF that, of d f now] by (cases "kind e = KeyDown") auto
  qed auto
qed

lemma with_delivery_total:
  assumes "matcher_inv m" and "checked_add (m_delivery_generation m) 1 \<noteq> None"
  shows "\<exists>v tok m'. dispatch_device_with_delivery d e f now m = Some ((v, tok), m')"
proof -
  obtain v m1 where r: "dispatch_device d e f now m = Some (v, m1)"
    using dispatch_device_total [OF assms(1)] by blast
  with dispatch_pending(1) [OF assms(1) r] assms(2) show ?thesis
    by (cases v) (auto simp: dispatch_device_with_delivery_def)
qed

lemma deliver_locked_settles:
  assumes "sink_ok k" and "checked_add (sink_generation k) 1 \<noteq> None"
  shows "\<exists>v k'. deliver_locked env inject d e f k = Some (v, k') \<and> sink_ok k' \<and>
    settled_as (d, code e) (kind e) v (sink_own k) (sink_own k')"
proof -
  obtain now w where n: "de_now env (sk_world k) = (now, w)" by (rule prod.exhaust)
  let ?m = "ms_matcher (sk_matching k)"
  have ok: "matcher_inv ?m" "\<And>q. hm_get (m_pending_deliveries ?m) q = None" "tx_pending (ms_hyprland (sk_matching k)) = None"
    "bound_to None (ms_hyprland (sk_matching k))"
    using assms(1) by (auto simp: sink_ok_matcher)
  obtain v tok m' where r: "dispatch_device_with_delivery d e f now ?m = Some ((v, tok), m')"
    using with_delivery_total [OF ok(1) assms(2)] by blast
  have inv: "matcher_inv m'"
    by (rule with_delivery_inv [OF ok(1) r])
  from r show ?thesis
  proof (cases rule: with_delivery_cases)
    case plain
    with with_delivery_pending(1) [OF ok(1,2) r] plain_settled [OF ok(1) plain(1)] inv ok(3,4) show ?thesis
      by (cases v) (auto simp: deliver_locked_def n r sink_ok_matcher)
  next
    case (replaced m1 a g)
    obtain res q w' where p: "perform env inject a (sk_sources k) w = (res, q, w')" by (metis prod_cases3)
    let ?tok = "\<lparr>rt_device = d, rt_key = code e, rt_generation = g\<rparr>"
    define del where "del = (if is_ok res then Delivered else RejectedOriginalForwarded)"
    have pend: "hm_get (m_pending_deliveries m') q = (if q = (d, code e) then Some g else None)" for q
      using with_delivery_pending(1) [OF ok(1,2) r, of q] replaced(4) by (simp add: token_press_def)
    have own': "own m' = own m1" by (simp add: replaced(5))
    note press = replaced_press [OF ok(1) replaced(1) [unfolded replaced(2)]]
    have own2: "own (snd (report_delivery ?tok del m')) = (if \<not> is_ok res \<and> \<not> is_modifier (code e)
        then (own ?m)((d, code e) := Forwarded) else (own ?m)((d, code e) := if is_modifier (code e) then Free else Consumed))"
      using report_own [of m' ?tok del] pend [of "(d, code e)"] press(2)
      by (auto simp: token_press_def own' del_def)
    have pend2: "hm_get (m_pending_deliveries (snd (report_delivery ?tok del m'))) q = None" for q
      using report_pending(2) [of m' ?tok del q] pend by (simp add: token_press_def)
    have "deliver_locked env inject d e f k = Some (if is_ok res then SwallowEvent else PassEvent,
        set_matcher (snd (report_delivery ?tok del m')) (k\<lparr>sk_sources := q, sk_world := w'\<rparr>))"
      by (cases res) (simp_all add: deliver_locked_def n r replaced(2,4) p del_def)
    moreover have "settled_as (d, code e) (kind e) (if is_ok res then SwallowEvent else PassEvent) (own ?m)
        (own (snd (report_delivery ?tok del m')))"
      unfolding own2 using press(1,3) by (auto simp: settled_as_def)
    ultimately show ?thesis
      using pend2 report_delivery_inv [OF inv, of ?tok del] ok(3,4)
      by (auto simp: sink_ok_matcher)
  qed
qed

lemma deliver_settles:
  assumes "sink_ok k" and "checked_add (sink_generation k) 1 \<noteq> None"
  shows "\<exists>v k'. deliver env inject d e f k = Some (v, k') \<and> sink_ok k' \<and>
    settled_as (d, code e) (kind e) v (sink_own k) (sink_own k')"
proof -
  obtain f' i w where s: "sink_focus env f k = ((f', i), w)" by (metis prod.exhaust)
  let ?k = "k\<lparr>sk_world := w\<rparr>"
  have "sink_ok ?k" using assms(1) by (simp add: sink_ok_def)
  from deliver_locked_settles [OF sink_acquire_ok [OF this]] show ?thesis
    using assms(2) by (simp add: deliver_def s sink_acquire_owner Let_def)
qed

section \<open>Properties\<close>


definition ex_sink :: "unit sink" where
  "ex_sink = \<lparr>sk_matching = (matching_new ex_config)\<lparr>ms_matcher := ex_matcher\<rparr>, sk_sources = None, sk_focus = None, sk_world = ()\<rparr>"

lemma ex_sink_ok: "sink_ok ex_sink"
  by (simp add: sink_ok_matcher ex_sink_def ex_matcher_inv matching_new_def transactions_default_def bound_to_def)
    (simp add: ex_matcher_def matcher_new_def hm_get_def)


end
