(* ===== verification/Client.thy ===== *)
theory Client
  imports Broker Sink Keymap
begin

unbundle bit_operations_syntax

text \<open>
  The daemon's side of the broker connection, \<^verbatim>\<open>packages/linux/src/backend.rs\<close>: the focus tracker, the state kept of
  each device generation, the answer to a request, the serving loop and the backend around it. The event
  sink is the trait's record of methods; the daemon's own sink is an instance. The stop flag, the tracker and the
  connection handles are shared with other threads and are read from the world.
\<close>

section \<open>Focus\<close>

type_synonym focus_tracker = "(string \<times> instant) option"

definition tracker_current :: "bool \<Rightarrow> instant \<Rightarrow> focus_tracker \<Rightarrow> string option" where
  "tracker_current poisoned now tracked = (if poisoned then None
     else Option.bind tracked (\<lambda>(application, observed). if now - observed \<le> from_millis 500 then Some application else None))"

definition tracker_update :: "bool \<Rightarrow> instant \<Rightarrow> string option \<Rightarrow> focus_tracker \<Rightarrow> focus_tracker" where
  "tracker_update poisoned now application tracked = (if poisoned then tracked
     else map_option (\<lambda>application. (application, now)) application)"

section \<open>The state of the client\<close>

record client_state =
  cs_physical :: "(64 word, 16 word set) hashmap"
  cs_epochs :: "(64 word, 64 word) hashmap"
  cs_sequences :: "(64 word, 64 word) hashmap"
  cs_highest_generation :: "64 word"

definition client_default :: client_state where
  "client_default = \<lparr>cs_physical = [], cs_epochs = [], cs_sequences = [], cs_highest_generation = 0\<rparr>"

record 'k event_sink =
  es_device_event :: "device_id \<Rightarrow> key_event \<Rightarrow> string option \<Rightarrow> 'k \<Rightarrow> (backend_verdict \<times> 'k) option"
  es_device_reset :: "device_id \<Rightarrow> 'k \<Rightarrow> 'k"
  es_stream_reset :: "'k \<Rightarrow> 'k"

definition daemon_sink :: "'e daemon_env \<Rightarrow> 'e injector \<Rightarrow> 'e sink event_sink" where
  "daemon_sink env inject = \<lparr>es_device_event = on_device_event env inject, es_device_reset = on_device_reset env,
     es_stream_reset = on_stream_reset env\<rparr>"

definition retire :: "64 word \<Rightarrow> client_state \<Rightarrow> client_state" where
  "retire generation s = s\<lparr>cs_physical := hm_remove generation (cs_physical s), cs_epochs := hm_remove generation (cs_epochs s),
     cs_sequences := hm_remove generation (cs_sequences s)\<rparr>"

definition stale :: "message \<Rightarrow> client_state \<Rightarrow> bool" where
  "stale request s \<longleftrightarrow>
     msg_generation request = 0 \<or> msg_epoch request = 0 \<or> msg_sequence request = 0 \<or>
     (case hm_get (cs_sequences s) (msg_generation request) of None \<Rightarrow> False | Some newest \<Rightarrow> msg_sequence request \<le> newest) \<or>
     (case hm_get (cs_epochs s) (msg_generation request) of None \<Rightarrow> False | Some epoch \<Rightarrow> msg_epoch request < epoch) \<or>
     hm_get (cs_epochs s) (msg_generation request) = None \<and> msg_generation request \<le> cs_highest_generation s \<or>
     hm_get (cs_epochs s) (msg_generation request) = None \<and> 128 \<le> length (cs_epochs s)"

definition client_validate ::
  "'k event_sink \<Rightarrow> message \<Rightarrow> client_state \<Rightarrow> 'k \<Rightarrow> (unit, backend_error) result \<times> client_state \<times> 'k" where
  "client_validate es request s k =
     (if msg_operation request \<notin> {EventOp, DeviceReset, SnapshotKey, DeviceRetire}
      then (Err (OtherBackend ''unexpected broker operation''), s, k)
      else if stale request s then (Err (OtherBackend ''invalid or stale broker generation/epoch/sequence''), s, k)
      else
        let generation = msg_generation request;
            previous = hm_get (cs_epochs s) generation;
            s = s\<lparr>cs_highest_generation := max (cs_highest_generation s) generation,
              cs_sequences := hm_insert generation (msg_sequence request) (cs_sequences s),
              cs_epochs := hm_insert generation (msg_epoch request) (cs_epochs s)\<rparr>
        in if previous \<noteq> None \<and> previous \<noteq> Some (msg_epoch request)
           then (Ok (), s\<lparr>cs_physical := hm_remove generation (cs_physical s)\<rparr>, es_device_reset es generation k)
           else (Ok (), s, k))"

definition held_keys :: "64 word \<Rightarrow> client_state \<Rightarrow> 16 word set" where
  "held_keys generation s = (case hm_get (cs_physical s) generation of None \<Rightarrow> {} | Some keys \<Rightarrow> keys)"

definition held_mods :: "16 word set \<Rightarrow> modifiers" where
  "held_mods keys = fold (\<lambda>c m. m OR evdev_modifier c) (sorted_list_of_set keys) mods_empty"

definition raw_kind :: "raw_event \<Rightarrow> event_kind" where
  "raw_kind raw = (if evdev_modifier (re_code raw) \<noteq> mods_empty then ModifiersChanged
     else if re_value raw = 0 then KeyUp else KeyDown)"

definition dispatch ::
  "'k event_sink \<Rightarrow> message \<Rightarrow> string option \<Rightarrow> client_state \<Rightarrow> 'k \<Rightarrow> (operation \<times> client_state \<times> 'k) option" where
  "dispatch es request focus s k =
     (let raw = msg_event request; generation = msg_generation request in
      if re_type raw = 1 \<and> re_value raw = 2 then Some (PassOp, s, k)
      else if re_type raw = 1 \<and> 0 \<le> sint (re_value raw) \<and> sint (re_value raw) \<le> 2 then
        let keys = (if re_value raw = 0 then held_keys generation s - {re_code raw} else insert (re_code raw) (held_keys generation s));
            s = s\<lparr>cs_physical := hm_insert generation keys (cs_physical s)\<rparr>
        in (case from_evdev (re_code raw) of
              None \<Rightarrow> Some (PassOp, s, k)
            | Some c \<Rightarrow> map_option (\<lambda>(verdict, k). (if verdict = SwallowEvent then SwallowOp else PassOp, s, k))
                (es_device_event es generation \<lparr>code = c, kind = raw_kind raw, mods = held_mods keys\<rparr> focus k))
      else Some (PassOp, s, k))"

section \<open>The answer to a request\<close>

text \<open>Everything between reading a request and writing its reply. The focus is read from the tracker, which has no
  effect of its own.\<close>

definition answer_reset ::
  "'k event_sink \<Rightarrow> message \<Rightarrow> client_state \<Rightarrow> 'k \<Rightarrow> client_state \<times> 'k" where
  "answer_reset es request s k =
     (let s = s\<lparr>cs_physical := hm_remove (msg_generation request) (cs_physical s)\<rparr>;
          s = (if msg_operation request = DeviceRetire then retire (msg_generation request) s else s)
      in (s, es_device_reset es (msg_generation request) k))"

definition answer_snapshot :: "message \<Rightarrow> client_state \<Rightarrow> (operation, backend_error) result \<times> client_state" where
  "answer_snapshot request s =
     (let raw = msg_event request; generation = msg_generation request in
      if re_type raw \<noteq> 1 \<or> re_value raw \<noteq> 1 \<or> MAX_KEY < re_code raw
      then (Err (OtherBackend ''invalid broker key snapshot''), s)
      else (Ok PassOp, s\<lparr>cs_physical := hm_insert generation (insert (re_code raw) (held_keys generation s)) (cs_physical s)\<rparr>))"

definition answer ::
  "'k event_sink \<Rightarrow> string option \<Rightarrow> message \<Rightarrow> client_state \<times> 'k \<Rightarrow>
   ((operation, backend_error) result \<times> client_state \<times> 'k) option" where
  "answer es focus request = (\<lambda>(s, k). case client_validate es request s k of
      (Err e, s, k) \<Rightarrow> Some (Err e, s, k)
    | (Ok _, s, k) \<Rightarrow>
        if msg_operation request \<in> {DeviceReset, DeviceRetire}
        then (case answer_reset es request s k of (s, k) \<Rightarrow> Some (Ok PassOp, s, k))
        else if msg_operation request = SnapshotKey
        then (case answer_snapshot request s of (r, s) \<Rightarrow> Some (r, s, k))
        else (case dispatch es request focus s k of
            None \<Rightarrow> None
          | Some (operation, s, k) \<Rightarrow> Some (Ok operation, s, k)))"

section \<open>The backend\<close>

record ('c, 'w) client_env =
  ce_stopped :: "'w \<Rightarrow> bool \<times> 'w"
  ce_stop :: "'w \<Rightarrow> 'w"
  ce_tracker :: "'w \<Rightarrow> (bool \<times> focus_tracker) \<times> 'w"
  ce_connect :: "string \<Rightarrow> 'w \<Rightarrow> ('c, errno) result \<times> 'w"
  ce_try_clone :: "'c \<Rightarrow> 'w \<Rightarrow> ('c, errno) result \<times> 'w"
  ce_shutdown :: "'c \<Rightarrow> 'w \<Rightarrow> 'w"
  ce_display :: "io_error \<Rightarrow> string"

record ('c, 'w) linux_backend =
  be_connection :: "'c option"
  be_poisoned :: bool
  be_running :: bool
  be_source :: "(string \<Rightarrow> 'w \<Rightarrow> (unit, backend_error) result \<times> 'w) option"

definition backend_new :: "('c, 'w) linux_backend" where
  "backend_new = \<lparr>be_connection = None, be_poisoned = False, be_running = False, be_source = None\<rparr>"

definition backend_io :: "('c, 'w) client_env \<Rightarrow> io_error \<Rightarrow> backend_error" where
  "backend_io ce e = OtherBackend (''Linux broker: '' @ ce_display ce e)"

text \<open>An action of the world within an operation of the backend: its error is wrapped and returned.\<close>

definition be_io ::
  "('c, 'w) client_env \<Rightarrow> ('w, 'a) io \<Rightarrow> ('a \<Rightarrow> 'w \<Rightarrow> ((unit, backend_error) result \<times> 's \<times> 'w) option) \<Rightarrow> 's \<Rightarrow> 'w \<Rightarrow>
   ((unit, backend_error) result \<times> 's \<times> 'w) option" where
  "be_io ce m f s w = (case m w of
      None \<Rightarrow> None
    | Some (Err e, w) \<Rightarrow> Some (Err (backend_io ce e), s, w)
    | Some (Ok a, w) \<Rightarrow> f a w)"

lemma be_io_mono [partial_function_mono]:
  assumes "\<And>a w. mono_option (\<lambda>g. F g a w)"
  shows "mono_option (\<lambda>g. be_io ce m (F g) s w)"
proof (cases "m w")
  case (Some y)
  then show ?thesis
    unfolding be_io_def using assms option.const_mono by (cases y; cases "fst y") simp_all
qed (simp add: be_io_def option.const_mono)

definition read_focus :: "('c, 'w) stream \<Rightarrow> ('c, 'w) client_env \<Rightarrow> 'w \<Rightarrow> string option \<times> 'w" where
  "read_focus so ce w = (case ce_tracker ce w of ((poisoned, tracked), w) \<Rightarrow>
     (case so_now so w of (now, w) \<Rightarrow> (tracker_current poisoned now tracked, w)))"

text \<open>The reply to an event is written without the aggregate deadline of the others.\<close>

definition write_reply :: "('c, 'w) stream \<Rightarrow> 'c \<Rightarrow> message \<Rightarrow> operation \<Rightarrow> ('w, unit) io" where
  "write_reply so c request operation =
     (let reply = request\<lparr>msg_operation := operation\<rparr> in
      if msg_operation request = EventOp then write_message (\<lambda>bytes. io_sys (so_write so c bytes)) reply
      else io_bind (so_instant so) (\<lambda>now. write_socket so reply c (now + DECISION_TIMEOUT)))"

partial_function (option) serve ::
  "('c, 'w) stream \<Rightarrow> ('c, 'w) client_env \<Rightarrow> 'k event_sink \<Rightarrow> 'c \<Rightarrow> client_state \<times> 'k \<Rightarrow> 'w \<Rightarrow>
   ((unit, backend_error) result \<times> (client_state \<times> 'k) \<times> 'w) option" where
  "serve so ce es c s w = (case ce_stopped ce w of (stopped, w) \<Rightarrow>
     if stopped then Some (Ok (), s, w)
     else be_io ce (io_sys (so_poll so c POLLIN 100)) (\<lambda>(ready, _) w.
       if ready = 0 then serve so ce es c s w
       else be_io ce (io_bind (so_instant so) (\<lambda>now. read_socket so c (now + DECISION_TIMEOUT))) (\<lambda>request w.
         (case read_focus so ce w of (focus, w) \<Rightarrow>
           (case answer es focus request s of
              None \<Rightarrow> None
            | Some (Err e, s) \<Rightarrow> Some (Err e, s, w)
            | Some (Ok operation, s) \<Rightarrow> be_io ce (write_reply so c request operation) (\<lambda>_ w. serve so ce es c s w) s w))) s w) s w)"

definition shutdown :: "('c, 'w) client_env \<Rightarrow> ('c, 'w) linux_backend \<Rightarrow> 'w \<Rightarrow> 'w" where
  "shutdown ce b w = (let w = ce_stop ce w in
     if be_poisoned b then w else (case be_connection b of None \<Rightarrow> w | Some c \<Rightarrow> ce_shutdown ce c w))"

definition run_connected ::
  "('c, 'w) stream \<Rightarrow> ('c, 'w) client_env \<Rightarrow> 'k event_sink \<Rightarrow> ('c, 'w) linux_backend \<Rightarrow> 'k \<Rightarrow> 'w \<Rightarrow>
   ((unit, backend_error) result \<times> (client_state \<times> 'k) \<times> 'w) option" where
  "run_connected so ce es b k w =
     (if be_poisoned b then Some (Err (OtherBackend ''broker lock poisoned''), (client_default, k), w)
      else (case be_connection b of
          None \<Rightarrow> Some (Err (MissingPermission ''Linux broker is not connected''), (client_default, k), w)
        | Some c \<Rightarrow> be_io ce (io_sys (ce_try_clone ce c)) (\<lambda>c w. serve so ce es c (client_default, k) w) (client_default, k) w))"

definition backend_run ::
  "('c, 'w) stream \<Rightarrow> ('c, 'w) client_env \<Rightarrow> 'k event_sink \<Rightarrow> 'k \<Rightarrow> ('c, 'w) linux_backend \<Rightarrow> 'w \<Rightarrow>
   ((unit, backend_error) result \<times> 'k \<times> ('c, 'w) linux_backend \<times> 'w) option" where
  "backend_run so ce es k b w =
     (if be_running b then Some (Err (OtherBackend ''Linux backend already running''), k, b, w)
      else (case run_connected so ce es b k w of
          None \<Rightarrow> None
        | Some (r, (_, k), w) \<Rightarrow>
            let k = es_stream_reset es k;
                (requested, w) = ce_stopped ce w;
                w = shutdown ce b w
            in Some (if requested then Ok () else r, k, b\<lparr>be_running := False\<rparr>, w)))"

definition backend_inject ::
  "action \<Rightarrow> ('c, 'w) linux_backend \<Rightarrow> 'w \<Rightarrow> (unit, backend_error) result \<times> 'w" where
  "backend_inject action b w = (case action of
      SetInputSource ident \<Rightarrow> (case be_source b of
          None \<Rightarrow> (Err (UnknownInputSourceError ident), w)
        | Some dispatcher \<Rightarrow> dispatcher ident w)
    | SendKey _ _ \<Rightarrow> (Err (InjectError
        ''asynchronous injection is gated until broker output/modifier ownership is qualified''), w))"

definition connect_broker ::
  "('c, 'w) stream \<Rightarrow> ('c, 'w) client_env \<Rightarrow> 32 word \<Rightarrow> string \<Rightarrow> ('c, 'w) linux_backend \<Rightarrow> 'w \<Rightarrow>
   ((unit, backend_error) result \<times> ('c, 'w) linux_backend \<times> 'w) option" where
  "connect_broker so ce euid path b w =
     (if euid = 0 then Some (Err (MissingPermission ''Linux daemon must run as the desktop user, not root''), b, w)
      else be_io ce (io_sys (ce_connect ce path)) (\<lambda>c.
        be_io ce (peer_identity_of so c) (\<lambda>peer w.
          if pi_uid peer \<noteq> 0 \<or> sint (pi_pid peer) \<le> 0
          then Some (Err (MissingPermission ''broker peer is not privileged''), b, w)
          else be_io ce (io_sys (so_set_read_timeout so c (from_millis 100))) (\<lambda>_.
            be_io ce (io_sys (so_set_write_timeout so c (from_millis 10))) (\<lambda>_ w.
              if be_poisoned b then Some (Err (OtherBackend ''broker lock poisoned''), b, w)
              else Some (Ok (), b\<lparr>be_connection := Some c\<rparr>, w)) b) b w) b) b w)"

record capabilities =
  ca_broker_connected :: bool
  ca_verified_session :: bool
  ca_source_switching :: bool
  ca_reason :: "string option"

definition backend_capabilities :: "('c, 'w) linux_backend \<Rightarrow> capabilities" where
  "backend_capabilities b = \<lparr>ca_broker_connected = (\<not> be_poisoned b \<and> be_connection b \<noteq> None), ca_verified_session = False,
     ca_source_switching = (be_source b \<noteq> None),
     ca_reason = Some ''broker activation requires qualified session/seat/lock authority''\<rparr>"

definition check_permissions :: "('c, 'w) linux_backend \<Rightarrow> (capabilities, backend_error) result" where
  "check_permissions b = Err (MissingPermission ''verified Linux broker session/seat/lock authority is not available'')"

definition set_source_dispatcher ::
  "(string \<Rightarrow> 'w \<Rightarrow> (unit, backend_error) result \<times> 'w) \<Rightarrow> ('c, 'w) linux_backend \<Rightarrow> ('c, 'w) linux_backend" where
  "set_source_dispatcher dispatcher b = b\<lparr>be_source := Some dispatcher\<rparr>"

section \<open>Requests are answered once\<close>

text \<open>The generations with a sequence are those with an epoch, and none is above the highest seen.\<close>

definition client_inv :: "client_state \<times> 'k \<Rightarrow> bool" where
  "client_inv = (\<lambda>(s, k). \<forall>g. (hm_get (cs_epochs s) g = None \<longleftrightarrow> hm_get (cs_sequences s) g = None) \<and>
     (hm_get (cs_epochs s) g \<noteq> None \<longrightarrow> g \<le> cs_highest_generation s))"

text \<open>A sequence number is spent for a generation when a request with it would be stale for good.\<close>

definition spent_request :: "client_state \<times> 'k \<Rightarrow> 64 word \<times> 64 word \<Rightarrow> bool" where
  "spent_request = (\<lambda>(s, k) (g, q). g \<le> cs_highest_generation s \<and>
     (case hm_get (cs_sequences s) g of None \<Rightarrow> True | Some newest \<Rightarrow> q \<le> newest))"

definition client_step ::
  "'k event_sink \<Rightarrow> string option \<times> message \<Rightarrow> client_state \<times> 'k \<Rightarrow>
   ((message \<times> (operation, backend_error) result) \<times> client_state \<times> 'k) option" where
  "client_step es = (\<lambda>(focus, request) s. map_option (\<lambda>(r, s). ((request, r), s)) (answer es focus request s))"

definition answered :: "message \<times> (operation, backend_error) result \<Rightarrow> (64 word \<times> 64 word) option" where
  "answered = (\<lambda>(request, r). if is_ok r then Some (msg_generation request, msg_sequence request) else None)"

definition seen :: "message \<Rightarrow> client_state \<Rightarrow> client_state" where
  "seen m s = s\<lparr>cs_highest_generation := max (cs_highest_generation s) (msg_generation m),
     cs_sequences := hm_insert (msg_generation m) (msg_sequence m) (cs_sequences s),
     cs_epochs := hm_insert (msg_generation m) (msg_epoch m) (cs_epochs s)\<rparr>"

lemma validate_cases:
  assumes "client_validate es m s k = (r, s1, k1)"
  obtains (refused) e where "r = Err e" "s1 = s" "k1 = k" "msg_operation m \<notin> {EventOp, DeviceReset, SnapshotKey, DeviceRetire} \<or> stale m s"
  | (accepted) phys where "r = Ok ()" "\<not> stale m s" "msg_operation m \<in> {EventOp, DeviceReset, SnapshotKey, DeviceRetire}"
      "s1 = (seen m s)\<lparr>cs_physical := phys\<rparr>"
      "hm_get (cs_epochs s) (msg_generation m) \<in> {None, Some (msg_epoch m)} \<longrightarrow> phys = cs_physical s"
      "\<not> hm_get (cs_epochs s) (msg_generation m) \<in> {None, Some (msg_epoch m)} \<longrightarrow> phys = hm_remove (msg_generation m) (cs_physical s)"
  using assms
  by (cases "msg_operation m \<in> {EventOp, DeviceReset, SnapshotKey, DeviceRetire} \<and> \<not> stale m s";
      cases "hm_get (cs_epochs s) (msg_generation m) \<in> {None, Some (msg_epoch m)}")
    (auto simp: client_validate_def seen_def Let_def split: if_splits)

text \<open>After the validation an answer changes the held keys and forgets a retired generation, nothing else.\<close>

definition same_but_held :: "client_state \<Rightarrow> client_state \<Rightarrow> bool" where
  "same_but_held s s' \<longleftrightarrow> cs_epochs s' = cs_epochs s \<and> cs_sequences s' = cs_sequences s \<and>
     cs_highest_generation s' = cs_highest_generation s"

lemma dispatch_same: "dispatch es m focus s k = Some (d, s', k') \<Longrightarrow> same_but_held s s'"
  by (auto simp: dispatch_def same_but_held_def Let_def split: if_splits option.splits)

lemma answer_cases:
  assumes "answer es focus m (s, k) = Some (r, s', k')"
  obtains (refused) e where "r = Err e" "s' = s"
  | (kept) "\<not> stale m s" "same_but_held (seen m s) s'"
  | (retired) "\<not> stale m s" "r = Ok PassOp" "same_but_held (retire (msg_generation m) (seen m s)) s'"
proof -
  obtain r1 s1 k1 where v: "client_validate es m s k = (r1, s1, k1)" by (cases "client_validate es m s k")
  then show thesis
  proof (cases rule: validate_cases)
    case (refused e)
    with assms v that(1) show thesis by (auto simp: answer_def)
  next
    case (accepted phys)
    then have s1: "same_but_held (seen m s) s1" by (simp add: same_but_held_def)
    have trans: "same_but_held s1 s' \<Longrightarrow> same_but_held (seen m s) s'"
      using s1 by (simp add: same_but_held_def)
    consider "msg_operation m = DeviceReset" | "msg_operation m = DeviceRetire" | "msg_operation m = SnapshotKey" | "msg_operation m = EventOp"
      using accepted(3) by blast
    then show thesis
    proof cases
      case 1
      with assms v accepted have "same_but_held s1 s'" by (auto simp: answer_def answer_reset_def same_but_held_def Let_def)
      with trans accepted(2) that(2) show thesis by blast
    next
      case 2
      with assms v accepted have "r = Ok PassOp" "same_but_held (retire (msg_generation m) (seen m s)) s'"
        by (auto simp: answer_def answer_reset_def same_but_held_def Let_def retire_def)
      with accepted(2) that(3) show thesis by blast
    next
      case 3
      with assms v accepted have "same_but_held s1 s'"
        by (auto simp: answer_def answer_snapshot_def same_but_held_def Let_def split: if_splits)
      with trans accepted(2) that(2) show thesis by blast
    next
      case 4
      with assms v accepted obtain d where "dispatch es m focus s1 k1 = Some (d, s', k')"
        by (auto simp: answer_def split: option.splits)
      from trans [OF dispatch_same [OF this]] accepted(2) that(2) show thesis by simp
    qed
  qed
qed

lemma client_inv_step:
  assumes "client_inv s" and "client_step es op s = Some (out, s')"
  shows "client_inv s'"
proof -
  obtain focus m where op: "op = (focus, m)" by fastforce
  obtain s0 k0 s1 k1 r where st: "s = (s0, k0)" "s' = (s1, k1)" "answer es focus m (s0, k0) = Some (r, s1, k1)"
    using assms(2) op by (cases s; cases s') (auto simp: client_step_def)
  from st(3) show ?thesis
  proof (cases rule: answer_cases)
    case kept
    with assms(1) st show ?thesis
      by (auto simp: client_inv_def same_but_held_def seen_def hm_lookup le_max_iff_disj)
  next
    case retired
    with assms(1) st show ?thesis
      by (auto simp: client_inv_def same_but_held_def seen_def retire_def hm_lookup le_max_iff_disj)
  qed (use assms(1) st in \<open>auto simp: client_inv_def\<close>)
qed

lemma client_spent_step:
  assumes inv: "client_inv s" and "client_step es op s = Some (out, s')"
  shows "spent_request s key \<Longrightarrow> spent_request s' key"
    and "answered out = Some key \<Longrightarrow> \<not> spent_request s key \<and> spent_request s' key"
proof -
  obtain focus m where op: "op = (focus, m)" by fastforce
  obtain g q where key: "key = (g, q)" by fastforce
  obtain s0 k0 s1 k1 r where st: "s = (s0, k0)" "s' = (s1, k1)" "answer es focus m (s0, k0) = Some (r, s1, k1)" "out = (m, r)"
    using assms(2) op by (cases s; cases s') (auto simp: client_step_def)
  from st(3) show "spent_request s key \<Longrightarrow> spent_request s' key"
  proof (cases rule: answer_cases)
    case kept
    then show "spent_request s key \<Longrightarrow> spent_request s' key"
      using inv st key by (fastforce simp: client_inv_def spent_request_def same_but_held_def seen_def hm_lookup le_max_iff_disj stale_def
          split: option.splits)
  next
    case retired
    then show "spent_request s key \<Longrightarrow> spent_request s' key"
      using st key by (auto simp: spent_request_def same_but_held_def seen_def retire_def hm_lookup le_max_iff_disj
          split: option.splits)
  qed (use st in \<open>simp add: spent_request_def\<close>)
  assume a: "answered out = Some key"
  with st key have gq: "g = msg_generation m" "q = msg_sequence m" "is_ok r"
    by (auto simp: answered_def split: if_splits)
  from st(3) show "\<not> spent_request s key \<and> spent_request s' key"
  proof (cases rule: answer_cases)
    case kept
    then show ?thesis
      using inv st key gq by (auto simp: client_inv_def spent_request_def same_but_held_def seen_def hm_lookup stale_def
          split: option.splits)
  next
    case retired
    then show ?thesis
      using inv st key gq by (auto simp: client_inv_def spent_request_def same_but_held_def seen_def retire_def hm_lookup stale_def
          split: option.splits)
  qed (use gq in simp)
qed

interpretation client_machine: fresh_issuer "client_step es" client_inv spent_request answered for es
  by unfold_locales (use client_inv_step client_spent_step in blast)+

section \<open>Daemon and broker in step\<close>

text \<open>The daemon is in step with a proxy: it has seen no request beyond those the proxy has sent, and it
  holds the same keys down; or it has not heard of a generation that is still new to it.\<close>

definition current_with :: "client_state \<Rightarrow> 'd device_proxy \<Rightarrow> bool" where
  "current_with s p \<longleftrightarrow> dp_generation p \<noteq> 0 \<and> dp_epoch p \<noteq> 0 \<and>
     (case (hm_get (cs_epochs s) (dp_generation p), hm_get (cs_sequences s) (dp_generation p)) of
        (Some epoch, Some newest) \<Rightarrow> epoch \<le> dp_epoch p \<and> newest \<le> dp_sequence p
      | (None, None) \<Rightarrow> cs_highest_generation s < dp_generation p \<and> length (cs_epochs s) < 128
      | _ \<Rightarrow> False)"

definition in_step :: "client_state \<Rightarrow> 'd device_proxy \<Rightarrow> bool" where
  "in_step s p \<longleftrightarrow> current_with s p \<and> hm_get (cs_epochs s) (dp_generation p) = Some (dp_epoch p) \<and>
     held_keys (dp_generation p) s = ks_physical (dp_state p)"

text \<open>The request a proxy sends next.\<close>

definition next_request :: "operation \<Rightarrow> raw_event \<Rightarrow> 'd device_proxy \<Rightarrow> 'd device_proxy \<Rightarrow> message \<Rightarrow> bool" where
  "next_request oper raw p p1 request \<longleftrightarrow> (\<exists>s. checked_add (dp_sequence p) 1 = Some s \<and> p1 = p\<lparr>dp_sequence := s\<rparr> \<and>
     request = request_of oper raw p1)"

lemma next_not_stale:
  assumes "current_with s p" and "next_request oper raw p p1 request"
  shows "\<not> stale request s" and "current_with (seen request s) p1" and "hm_get (cs_epochs (seen request s)) (dp_generation p1) = Some (dp_epoch p1)"
proof -
  obtain q where q: "checked_add (dp_sequence p) 1 = Some q" "p1 = p\<lparr>dp_sequence := q\<rparr>" "request = request_of oper raw p1"
    using assms(2) unfolding next_request_def by blast
  have less: "dp_sequence p < q" using checked_add_one_less [OF q(1)] .
  then have "q \<noteq> 0" by auto
  with assms(1) q less show "\<not> stale request s"
    by (auto simp: current_with_def stale_def request_of_def split: option.splits prod.splits)
  from assms(1) q less show "current_with (seen request s) p1"
    "hm_get (cs_epochs (seen request s)) (dp_generation p1) = Some (dp_epoch p1)"
    by (auto simp: current_with_def seen_def request_of_def hm_lookup split: option.splits prod.splits)
qed

lemma held_keys_update:
  "held_keys g (s\<lparr>cs_physical := hm_insert g keys (cs_physical s')\<rparr>) = keys"
  "held_keys g (s\<lparr>cs_physical := hm_remove g (cs_physical s')\<rparr>) = {}"
  by (simp_all add: held_keys_def hm_lookup)

lemma same_current:
  "same_but_held s s' \<Longrightarrow> current_with s p \<Longrightarrow> current_with s' p"
  "same_but_held s s' \<Longrightarrow> hm_get (cs_epochs s') = hm_get (cs_epochs s)"
  by (auto simp: same_but_held_def current_with_def split: option.splits)

text \<open>A request in step is validated; the held keys are kept unless the epoch is a new one.\<close>

lemma validate_next:
  assumes "current_with s p" and "next_request oper raw p p1 request"
    and "oper \<in> {EventOp, DeviceReset, SnapshotKey, DeviceRetire}"
  obtains s1 k1 where "client_validate es request s k = (Ok (), s1, k1)" "same_but_held (seen request s) s1"
    "hm_get (cs_epochs s) (dp_generation p) = Some (dp_epoch p) \<Longrightarrow> held_keys (dp_generation p) s1 = held_keys (dp_generation p) s"
proof -
  have request: "msg_operation request = oper" "msg_generation request = dp_generation p" "msg_epoch request = dp_epoch p"
    using assms(2) by (auto simp: next_request_def request_of_def)
  obtain r s1 k1 where v: "client_validate es request s k = (r, s1, k1)" by (cases "client_validate es request s k")
  then show thesis
  proof (cases rule: validate_cases)
    case (refused e)
    with next_not_stale(1) [OF assms(1,2)] request assms(3) show thesis by simp
  next
    case (accepted phys)
    then show thesis
      using v request by (intro that [of s1 k1]) (auto simp: same_but_held_def held_keys_def seen_def)
  qed
qed

definition held_after :: "raw_event \<Rightarrow> 16 word set \<Rightarrow> 16 word set" where
  "held_after raw keys = (if re_value raw = 0 then keys - {re_code raw} else if re_value raw = 1 then insert (re_code raw) keys else keys)"

lemma dispatch_held:
  assumes "dispatch es request focus s k = Some (d, s', k')" and "re_type (msg_event request) = 1"
  shows "d \<in> {PassOp, SwallowOp}"
    and "held_keys (msg_generation request) s' = held_after (msg_event request) (held_keys (msg_generation request) s)"
proof -
  let ?raw = "msg_event request" and ?g = "msg_generation request"
  show "d \<in> {PassOp, SwallowOp}"
    using assms(1) by (auto simp: dispatch_def Let_def split: if_splits option.splits)
  show "held_keys ?g s' = held_after ?raw (held_keys ?g s)"
  proof (cases "re_value ?raw = 0 \<or> re_value ?raw = 1")
    case True
    then have ne: "re_value ?raw \<noteq> 2" and range: "0 \<le> sint (re_value ?raw)" "sint (re_value ?raw) \<le> 2" by auto
    let ?keys = "if re_value ?raw = 0 then held_keys ?g s - {re_code ?raw} else insert (re_code ?raw) (held_keys ?g s)"
    have "s' = s\<lparr>cs_physical := hm_insert ?g ?keys (cs_physical s)\<rparr>"
      using assms ne range unfolding dispatch_def Let_def by (auto split: option.splits)
    with True show ?thesis by (auto simp: held_keys_update held_after_def)
  next
    case False
    then have "s' = s"
      using assms sint_range_iff [of "re_value ?raw"] unfolding dispatch_def Let_def by (simp split: if_splits)
    with False show ?thesis by (simp add: held_after_def)
  qed
qed

lemma apply_held:
  assumes "d \<in> {PassOp, SwallowOp}" and "\<not> ks_dropping st" and "re_type raw = 1" and "re_code raw \<le> MAX_KEY"
  shows "ks_physical (snd (state_apply raw d st)) = held_after raw (ks_physical st)"
  using assms by (simp add: state_apply_def state_press_def sint_range_iff Let_def held_after_def insert_absorb)

text \<open>A list of control requests a proxy sends one after the other, and the proxy after them.\<close>

fun announce :: "(operation \<times> raw_event) list \<Rightarrow> 'd device_proxy \<Rightarrow> ('d device_proxy \<times> message list) option" where
  "announce [] p = Some (p, [])"
| "announce ((oper, raw) # rest) p = (case checked_add (dp_sequence p) 1 of
      None \<Rightarrow> None
    | Some q \<Rightarrow> let p = p\<lparr>dp_sequence := q\<rparr> in
        map_option (\<lambda>(p', requests). (p', request_of oper raw p # requests)) (announce rest p))"

definition acknowledged :: "message \<times> (operation, backend_error) result \<Rightarrow> bool" where
  "acknowledged = (\<lambda>(request, r). r = Ok PassOp \<and> answers (request\<lparr>msg_operation := PassOp\<rparr>) request)"

lemma reset_follows:
  assumes "current_with s p" and "next_request DeviceReset raw p p1 request"
  obtains s' k' where "answer es focus request (s, k) = Some (Ok PassOp, s', k')" "current_with s' p1"
    "hm_get (cs_epochs s') (dp_generation p1) = Some (dp_epoch p1)" "held_keys (dp_generation p1) s' = {}"
proof -
  have request: "msg_operation request = DeviceReset" "msg_generation request = dp_generation p1"
    using assms(2) by (auto simp: next_request_def request_of_def)
  obtain s1 k1 where v: "client_validate es request s k = (Ok (), s1, k1)" "same_but_held (seen request s) s1"
    by (rule validate_next [OF assms, of es k]) auto
  let ?s = "s1\<lparr>cs_physical := hm_remove (msg_generation request) (cs_physical s1)\<rparr>"
  have "same_but_held (seen request s) ?s" using v(2) by (simp add: same_but_held_def)
  note same = same_current [OF this]
  show thesis
    by (rule that [of ?s "es_device_reset es (msg_generation request) k1"])
      (use v(1) request same(1) [OF next_not_stale(2) [OF assms]] same(2) next_not_stale(3) [OF assms]
        in \<open>simp_all add: answer_def answer_reset_def held_keys_update\<close>)
qed

lemma snapshot_follows:
  assumes "current_with s p" and "next_request SnapshotKey (raw_key c 1) p p1 request" and "c \<le> MAX_KEY"
    and "hm_get (cs_epochs s) (dp_generation p) = Some (dp_epoch p)"
  obtains s' k' where "answer es focus request (s, k) = Some (Ok PassOp, s', k')" "current_with s' p1"
    "hm_get (cs_epochs s') (dp_generation p1) = Some (dp_epoch p1)"
    "held_keys (dp_generation p1) s' = insert c (held_keys (dp_generation p) s)"
proof -
  have request: "msg_operation request = SnapshotKey" "msg_generation request = dp_generation p" "msg_event request = raw_key c 1"
    "dp_generation p1 = dp_generation p"
    using assms(2) by (auto simp: next_request_def request_of_def)
  obtain s1 k1 where v: "client_validate es request s k = (Ok (), s1, k1)" "same_but_held (seen request s) s1"
    "held_keys (dp_generation p) s1 = held_keys (dp_generation p) s"
    using validate_next [OF assms(1,2), of es k] assms(4) by auto
  let ?s = "s1\<lparr>cs_physical := hm_insert (dp_generation p) (insert c (held_keys (dp_generation p) s1)) (cs_physical s1)\<rparr>"
  have "same_but_held (seen request s) ?s" using v(2) by (simp add: same_but_held_def)
  note same = same_current [OF this]
  show thesis
    by (rule that [of ?s k1])
      (use v(1,3) request assms(3) same(1) [OF next_not_stale(2) [OF assms(1,2)]] same(2) next_not_stale(3) [OF assms(1,2)]
        in \<open>simp_all add: answer_def answer_snapshot_def held_keys_update raw_key_def Let_def linorder_not_less\<close>)
qed

lemma snapshots_follow:
  assumes "announce (map (\<lambda>c. (SnapshotKey, raw_key c 1)) cs) p = Some (p', requests)" and "current_with s p"
    and "hm_get (cs_epochs s) (dp_generation p) = Some (dp_epoch p)" and "list_all (\<lambda>c. c \<le> MAX_KEY) cs"
  shows "\<exists>outs s' k'. run_steps (client_step es) (map (Pair focus) requests) (s, k) = Some (outs, s', k') \<and>
    list_all acknowledged outs \<and> current_with s' p' \<and> hm_get (cs_epochs s') (dp_generation p') = Some (dp_epoch p') \<and>
    held_keys (dp_generation p') s' = set cs \<union> held_keys (dp_generation p) s \<and> p' = p\<lparr>dp_sequence := dp_sequence p'\<rparr>"
  using assms
proof (induction cs arbitrary: p s k requests)
  case (Cons c cs)
  from Cons.prems(1) obtain q requests1 where q: "checked_add (dp_sequence p) 1 = Some q"
    and rest: "announce (map (\<lambda>c. (SnapshotKey, raw_key c 1)) cs) (p\<lparr>dp_sequence := q\<rparr>) = Some (p', requests1)"
    and requests: "requests = request_of SnapshotKey (raw_key c 1) (p\<lparr>dp_sequence := q\<rparr>) # requests1"
    by (auto simp: Let_def split: option.splits)
  let ?p = "p\<lparr>dp_sequence := q\<rparr>" and ?m = "request_of SnapshotKey (raw_key c 1) (p\<lparr>dp_sequence := q\<rparr>)"
  have nx: "next_request SnapshotKey (raw_key c 1) p ?p ?m" using q by (auto simp: next_request_def)
  have c: "c \<le> MAX_KEY" and cs: "list_all (\<lambda>c. c \<le> MAX_KEY) cs" using Cons.prems(4) by simp_all
  obtain s1 k1 where a: "answer es focus ?m (s, k) = Some (Ok PassOp, s1, k1)" "current_with s1 ?p"
    "hm_get (cs_epochs s1) (dp_generation ?p) = Some (dp_epoch ?p)"
    "held_keys (dp_generation ?p) s1 = insert c (held_keys (dp_generation p) s)"
    by (rule snapshot_follows [OF Cons.prems(2) nx c Cons.prems(3)])
  obtain outs s2 k2 where r: "run_steps (client_step es) (map (Pair focus) requests1) (s1, k1) = Some (outs, s2, k2)"
    "list_all acknowledged outs" "current_with s2 p'" "hm_get (cs_epochs s2) (dp_generation p') = Some (dp_epoch p')"
    "held_keys (dp_generation p') s2 = set cs \<union> held_keys (dp_generation ?p) s1" "p' = ?p\<lparr>dp_sequence := dp_sequence p'\<rparr>"
    using Cons.IH [OF rest a(2,3) cs, of k1] by blast
  have "acknowledged (?m, Ok PassOp)"
    by (simp add: acknowledged_def answers_def)
  moreover have "p' = p\<lparr>dp_sequence := dp_sequence p'\<rparr>" using r(6) by simp
  ultimately show ?case
    using a r requests by (auto simp: client_step_def)
qed simp

section \<open>Properties\<close>

text \<open>C19: The daemon answers no request twice: over the whole life of a connection, epochs, resets and retired devices
  included, the pairs of device generation and sequence number of the requests it answers are all different.\<close>

theorem no_request_answered_twice:
  assumes "client_inv s" and "run_steps (client_step es) ops s = Some (outs, s')"
  shows "distinct (List.map_filter answered outs)"
  using client_machine.run_accepted [OF assms] by simp

text \<open>A client whose sink passes every event, with one device that has been announced.\<close>

definition ex_events :: "unit event_sink" where
  "ex_events = \<lparr>es_device_event = (\<lambda>_ _ _ k. Some (PassEvent, k)), es_device_reset = (\<lambda>_ k. k), es_stream_reset = (\<lambda>k. k)\<rparr>"

definition ex_client :: client_state where
  "ex_client = \<lparr>cs_physical = [], cs_epochs = [(1, 1)], cs_sequences = [(1, 4)], cs_highest_generation = 1\<rparr>"

definition ex_idle :: "nat device_proxy" where
  "ex_idle = ex_device_proxy\<lparr>dp_state := key_state_default, dp_pending := []\<rparr>"

definition ex_request :: "64 word \<Rightarrow> message" where
  "ex_request q = request_of EventOp (raw_key 30 1) (ex_idle\<lparr>dp_sequence := q\<rparr>)"

lemmas client_eval = answer_def client_validate_def stale_def dispatch_def held_keys_def hm_eval ex_events_def ex_client_def ex_request_def
  ex_idle_def ex_device_proxy_def request_of_def raw_key_def from_evdev_def KEYS_def Let_def

lemma ex_answer:
  "answer ex_events None (ex_request 5) (ex_client, ()) = Some (Ok PassOp, ex_client\<lparr>cs_physical := [(1, {30})], cs_sequences := [(1, 5)]\<rparr>, ())"
  by (simp add: client_eval)

lemma ex_in_step: "in_step ex_client ex_idle"
  by (simp add: in_step_def current_with_def ex_client_def ex_idle_def ex_device_proxy_def hm_eval held_keys_def key_state_default_def)

theorem no_request_answered_twice_witness:
  "\<exists>outs s'. run_steps (client_step ex_events) [(None, ex_request 5), (None, ex_request 5)] (ex_client, ()) = Some (outs, s') \<and>
     length outs = 2 \<and> distinct (List.map_filter answered outs)"
proof -
  have inv: "client_inv (ex_client, ())"
    by (simp add: client_inv_def ex_client_def hm_eval)
  have "run_steps (client_step ex_events) [(None, ex_request 5), (None, ex_request 5)] (ex_client, ()) =
    Some ([(ex_request 5, Ok PassOp), (ex_request 5, Err (OtherBackend ''invalid or stale broker generation/epoch/sequence''))],
      ex_client\<lparr>cs_physical := [(1, {30})], cs_sequences := [(1, 5)]\<rparr>, ())"
    by (simp add: client_step_def ex_answer) (simp add: client_eval)
  from no_request_answered_twice [OF inv this] this show ?thesis by auto
qed

text \<open>C9: Daemon and broker stay in step over events: for every key event the broker asks about, the daemon's reply
  is one the broker admits, and once the broker has applied the decision both hold the same keys down, so that the modifiers
  the daemon matches are those of the physical keyboard.\<close>

theorem daemon_follows_broker:
  assumes "in_step s p" and "\<not> ks_dropping (dp_state p)" and "re_type raw = 1" and "re_code raw \<le> MAX_KEY"
    and "next_request EventOp raw p p1 request" and "answer es focus request (s, k) = Some (r, s', k')"
  shows "\<exists>d. r = Ok d \<and> admitted_decision request (request\<lparr>msg_operation := d\<rparr>) = Ok d \<and>
    in_step s' (p1\<lparr>dp_state := snd (state_apply raw d (dp_state p))\<rparr>)"
proof -
  have cur: "current_with s p" and ep: "hm_get (cs_epochs s) (dp_generation p) = Some (dp_epoch p)"
    and held: "held_keys (dp_generation p) s = ks_physical (dp_state p)"
    using assms(1) by (simp_all add: in_step_def)
  have request: "msg_operation request = EventOp" "msg_generation request = dp_generation p" "msg_event request = raw"
    "dp_generation p1 = dp_generation p" "dp_epoch p1 = dp_epoch p" "dp_state p1 = dp_state p"
    using assms(5) by (auto simp: next_request_def request_of_def)
  obtain s1 k1 where v: "client_validate es request s k = (Ok (), s1, k1)" "same_but_held (seen request s) s1"
    "held_keys (dp_generation p) s1 = held_keys (dp_generation p) s"
    using validate_next [OF cur assms(5), of es k] ep by auto
  with assms(6) request obtain d where d: "dispatch es request focus s1 k1 = Some (d, s', k')" "r = Ok d"
    by (auto simp: answer_def split: option.splits)
  have f: "d \<in> {PassOp, SwallowOp}" "held_keys (dp_generation p) s' = ks_physical (snd (state_apply raw d (dp_state p)))"
    using dispatch_held [OF d(1)] apply_held [OF _ assms(2-4)] v(3) held request assms(3) by simp_all
  note nx = next_not_stale [OF cur assms(5)]
  have "same_but_held (seen request s) s'"
    using v(2) dispatch_same [OF d(1)] by (simp add: same_but_held_def)
  note same = same_current [OF this]
  have "current_with s' (p1\<lparr>dp_state := snd (state_apply raw d (dp_state p))\<rparr>)"
    using same(1) [OF nx(2)] by (auto simp: current_with_def split: option.splits)
  with f d(2) nx(3) same(2) request show ?thesis
    by (auto simp: in_step_def admitted_decision_def answers_def)
qed

theorem daemon_follows_broker_witness:
  "\<exists>d. Ok PassOp = (Ok d :: (operation, backend_error) result) \<and>
     admitted_decision (ex_request 5) ((ex_request 5)\<lparr>msg_operation := d\<rparr>) = Ok d \<and>
     in_step (ex_client\<lparr>cs_physical := [(1, {30})], cs_sequences := [(1, 5)]\<rparr>)
       (ex_idle\<lparr>dp_sequence := 5, dp_state := snd (state_apply (raw_key 30 1) d (dp_state ex_idle))\<rparr>)"
proof -
  have nx: "next_request EventOp (raw_key 30 1) ex_idle (ex_idle\<lparr>dp_sequence := 5\<rparr>) (ex_request 5)"
    by (simp add: next_request_def ex_request_def ex_idle_def ex_device_proxy_def checked_add_def)
  show ?thesis
    using daemon_follows_broker [OF ex_in_step _ _ _ nx ex_answer]
    by (simp add: ex_idle_def key_state_default_def raw_key_def MAX_KEY_def)
qed

text \<open>C20: Daemon and broker stay in step when a keyboard is announced or resynchronised: the reset and the
  snapshot of its held keys, sent one after the other, are all acknowledged, and after them the daemon holds down exactly the
  keys of the snapshot.\<close>

theorem daemon_follows_resync:
  assumes "announce ((DeviceReset, raw_event_default) # map (\<lambda>c. (SnapshotKey, raw_key c 1)) (sorted_list_of_set keys)) p = Some (p', requests)"
    and "current_with s p" and "keys \<subseteq> {c. c \<le> MAX_KEY}" and "ks_physical (dp_state p) = keys"
  shows "\<exists>outs s' k'. run_steps (client_step es) (map (Pair focus) requests) (s, k) = Some (outs, s', k') \<and>
    list_all acknowledged outs \<and> in_step s' p'"
proof -
  from assms(1) obtain q requests1 where q: "checked_add (dp_sequence p) 1 = Some q"
    and rest: "announce (map (\<lambda>c. (SnapshotKey, raw_key c 1)) (sorted_list_of_set keys)) (p\<lparr>dp_sequence := q\<rparr>) = Some (p', requests1)"
    and requests: "requests = request_of DeviceReset raw_event_default (p\<lparr>dp_sequence := q\<rparr>) # requests1"
    by (auto simp: Let_def split: option.splits)
  let ?p = "p\<lparr>dp_sequence := q\<rparr>" and ?m = "request_of DeviceReset raw_event_default (p\<lparr>dp_sequence := q\<rparr>)"
  have nx: "next_request DeviceReset raw_event_default p ?p ?m" using q by (auto simp: next_request_def)
  obtain s1 k1 where a: "answer es focus ?m (s, k) = Some (Ok PassOp, s1, k1)" "current_with s1 ?p"
    "hm_get (cs_epochs s1) (dp_generation ?p) = Some (dp_epoch ?p)" "held_keys (dp_generation ?p) s1 = {}"
    by (rule reset_follows [OF assms(2) nx])
  have "list_all (\<lambda>c. c \<le> MAX_KEY) (sorted_list_of_set keys)"
    using assms(3) by (auto simp: list_all_iff)
  from snapshots_follow [OF rest a(2,3) this, of es focus k1] obtain outs s2 k2 where r:
    "run_steps (client_step es) (map (Pair focus) requests1) (s1, k1) = Some (outs, s2, k2)" "list_all acknowledged outs"
    "current_with s2 p'" "hm_get (cs_epochs s2) (dp_generation p') = Some (dp_epoch p')"
    "held_keys (dp_generation p') s2 = keys" "p' = ?p\<lparr>dp_sequence := dp_sequence p'\<rparr>"
    using a(4) by auto
  have "acknowledged (?m, Ok PassOp)" by (simp add: acknowledged_def answers_def)
  moreover have "dp_state p' = dp_state p" using r(6) by (metis device_proxy.select_convs(3) device_proxy.surjective device_proxy.update_convs(6))
  ultimately show ?thesis
    using a r requests assms(4) by (auto simp: client_step_def in_step_def)
qed

theorem daemon_follows_resync_witness:
  "\<exists>outs s' k'. run_steps (client_step ex_events) (map (Pair None) [request_of DeviceReset raw_event_default (ex_idle\<lparr>dp_sequence := 5\<rparr>)])
     (ex_client, ()) = Some (outs, s', k') \<and> list_all acknowledged outs \<and> in_step s' (ex_idle\<lparr>dp_sequence := 5\<rparr>)"
proof (rule daemon_follows_resync)
  show "announce ((DeviceReset, raw_event_default) # map (\<lambda>c. (SnapshotKey, raw_key c 1)) (sorted_list_of_set {})) ex_idle =
      Some (ex_idle\<lparr>dp_sequence := 5\<rparr>, [request_of DeviceReset raw_event_default (ex_idle\<lparr>dp_sequence := 5\<rparr>)])"
    by (simp add: ex_idle_def ex_device_proxy_def checked_add_def Let_def)
  show "current_with ex_client ex_idle" using ex_in_step by (simp add: in_step_def)
qed (simp_all add: ex_idle_def key_state_default_def)

end
