(* ===== verification/Installed.thy ===== *)
theory Installed
  imports Daemon
begin

text \<open>
  The listeners that drive a compositor session: \<^verbatim>\<open>daemon/hyprland_installed.rs\<close>, the listener half of
  \<^verbatim>\<open>daemon/hyprland_research.rs\<close> and the preparation in \<^verbatim>\<open>daemon/linux.rs\<close>. The stop flag is a function of
  the world, which every system call advances; the loops are \<open>partial_function\<close>s, so not returning is
  \<open>None\<close>, as is the panic of an overflowing deadline.
\<close>

datatype run_error = RunIo io_error | BindRejected | MissingArgument string

definition deadline_after :: "('c, 'w) os \<Rightarrow> 64 word \<Rightarrow> ('w, 64 word) io" where
  "deadline_after os wait = io_bind (transport_monotonic_ns os) (\<lambda>now w.
     map_option (\<lambda>deadline. (Ok deadline, w)) (checked_add now wait))"

section \<open>Preparation\<close>

definition prepare ::
  "('c, 'w) os \<Rightarrow> embedded \<Rightarrow> (byte list \<Rightarrow> installed_descriptor option) \<Rightarrow> path option \<Rightarrow> 32 word option \<Rightarrow> 'w \<Rightarrow>
   ((admitted_metadata option, run_error) result \<times> 'w) option" where
  "prepare os em from_slice registration pid w = (case registration of
      None \<Rightarrow> Some (Ok None, w)
    | Some path \<Rightarrow> (case pid of
          None \<Rightarrow> Some (Err (MissingArgument ''installed Hyprland PID required''), w)
        | Some pid \<Rightarrow>
            map_option (map_prod (map_result Some RunIo) id)
              (io_bind (verify os (em_sha256 em) from_slice path pid) (qualify os em) w)))"

definition install_admitted ::
  "(string \<Rightarrow> (config_doc, string) result) \<Rightarrow> file_text \<Rightarrow> 64 word \<Rightarrow> matching_state \<Rightarrow>
   (unit, reload_error) result \<times> matching_state" where
  "install_admitted toml content features s = (case load_from_file (\<lambda>_. content) toml Linux [] of
      Err e \<Rightarrow> (Err (LoadFailed e), s)
    | Ok cfg \<Rightarrow>
        if \<not> validate_rules cfg features then (Err RulesNotAdmitted, s)
        else let s = matching_replace cfg s in
          (Ok (), s\<lparr>ms_down_only := True, ms_features := features,
             ms_hyprland := set_modifier_tap_release (features = TAP_FEATURES) (ms_hyprland s)\<rparr>))"

section \<open>The installed session\<close>

definition installed_bind ::
  "'e daemon_env \<Rightarrow> 'c session \<Rightarrow> 'e handler \<Rightarrow> (unit, run_error) result \<times> 'c session \<times> 'e handler" where
  "installed_bind env s h =
     (let h = acquire env h;
          (bound, s, tm) = bind_matcher s (ms_tx (hd_matching h));
          h = h\<lparr>hd_matching := with_tx (hd_matching h) tm\<rparr>
      in if \<not> bound then (Err BindRejected, s, h)
         else (Ok (), s, h\<lparr>hd_matching := (hd_matching h)\<lparr>ms_health := Some (health s)\<rparr>\<rparr>))"

partial_function (option) reconnect_session ::
  "('c, 'w) os \<Rightarrow> embedded \<Rightarrow> 'e daemon_env \<Rightarrow> ('w \<Rightarrow> bool) \<Rightarrow> 'c listener \<Rightarrow> 'c session \<Rightarrow> 'e handler \<Rightarrow> 'w \<Rightarrow>
   ((unit, run_error) result \<times> 'c session \<times> 'e handler \<times> 'w) option" where
  [code]: "reconnect_session os em env stop l s h w =
     (if stop w then Some (Ok (), s, h, w)
      else (case reconnect_for os em l 100000000 (s, w) of
          None \<Rightarrow> None
        | Some (Ok _, s, w) \<Rightarrow> (case installed_bind env s h of (r, s, h) \<Rightarrow> Some (r, s, h, w))
        | Some (Err error, s, w) \<Rightarrow>
            if kind_of error = TimedOutKind then reconnect_session os em env stop l s h w
            else Some (Err (RunIo error), s, h, w)))"

text \<open>One pass of the session loop up to the question whether to reconnect.\<close>

definition settle_pass ::
  "'e daemon_env \<Rightarrow> (bool, io_error) result \<Rightarrow> 'c session \<Rightarrow> 'e handler \<Rightarrow> bool \<times> 'c session \<times> 'e handler" where
  "settle_pass env r s h =
     (let h = acquire env h;
          h = h\<lparr>hd_matching := (hd_matching h)\<lparr>ms_health := Some (health s)\<rparr>\<rparr>
      in if \<not> is_ok r \<or> needs_reconciliation (ms_hyprland (hd_matching h))
         then (True, session_request_reconciliation (daemon_handler env) s h)
         else (False, s, h))"

definition session_pass ::
  "('c, 'w) os \<Rightarrow> 'e daemon_env \<Rightarrow> 'c session \<Rightarrow> 'e handler \<Rightarrow> 'w \<Rightarrow>
   ((bool, run_error) result \<times> 'c session \<times> 'e handler \<times> 'w) option" where
  "session_pass os env s h w = (case deadline_after os 100000000 w of
      None \<Rightarrow> None
    | Some (Err error, w) \<Rightarrow> Some (Err (RunIo error), s, h, w)
    | Some (Ok deadline, w) \<Rightarrow>
        map_option (\<lambda>(r, s, h, w). case settle_pass env r s h of (again, s, h) \<Rightarrow> (Ok again, s, h, w))
          (step_if_ready (transport_net os) (daemon_handler env) deadline s h w))"

partial_function (option) run_session ::
  "('c, 'w) os \<Rightarrow> embedded \<Rightarrow> 'e daemon_env \<Rightarrow> ('w \<Rightarrow> bool) \<Rightarrow> 'c listener \<Rightarrow> 'c session \<Rightarrow> 'e handler \<Rightarrow> 'w \<Rightarrow>
   ((unit, run_error) result \<times> 'c session \<times> 'e handler \<times> 'w) option" where
  [code]: "run_session os em env stop l s h w =
     (if stop w then Some (Ok (), s, h, w)
      else (case session_pass os env s h w of
          None \<Rightarrow> None
        | Some (Err error, s, h, w) \<Rightarrow> Some (Err error, s, h, w)
        | Some (Ok again, s, h, w) \<Rightarrow>
            if again then (case reconnect_session os em env stop l s h w of
                None \<Rightarrow> None
              | Some (Err error, s, h, w) \<Rightarrow> Some (Err error, s, h, w)
              | Some (Ok _, s, h, w) \<Rightarrow> run_session os em env stop l s h w)
            else run_session os em env stop l s h w))"

definition installed_run ::
  "('c, 'w) os \<Rightarrow> embedded \<Rightarrow> 'e daemon_env \<Rightarrow> ('w \<Rightarrow> bool) \<Rightarrow> 'c listener \<Rightarrow> admitted_metadata \<Rightarrow> 'e handler \<Rightarrow> 'w \<Rightarrow>
   ((unit, run_error) result \<times> 'e handler \<times> 'w) option" where
  "installed_run os em env stop l admitted h w =
     (case if ad_qualification admitted = Supported then admitted_require_qualified admitted else Ok () of
        Err error \<Rightarrow> Some (Err (RunIo error), h, w)
      | Ok _ \<Rightarrow> (case io_bind (deadline_after os 60000000000) (accept_admitted os em l admitted) w of
            None \<Rightarrow> None
          | Some (Err error, w) \<Rightarrow> Some (Err (RunIo error), h, w)
          | Some (Ok s, w) \<Rightarrow> (case installed_bind env s h of
                (Err error, s, h) \<Rightarrow> Some (Err error, h, w)
              | (Ok _, s, h) \<Rightarrow> map_option (\<lambda>(r, s, h, w). (r, handler_disconnected env h, w))
                  (run_session os em env stop l s h w))))"

section \<open>The research session\<close>

record research_args =
  ra_socket :: "path option"
  ra_pid :: "32 word option"
  ra_api_hash :: "string option"
  ra_artifact :: "string option"

record 'c research_listener =
  rl_listener :: "'c listener"
  rl_peer :: peer
  rl_identity :: native_identity

definition research_bind ::
  "('c, 'w) os \<Rightarrow> research_args \<Rightarrow> 'w \<Rightarrow> (('c research_listener option, run_error) result \<times> 'w) option" where
  "research_bind os args w = (case (ra_socket args, ra_pid args, ra_api_hash args, ra_artifact args) of
      (None, _) \<Rightarrow> Some (Ok None, w)
    | (_, None, _) \<Rightarrow> Some (Err (MissingArgument ''research compositor PID required''), w)
    | (_, _, None, _) \<Rightarrow> Some (Err (MissingArgument ''research API hash required''), w)
    | (_, _, _, None) \<Rightarrow> Some (Err (MissingArgument ''research artifact required''), w)
    | (Some path, Some pid, Some api_hash, Some artifact) \<Rightarrow>
        if \<not> (0 <s pid \<and> list_all (\<lambda>v. v \<noteq> [] \<and> length v \<le> 192 \<and> CHR 0x00 \<notin> set v) [api_hash, artifact])
        then Some (Err (MissingArgument ''invalid research identity''), w)
        else map_option (map_prod (map_result (\<lambda>l. Some \<lparr>rl_listener = l,
            rl_peer = \<lparr>pr_uid = os_geteuid os, pr_pid = pid\<rparr>,
            rl_identity = \<lparr>ni_capabilities = 0, ni_api_hash = api_hash, ni_artifact = artifact\<rparr>\<rparr>) RunIo) id)
          (listener_bind os path w))"

partial_function (option) research_accept ::
  "('c, 'w) os \<Rightarrow> ('w \<Rightarrow> bool) \<Rightarrow> 'c research_listener \<Rightarrow> 64 word \<Rightarrow> 'w \<Rightarrow> (('c option, io_error) result \<times> 'w) option" where
  [code]: "research_accept os stop l admission_deadline w =
     (if stop w then Some (Ok None, w)
      else io_bind (deadline_after os 100000000) (\<lambda>soon w.
        (case listener_accept os (rl_listener l) (rl_peer l) (min_deadline admission_deadline soon) w of
           None \<Rightarrow> None
         | Some (Ok transport, w) \<Rightarrow> Some (Ok (Some transport), w)
         | Some (Err error, w) \<Rightarrow>
             if kind_of error = TimedOutKind
             then io_bind (transport_monotonic_ns os) (\<lambda>now w.
               if now < admission_deadline then research_accept os stop l admission_deadline w
               else Some (Err error, w)) w
             else Some (Err error, w))) w)"

definition research_await :: "'e daemon_env \<Rightarrow> 64 word \<Rightarrow> 'e handler \<Rightarrow> 'e handler" where
  "research_await env nonce h = update_tx (\<lambda>tm. snd (await_reconciliation nonce tm)) (acquire env h)"

partial_function (option) research_reconnect ::
  "('c, 'w) os \<Rightarrow> 'e daemon_env \<Rightarrow> ('w \<Rightarrow> bool) \<Rightarrow> 'c research_listener \<Rightarrow> 'c bridge \<Rightarrow> 'e handler \<Rightarrow> 'w \<Rightarrow>
   ((bool, io_error) result \<times> 'c bridge \<times> 'e handler \<times> 'w) option" where
  [code]: "research_reconnect os env stop l b h w =
     (if stop w then Some (Ok False, b, h, w)
      else (case deadline_after os 100000000 w of
          None \<Rightarrow> None
        | Some (Err error, w) \<Rightarrow> Some (Err error, b, h, w)
        | Some (Ok deadline, w) \<Rightarrow> (case listener_accept os (rl_listener l) (rl_peer l) deadline w of
              None \<Rightarrow> None
            | Some (Ok transport, w) \<Rightarrow> (case deadline_after os 10000000 w of
                  None \<Rightarrow> None
                | Some (Err error, w) \<Rightarrow> Some (Err error, b, h, w)
                | Some (Ok deadline, w) \<Rightarrow>
                    (case reconnect (transport_net os) transport (rl_identity l) deadline b w of
                       (Err error, b, w) \<Rightarrow> Some (Err error, b, h, w)
                     | (Ok _, b, w) \<Rightarrow> Some (Ok True, b, research_await env (br_nonce b) h, w)))
            | Some (Err error, w) \<Rightarrow>
                if kind_of error = TimedOutKind then research_reconnect os env stop l b h w
                else Some (Err error, b, h, w))))"

text \<open>Stopping during a reconnection returns at once, without telling the handler.\<close>

partial_function (option) research_loop ::
  "('c, 'w) os \<Rightarrow> 'e daemon_env \<Rightarrow> ('w \<Rightarrow> bool) \<Rightarrow> 'c research_listener \<Rightarrow> 'c bridge \<Rightarrow> 'e handler \<Rightarrow> 'w \<Rightarrow>
   ((unit, io_error) result \<times> 'e handler \<times> 'w) option" where
  [code]: "research_loop os env stop l b h w =
     (if stop w then Some (Ok (), handler_disconnected env h, w)
      else (case deadline_after os 100000000 w of
          None \<Rightarrow> None
        | Some (Err error, w) \<Rightarrow> Some (Err error, h, w)
        | Some (Ok deadline, w) \<Rightarrow>
            (case research_step_if_ready (transport_net os) (daemon_handler env) deadline b h w of
               None \<Rightarrow> None
             | Some (Ok _, b, h, w) \<Rightarrow> research_loop os env stop l b h w
             | Some (Err _, b, h, w) \<Rightarrow> (case research_reconnect os env stop l b h w of
                   None \<Rightarrow> None
                 | Some (Err error, b, h, w) \<Rightarrow> Some (Err error, h, w)
                 | Some (Ok reconnected, b, h, w) \<Rightarrow>
                     if reconnected then research_loop os env stop l b h w else Some (Ok (), h, w)))))"

definition research_run ::
  "('c, 'w) os \<Rightarrow> 'e daemon_env \<Rightarrow> ('w \<Rightarrow> bool) \<Rightarrow> 'c research_listener \<Rightarrow> 'e handler \<Rightarrow> 'w \<Rightarrow>
   ((unit, io_error) result \<times> 'e handler \<times> 'w) option" where
  "research_run os env stop l h w =
     (case io_bind (deadline_after os 60000000000) (research_accept os stop l) w of
        None \<Rightarrow> None
      | Some (Err error, w) \<Rightarrow> Some (Err error, h, w)
      | Some (Ok None, w) \<Rightarrow> Some (Ok (), h, w)
      | Some (Ok (Some transport), w) \<Rightarrow> (case deadline_after os 10000000 w of
            None \<Rightarrow> None
          | Some (Err error, w) \<Rightarrow> Some (Err error, h, w)
          | Some (Ok deadline, w) \<Rightarrow> (case passive_handshake (transport_net os) transport (rl_identity l) deadline w of
                (Err error, w) \<Rightarrow> Some (Err error, h, w)
              | (Ok b, w) \<Rightarrow> research_loop os env stop l b (research_await env (br_nonce b) h) w)))"

section \<open>The session's loop heads\<close>

text \<open>What the session loop can look like whenever it tests the stop flag.\<close>

inductive session_running ::
  "('c, 'w) os \<Rightarrow> embedded \<Rightarrow> 'e daemon_env \<Rightarrow> ('w \<Rightarrow> bool) \<Rightarrow> 'c listener \<Rightarrow> 'c session \<Rightarrow> 'e handler \<Rightarrow> 'w \<Rightarrow> bool"
  for os em env stop l where
  start: "load_from_file rd toml Linux path = Ok cfg \<Longrightarrow>
    install_admitted toml content (ad_feature_mask a) (matching_new cfg) = (Ok (), hd_matching h) \<Longrightarrow>
    accept_admitted os em l a d w = Some (Ok s, w') \<Longrightarrow> installed_bind env s h = (Ok (), s', h') \<Longrightarrow>
    session_running os em env stop l s' h' w'"
| pass: "session_running os em env stop l s h w \<Longrightarrow> \<not> stop w \<Longrightarrow> session_pass os env s h w = Some (Ok False, s', h', w') \<Longrightarrow>
    session_running os em env stop l s' h' w'"
| again: "session_running os em env stop l s h w \<Longrightarrow> \<not> stop w \<Longrightarrow> session_pass os env s h w = Some (Ok True, s1, h1, w1) \<Longrightarrow>
    reconnect_session os em env stop l s1 h1 w1 = Some (Ok (), s', h', w') \<Longrightarrow> session_running os em env stop l s' h' w'"

definition session_inv :: "'c session \<Rightarrow> 'e handler \<Rightarrow> bool" where
  "session_inv s h \<longleftrightarrow> hd_inv (if ss_matcher_bound s then Some (connection_nonce s) else None) h \<and> hd_idle h"

lemma ready_mode_nonce:
  assumes "ready_mode net H d research b h w = Some (r, b', h', w')"
  shows "br_nonce b' = br_nonce b"
proof -
  obtain r1 b1 h1 w1 where s: "ready_inner net H d research b h w = Some (r1, b1, h1, w1)"
    "close_on_error H (r1, b1, h1, w1) = (r, b', h', w')"
    using assms by (auto simp: ready_mode_def)
  have "br_nonce b1 = br_nonce b"
    using s(1)
    by (auto simp: ready_inner_def same_history_def split: option.splits prod.splits result.splits dest!: process_frame(1))
  with close_on_error_frame(1) [OF s(2)] show ?thesis by (simp add: same_history_def)
qed

lemma step_if_ready_session:
  assumes "step_if_ready net H d s h w = Some (r, s', h', w')"
  shows "connection_nonce s' = connection_nonce s \<and> ss_matcher_bound s' = ss_matcher_bound s"
  using assms ready_mode_nonce unfolding step_if_ready_def admitted_step_if_ready_def passive_step_if_ready_def connection_nonce_def
  by (auto split: if_splits)

lemma disconnected_any:
  assumes "hd_inv k h \<and> hd_idle h"
  shows "hd_inv k' (handler_disconnected env h) \<and> hd_idle (handler_disconnected env h)"
  using quiet_disconnected [OF acquire_quiet [OF assms, of env], of k']
  by (simp add: handler_disconnected_def Let_def hd_quiet del: disconnected_simps)

lemma health_irrelevant:
  "hd_inv k (h\<lparr>hd_matching := (hd_matching h)\<lparr>ms_health := x\<rparr>\<rparr>) \<longleftrightarrow> hd_inv k h"
  "hd_idle (h\<lparr>hd_matching := (hd_matching h)\<lparr>ms_health := x\<rparr>\<rparr>) \<longleftrightarrow> hd_idle h"
  by (simp_all add: hd_inv_def hd_idle_def)

lemma installed_bind_inv:
  assumes "hd_inv k h \<and> hd_idle h" and "installed_bind env s h = (Ok (), s', h')"
  shows "session_inv s' h' \<and> ss_matcher_bound s'"
proof -
  let ?h = "acquire env h"
  obtain bound tm where b: "await_reconciliation (connection_nonce s) (ms_tx (hd_matching ?h)) = (bound, tm)" by (rule prod.exhaust)
  then have bm: "bind_matcher s (ms_tx (hd_matching ?h)) = (bound, s\<lparr>ss_matcher_bound := bound\<rparr>, tm)"
    by (simp add: bind_matcher_def)
  have t: bound and s': "s' = s\<lparr>ss_matcher_bound := True\<rparr>"
    and h': "ms_tx (hd_matching h') = tm"
    using assms(2) by (auto simp: installed_bind_def bm Let_def split: if_splits)
  have "quiet (Some (connection_nonce s)) tm"
    using quiet_await [OF acquire_quiet [OF assms(1), of env]] b t by simp
  with h' show ?thesis
    by (simp add: session_inv_def s' hd_quiet connection_nonce_def)
qed

lemma settle_pass_inv:
  assumes "session_inv s h" and "settle_pass env r s h = (again, s', h')"
  shows "session_inv s' h' \<and> (again \<longrightarrow> \<not> ss_matcher_bound s')"
proof -
  let ?k = "if ss_matcher_bound s then Some (connection_nonce s) else None"
  define h1 where "h1 = (acquire env h)\<lparr>hd_matching := (hd_matching (acquire env h))\<lparr>ms_health := Some (health s)\<rparr>\<rparr>"
  have "hd_inv ?k (acquire env h) \<and> hd_idle (acquire env h)"
    using acquire_quiet [of ?k h env] assms(1) by (simp only: session_inv_def hd_quiet)
  then have h1: "hd_inv ?k h1 \<and> hd_idle h1"
    unfolding h1_def by (simp only: health_irrelevant)
  show ?thesis
  proof (cases again)
    case True
    with assms(2) have "\<not> ss_matcher_bound s'" "h' = handler_disconnected env h1"
      by (auto simp: settle_pass_def Let_def h1_def session_request_reconciliation_def request_reconciliation_def
          daemon_handler_def split: if_splits)
    with disconnected_any [OF h1, of None env] show ?thesis by (simp add: session_inv_def)
  next
    case False
    with assms(2) have "s' = s" "h' = h1"
      by (auto simp: settle_pass_def Let_def h1_def split: if_splits)
    with h1 False show ?thesis by (simp add: session_inv_def)
  qed
qed

lemma session_pass_inv:
  assumes "session_inv s h" and "session_pass os env s h w = Some (Ok again, s', h', w')"
  shows "session_inv s' h' \<and> (again \<longrightarrow> \<not> ss_matcher_bound s')"
proof -
  obtain d w1 where d: "deadline_after os 100000000 w = Some (Ok d, w1)"
    using assms(2) by (auto simp: session_pass_def split: option.splits result.splits)
  obtain r s1 h1 w2 where st: "step_if_ready (transport_net os) (daemon_handler env) d s h w1 = Some (r, s1, h1, w2)"
    using assms(2) by (auto simp: session_pass_def d)
  have p: "settle_pass env r s1 h1 = (again, s', h')"
    using assms(2) by (auto simp: session_pass_def d st split: prod.splits)
  have "session_inv s1 h1"
    using daemon_proposals.step_if_ready_closes [OF _ _ st] assms(1) step_if_ready_session [OF st]
    unfolding session_inv_def by (auto split: if_splits)
  from settle_pass_inv [OF this p] show ?thesis .
qed

lemma reconnect_for_unbound:
  assumes "reconnect_for os em l wait (s, w) = Some (r, s', w')" and "\<not> ss_matcher_bound s"
  shows "\<not> ss_matcher_bound s'"
  using assms
  by (auto simp: reconnect_for_def reconnect_verified_def io_bind_def io_beside_def
      split: option.splits result.splits prod.splits)

lemma reconnect_session_inv:
  assumes "reconnect_session os em env stop l s h w = Some y" and "session_inv s h" and "\<not> ss_matcher_bound s"
    and "fst y = Ok ()"
  shows "session_inv (fst (snd y)) (fst (snd (snd y)))"
proof -
  have "session_inv s h \<longrightarrow> \<not> ss_matcher_bound s \<longrightarrow> fst y = Ok () \<longrightarrow> session_inv (fst (snd y)) (fst (snd (snd y)))"
  proof (rule reconnect_session.raw_induct [where P = "\<lambda>os em env stop l s h w y. session_inv s h \<longrightarrow>
        \<not> ss_matcher_bound s \<longrightarrow> fst y = Ok () \<longrightarrow> session_inv (fst (snd y)) (fst (snd (snd y)))", OF _ assms(1)], intro impI)
    fix rec os em env stop l s h w y
    assume IH: "\<And>os em env stop l s h w y. rec os em env stop l s h w = Some y \<Longrightarrow> session_inv s h \<longrightarrow>
        \<not> ss_matcher_bound s \<longrightarrow> fst y = Ok () \<longrightarrow> session_inv (fst (snd y)) (fst (snd (snd y)))"
      and r: "(if stop w then Some (Ok (), s, h, w)
        else (case reconnect_for os em l 100000000 (s, w) of
            None \<Rightarrow> None
          | Some (Ok _, s, w) \<Rightarrow> (case installed_bind env s h of (r, s, h) \<Rightarrow> Some (r, s, h, w))
          | Some (Err error, s, w) \<Rightarrow>
              if kind_of error = TimedOutKind then rec os em env stop l s h w
              else Some (Err (RunIo error), s, h, w))) = Some y"
      and inv: "session_inv s h" "\<not> ss_matcher_bound s" and ok: "fst y = Ok ()"
    show "session_inv (fst (snd y)) (fst (snd (snd y)))"
    proof (cases "stop w")
      case True
      with r inv show ?thesis by auto
    next
      case False
      with r obtain r1 s1 w1 where r1: "reconnect_for os em l 100000000 (s, w) = Some (r1, s1, w1)"
        by (auto split: option.splits)
      have s1: "\<not> ss_matcher_bound s1" "hd_inv None h \<and> hd_idle h" "session_inv s1 h"
        using reconnect_for_unbound [OF r1 inv(2)] inv by (simp_all add: session_inv_def)
      show ?thesis
      proof (cases r1)
        case (Ok u)
        with r False r1 ok installed_bind_inv [OF s1(2), of env s1] show ?thesis
          by (auto split: prod.splits)
      next
        case (Err error)
        with r False r1 ok IH [of os em env stop l s1 h w1 y] s1 show ?thesis
          by (auto split: if_splits)
      qed
    qed
  qed
  with assms(2-4) show ?thesis by simp
qed

section \<open>Reconnection ends\<close>

text \<open>An action is diligent if it takes time unless it fails with an error other than an expired deadline, and
  patient if it can also succeed at once.\<close>

definition timely :: "('w \<Rightarrow> nat) \<Rightarrow> bool \<Rightarrow> ('w, 'a) io \<Rightarrow> 'w \<Rightarrow> bool" where
  "timely time at_once m w \<longleftrightarrow> returns time m w \<and>
     (\<forall>r w'. m w = Some (r, w') \<longrightarrow> time w < time w' \<or>
        (case r of Ok _ \<Rightarrow> at_once | Err e \<Rightarrow> kind_of e \<noteq> TimedOutKind))"

abbreviation "diligent time \<equiv> timely time False"

abbreviation "patient time \<equiv> timely time True"

lemma diligent_bind:
  assumes "diligent time m w" and "\<And>a w'. returns time (f a) w'"
  shows "diligent time (io_bind m f) w"
proof -
  obtain r w1 where m: "m w = Some (r, w1)" "time w \<le> time w1"
    using assms(1) by (auto simp: timely_def returns_def)
  show ?thesis
  proof (cases r)
    case (Ok a)
    obtain r2 w2 where "f a w1 = Some (r2, w2)" "time w1 \<le> time w2"
      using assms(2) [of a w1] by (rule returnsE)
    moreover have "time w < time w1"
      using assms(1) m Ok by (auto simp: timely_def)
    ultimately show ?thesis
      by (simp add: timely_def returns_def io_bind_def m Ok)
  next
    case (Err e)
    with assms(1) m show ?thesis by (auto simp: timely_def returns_def io_bind_def)
  qed
qed

lemma patient_then:
  assumes "patient time m w" and "\<And>w'. timely time b f w'"
  shows "timely time b (io_seq m f) w"
proof -
  obtain r w1 where m: "m w = Some (r, w1)" "time w \<le> time w1"
    using assms(1) by (auto simp: timely_def returns_def)
  have "returns time (io_seq m f) w"
    by (rule returns_seq) (use assms in \<open>auto simp: timely_def\<close>)
  then show ?thesis
    using m assms(1) assms(2) [of w1]
    by (cases r) (fastforce simp: timely_def io_seq_def io_bind_def)+
qed

lemma diligent_sys: "takes_time time call \<Longrightarrow> timely time b (io_sys call) w"
  using returns_sys [of time call w]
  by (auto simp: timely_def io_sys_def takes_time_def split: prod.splits result.splits)

lemma patient_of: "(\<And>e. r = Err e \<Longrightarrow> kind_of e \<noteq> TimedOutKind) \<Longrightarrow> patient time (io_of r) w"
  by (auto simp: timely_def io_of_def returns_def split: result.splits)

lemma patient_ensure: "patient time (io_ensure c (denied e)) w"
  unfolding io_ensure_def by (rule patient_of) (auto simp: ensure_def denied_def split: if_splits)

lemma diligent_patient: "diligent time m w \<Longrightarrow> patient time m w"
  by (auto simp: timely_def split: result.splits)

lemma ticking_takes:
  "ticking os time \<Longrightarrow> takes_time time (os_metadata os p)" "ticking os time \<Longrightarrow> takes_time time (os_open_nofollow os p)"
  by (simp_all add: ticking_def)

lemmas timely_intros = diligent_bind diligent_sys patient_ensure patient_then ticking_takes

lemma process_start_diligent: "ticking os time \<Longrightarrow> diligent time (process_start os peer) w"
  unfolding process_start_def by (intro timely_intros returns_intros)

lemma revalidate_diligent: "ticking os time \<Longrightarrow> diligent time (revalidate os sha256 m) w"
  unfolding revalidate_def by (intro diligent_bind process_start_diligent returns_intros)

lemma verify_scope_diligent: "ticking os time \<Longrightarrow> diligent time (verify_scope os em e) w"
  unfolding verify_scope_def guarded_bytes_def by (intro timely_intros returns_intros)

lemma check_entry_denied: "check_entry revision entry = Err e \<Longrightarrow> \<exists>s. e = denied s"
  by (cases entry) (auto simp: ensure_def split: if_splits)

lemma select_denied: "select em bytes pin d b = Err e \<Longrightarrow> \<exists>s. e = denied s"
  by (auto simp: select_def ensure_def and_then_err_iff split: if_splits option.splits list.splits dest: check_entry_denied)

lemma recheck_patient:
  assumes "ticking os time"
  shows "patient time (recheck os em m) w"
proof (cases "select_embedded em m")
  case (Ok entry)
  have "patient time (verify_admission os em entry) w"
  proof (cases entry)
    case (SupportedEntry e)
    have "kind_of error \<noteq> TimedOutKind" if "verify_acceptance em e bytes pin = Err error" for bytes pin error
      using that by (auto simp: verify_acceptance_def ensure_def and_then_err_iff denied_def split: if_splits option.splits)
    then show ?thesis by (auto simp: SupportedEntry intro: patient_of)
  qed (simp add: diligent_patient verify_scope_diligent assms)
  then show ?thesis
    by (simp add: recheck_def Ok timely_def returns_def io_bind_def io_of_def)
next
  case (Err e)
  then obtain s where "e = denied s"
    using select_denied unfolding select_embedded_def by blast
  then show ?thesis
    by (simp add: recheck_def Err timely_def returns_def io_bind_def io_of_def denied_def)
qed

lemma reconnect_for_diligent:
  assumes "ticking os time"
  shows "diligent (\<lambda>v. time (snd v)) (reconnect_for os em l wait) (s, w)"
proof -
  have "patient time (if ss_active s then recheck os em (ss_metadata s) else io_of (Ok ())) w"
    using recheck_patient [OF assms] patient_of [of "Ok ()" time w] by simp
  then have "diligent time (reverify os em s) w"
    unfolding reverify_def by (rule patient_then) (rule revalidate_diligent [OF assms])
  then have "diligent time (admission_deadline_after os wait (reverify os em s)) w"
    unfolding admission_deadline_after_def io_seq_def by (rule diligent_bind) (intro returns_intros assms)
  then have "diligent (\<lambda>v. time (snd v)) (io_beside (admission_deadline_after os wait (reverify os em s))) (s, w)"
    by (auto simp: timely_def returns_def io_beside_def)
  then have "diligent (\<lambda>v. time (snd v)) (io_bind (io_beside (admission_deadline_after os wait (reverify os em s)))
      (reconnect_verified os l)) (s, w)"
    by (rule diligent_bind) (use reconnect_verified_returns [OF assms] in \<open>auto simp: split_paired_all\<close>)
  then show ?thesis
    by (simp add: timely_def returns_def reconnect_for_def)
qed

lemma reconnect_session_returns:
  assumes "ticking os time" and "\<And>w. T \<le> time w \<Longrightarrow> stop w"
  shows "\<exists>r s' h' w'. reconnect_session os em env stop l s h w = Some (r, s', h', w')"
proof (induction "T - time w" arbitrary: s w rule: less_induct)
  case less
  show ?case
  proof (cases "stop w")
    case True
    then show ?thesis by (subst reconnect_session.simps) simp
  next
    case False
    then have "time w < T" using assms(2) [of w] by (meson not_le)
    obtain r s1 w1 where r: "reconnect_for os em l 100000000 (s, w) = Some (r, s1, w1)"
      and t: "time w < time w1 \<or> (case r of Ok _ \<Rightarrow> False | Err e \<Rightarrow> kind_of e \<noteq> TimedOutKind)"
      using reconnect_for_diligent [OF assms(1), of em l 100000000 s w] by (auto simp: timely_def returns_def)
    have "\<exists>r s' h' w'. reconnect_session os em env stop l s1 h w1 = Some (r, s', h', w')" if "time w < time w1"
      by (rule less) (use that \<open>time w < T\<close> in simp)
    with False r t show ?thesis
      by (subst reconnect_session.simps) (cases r; auto split: prod.splits)
  qed
qed

section \<open>Properties\<close>

lemma matching_new_quiet:
  assumes "load_from_file rd toml p path = Ok cfg"
  shows "quiet None (ms_tx (matching_new cfg))"
proof -
  obtain rules where "c_rules cfg = rule_set_new rules"
    using load_rules [OF assms] by blast
  then show ?thesis
    using tx_inv_initial [of rules]
    by (simp add: quiet_def tx_ok_def matching_new_def bound_to_def transactions_default_def)
qed

lemma install_quiet:
  assumes "quiet None (ms_tx s)" and "install_admitted toml content features s = (r, s')"
  shows "quiet None (ms_tx s')"
proof (cases "s' = s")
  case False
  with assms(2) obtain cfg where c: "load_from_file (\<lambda>_. content) toml Linux [] = Ok cfg"
    "ms_matcher s' = ms_matcher (matching_replace cfg s)"
    "ms_hyprland s' = set_modifier_tap_release (features = TAP_FEATURES) (ms_hyprland (matching_replace cfg s))"
    by (auto simp: install_admitted_def Let_def split: result.splits if_splits)
  have "tx_ok None (ms_tx (matching_replace cfg s))"
    using assms(1) replace_inv [OF _ c(1)] by (simp add: quiet_def)
  moreover have "tx_pending (ms_hyprland (matching_replace cfg s)) = None" by simp
  ultimately show ?thesis
    unfolding quiet_def tx_ok_def c(2,3)
    by (simp add: set_modifier_tap_release_def tx_inv_def pending_token_def bound_to_def del: replace_simps)
qed (use assms in simp)

lemma session_running_inv: "session_running os em env stop l s h w \<Longrightarrow> session_inv s h"
proof (induction rule: session_running.induct)
  case (start rd toml path cfg content a h d w s w' s' h')
  have "hd_inv None h \<and> hd_idle h"
    using install_quiet [OF matching_new_quiet [OF start(1)] start(2)] by (simp add: hd_quiet)
  from installed_bind_inv [OF this start(4)] show ?case by simp
next
  case (pass s h w s' h' w')
  from session_pass_inv [OF pass.IH pass.hyps(3)] show ?case ..
next
  case (again s h w s1 h1 w1 s' h' w')
  from session_pass_inv [OF again.IH again.hyps(3)] reconnect_session_inv [OF again.hyps(4)] show ?case by simp
qed

text \<open>C37: While an installed session runs, with configuration reloads at any moment and connections lost and
  admitted again, every test of its stop flag finds the matcher well formed with no proposal open and no
  delivery pending; and the matcher counts as reconciled only under the nonce of the session's present
  connection, and only while the session is bound to it.\<close>

theorem running_session_sound:
  assumes "session_running os em env stop l s h w"
  shows "matcher_inv (ms_matcher (hd_matching h)) \<and> tx_pending (ms_hyprland (hd_matching h)) = None \<and>
    (\<forall>p. hm_get (m_pending_deliveries (ms_matcher (hd_matching h))) p = None) \<and>
    (\<forall>n. is_reconciled n (ms_hyprland (hd_matching h)) \<longrightarrow> ss_matcher_bound s \<and> n = connection_nonce s)"
  using session_running_inv [OF assms] bound_to_reconciled
  by (auto simp: session_inv_def hd_inv_def hd_idle_def tx_ok_def tx_inv_def pending_token_def split: if_splits)

definition ex_plain_doc :: config_doc where
  "ex_plain_doc = \<lparr>cd_daemon = daemon_section_default, cd_app_aliases = [], cd_input_source_aliases = [], cd_bindings = []\<rparr>"

definition ex_installed_handler :: "unit handler" where
  "ex_installed_handler = \<lparr>hd_matching = snd (install_admitted (\<lambda>_. Ok ex_plain_doc) (Ok []) 3 (matching_new ex_config)),
     hd_sources = None, hd_observation_gap = False, hd_world = ()\<rparr>"

lemma ex_plain_load: "load_from_file (\<lambda>_. Ok []) (\<lambda>_. Ok ex_plain_doc) Linux [] = Ok ex_config"
  by code_simp

lemma ex_bind:
  assumes "connection_nonce s \<noteq> 0"
  shows "\<exists>s' h'. installed_bind ex_env s ex_installed_handler = (Ok (), s', h')"
  using assms
  by (simp add: installed_bind_def bind_matcher_def await_reconciliation_def acquire_def ex_env_def publish_reloads_def
      ex_installed_handler_def install_admitted_def ex_plain_load validate_rules_def rule_set_iter_def ex_config_def
      rule_set_new_def matching_new_def matching_replace_def with_tx_def tx_invalidate_speculation_def
      transactions_default_def set_modifier_tap_release_def Let_def)

theorem running_session_sound_witness:
  "\<exists>s h w. session_running ex_host ex_embedded ex_env (\<lambda>_. False) ex_listener s h w \<and>
     tx_pending (ms_hyprland (hd_matching h)) = None"
proof -
  obtain s w where a: "accept_admitted ex_host ex_embedded ex_listener ex_admitted 1000 0 = Some (Ok s, w)"
    using ex_admission by blast
  then have "connection_nonce s \<noteq> 0"
    by (rule accept_admitted_ok) (auto simp: connection_nonce_def elim!: accept_attempt_ok)
  then obtain s' h' where b: "installed_bind ex_env s ex_installed_handler = (Ok (), s', h')"
    using ex_bind by blast
  have "install_admitted (\<lambda>_. Ok ex_plain_doc) (Ok []) (ad_feature_mask ex_admitted) (matching_new ex_config) =
      (Ok (), hd_matching ex_installed_handler)"
    by (simp add: ex_installed_handler_def install_admitted_def ex_plain_load validate_rules_def rule_set_iter_def
        ex_config_def rule_set_new_def ex_admitted_def Let_def)
  from session_running.start [OF ex_plain_load this a b]
  have "session_running ex_host ex_embedded ex_env (\<lambda>_. False) ex_listener s' h' w" .
  with running_session_sound [OF this] show ?thesis by blast
qed

text \<open>C40: Reconnection ends: on a system where time passes and that is told to stop at some time, the
  reconnection loop of an installed session returns, whatever the peer does.\<close>

theorem reconnection_ends:
  assumes "ticking os time" and "\<And>w. T \<le> time w \<Longrightarrow> stop w"
  shows "\<exists>r s' h' w'. reconnect_session os em env stop l s h w = Some (r, s', h', w')"
  using reconnect_session_returns [OF assms] .

theorem reconnection_ends_witness:
  "\<exists>r s' h' w'. reconnect_session ex_os ex_embedded ex_env (\<lambda>w. 100 \<le> w) ex_listener
     \<lparr>ss_bridge = ex_bridge, ss_metadata = ex_metadata, ss_matcher_bound = False, ss_active = True, ss_qualification = Supported\<rparr>
     ex_installed_handler 0 = Some (r, s', h', w')"
  using reconnection_ends [OF ex_os_ticking, of 100 "\<lambda>w. 100 \<le> w"] by simp

end
