(* ===== verification/Macos.thy ===== *)
theory Macos
  imports Sink
begin

unbundle bit_operations_syntax

text \<open>
  The parts of the macOS backend that are not calls to the system: key codes (\<^verbatim>\<open>packages/macos/src/keycode.rs\<close>),
  the event tap's translation and verdict (\<^verbatim>\<open>tap.rs\<close>), key injection (\<^verbatim>\<open>inject.rs\<close>) and the input-source worker
  (\<^verbatim>\<open>input_source_worker.rs\<close>, \<^verbatim>\<open>tis.rs\<close>). The frameworks are parameters,
  and so are the flag masks of the graphics library.
\<close>

section \<open>Key codes\<close>

definition CG_KEYS :: "(16 word \<times> key_code) list" where
  "CG_KEYS = [
     (0x00, KeyA), (0x0B, KeyB), (0x08, KeyC), (0x02, KeyD), (0x0E, KeyE), (0x03, KeyF), (0x05, KeyG),
     (0x04, KeyH), (0x22, KeyI), (0x26, KeyJ), (0x28, KeyK), (0x25, KeyL), (0x2E, KeyM), (0x2D, KeyN),
     (0x1F, KeyO), (0x23, KeyP), (0x0C, KeyQ), (0x0F, KeyR), (0x01, KeyS), (0x11, KeyT), (0x20, KeyU),
     (0x09, KeyV), (0x0D, KeyW), (0x07, KeyX), (0x10, KeyY), (0x06, KeyZ), (0x1D, Digit0), (0x12, Digit1),
     (0x13, Digit2), (0x14, Digit3), (0x15, Digit4), (0x17, Digit5), (0x16, Digit6), (0x1A, Digit7),
     (0x1C, Digit8), (0x19, Digit9), (0x7A, F1), (0x78, F2), (0x63, F3), (0x76, F4), (0x60, F5), (0x61, F6),
     (0x62, F7), (0x64, F8), (0x65, F9), (0x6D, F10), (0x67, F11), (0x6F, F12), (0x69, F13), (0x6B, F14),
     (0x71, F15), (0x6A, F16), (0x40, F17), (0x4F, F18), (0x50, F19), (0x5A, F20), (0x7E, ArrowUp),
     (0x7D, ArrowDown), (0x7B, ArrowLeft), (0x7C, ArrowRight), (0x38, LeftShift), (0x3C, RightShift),
     (0x3B, LeftCtrl), (0x3E, RightCtrl), (0x3A, LeftAlt), (0x3D, RightAlt), (0x37, LeftCmd), (0x36, RightCmd),
     (0x3F, Fn), (0x39, CapsLock), (0x24, Return), (0x30, Tab), (0x31, Space), (0x33, Backspace),
     (0x75, Delete), (0x35, Escape), (0x29, Semicolon), (0x27, Quote), (0x2B, Comma), (0x2F, Period),
     (0x2C, Slash), (0x2A, Backslash), (0x32, Backquote), (0x1B, Minus), (0x18, Equal), (0x21, LeftBracket),
     (0x1E, RightBracket), (0x73, Home), (0x77, End), (0x74, PageUp), (0x79, PageDown), (0x72, Insert)]"

definition from_cg_keycode :: "16 word \<Rightarrow> key_code option" where
  "from_cg_keycode kc = map_of CG_KEYS kc"

definition to_cg_keycode :: "key_code \<Rightarrow> 16 word" where
  "to_cg_keycode c = (case c of
       KeyA \<Rightarrow> 0x00 | KeyB \<Rightarrow> 0x0B | KeyC \<Rightarrow> 0x08 | KeyD \<Rightarrow> 0x02
     | KeyE \<Rightarrow> 0x0E | KeyF \<Rightarrow> 0x03 | KeyG \<Rightarrow> 0x05 | KeyH \<Rightarrow> 0x04
     | KeyI \<Rightarrow> 0x22 | KeyJ \<Rightarrow> 0x26 | KeyK \<Rightarrow> 0x28 | KeyL \<Rightarrow> 0x25
     | KeyM \<Rightarrow> 0x2E | KeyN \<Rightarrow> 0x2D | KeyO \<Rightarrow> 0x1F | KeyP \<Rightarrow> 0x23
     | KeyQ \<Rightarrow> 0x0C | KeyR \<Rightarrow> 0x0F | KeyS \<Rightarrow> 0x01 | KeyT \<Rightarrow> 0x11
     | KeyU \<Rightarrow> 0x20 | KeyV \<Rightarrow> 0x09 | KeyW \<Rightarrow> 0x0D | KeyX \<Rightarrow> 0x07
     | KeyY \<Rightarrow> 0x10 | KeyZ \<Rightarrow> 0x06 | Digit0 \<Rightarrow> 0x1D | Digit1 \<Rightarrow> 0x12
     | Digit2 \<Rightarrow> 0x13 | Digit3 \<Rightarrow> 0x14 | Digit4 \<Rightarrow> 0x15 | Digit5 \<Rightarrow> 0x17
     | Digit6 \<Rightarrow> 0x16 | Digit7 \<Rightarrow> 0x1A | Digit8 \<Rightarrow> 0x1C | Digit9 \<Rightarrow> 0x19
     | F1 \<Rightarrow> 0x7A | F2 \<Rightarrow> 0x78 | F3 \<Rightarrow> 0x63 | F4 \<Rightarrow> 0x76 | F5 \<Rightarrow> 0x60
     | F6 \<Rightarrow> 0x61 | F7 \<Rightarrow> 0x62 | F8 \<Rightarrow> 0x64 | F9 \<Rightarrow> 0x65
     | F10 \<Rightarrow> 0x6D | F11 \<Rightarrow> 0x67 | F12 \<Rightarrow> 0x6F | F13 \<Rightarrow> 0x69
     | F14 \<Rightarrow> 0x6B | F15 \<Rightarrow> 0x71 | F16 \<Rightarrow> 0x6A | F17 \<Rightarrow> 0x40
     | F18 \<Rightarrow> 0x4F | F19 \<Rightarrow> 0x50 | F20 \<Rightarrow> 0x5A | ArrowUp \<Rightarrow> 0x7E
     | ArrowDown \<Rightarrow> 0x7D | ArrowLeft \<Rightarrow> 0x7B | ArrowRight \<Rightarrow> 0x7C
     | LeftShift \<Rightarrow> 0x38 | RightShift \<Rightarrow> 0x3C | LeftCtrl \<Rightarrow> 0x3B
     | RightCtrl \<Rightarrow> 0x3E | LeftAlt \<Rightarrow> 0x3A | RightAlt \<Rightarrow> 0x3D | LeftCmd \<Rightarrow> 0x37
     | RightCmd \<Rightarrow> 0x36 | Fn \<Rightarrow> 0x3F | CapsLock \<Rightarrow> 0x39 | Return \<Rightarrow> 0x24
     | Tab \<Rightarrow> 0x30 | Space \<Rightarrow> 0x31 | Backspace \<Rightarrow> 0x33 | Delete \<Rightarrow> 0x75
     | Escape \<Rightarrow> 0x35 | Semicolon \<Rightarrow> 0x29 | Quote \<Rightarrow> 0x27 | Comma \<Rightarrow> 0x2B
     | Period \<Rightarrow> 0x2F | Slash \<Rightarrow> 0x2C | Backslash \<Rightarrow> 0x2A | Backquote \<Rightarrow> 0x32
     | Minus \<Rightarrow> 0x1B | Equal \<Rightarrow> 0x18 | LeftBracket \<Rightarrow> 0x21
     | RightBracket \<Rightarrow> 0x1E | Home \<Rightarrow> 0x73 | End \<Rightarrow> 0x77 | PageUp \<Rightarrow> 0x74
     | PageDown \<Rightarrow> 0x79 | Insert \<Rightarrow> 0x72
     | F21 \<Rightarrow> 0 | F22 \<Rightarrow> 0 | F23 \<Rightarrow> 0 | F24 \<Rightarrow> 0)"

definition mapped_cg_keycode :: "key_code \<Rightarrow> 16 word option" where
  "mapped_cg_keycode c = (if c \<in> {F21, F22, F23, F24} then None else Some (to_cg_keycode c))"

section \<open>Flags\<close>

record cg_flag_masks =
  fm_control :: "64 word"
  fm_shift :: "64 word"
  fm_alternate :: "64 word"
  fm_command :: "64 word"
  fm_secondary_fn :: "64 word"

definition flag_if :: "bool \<Rightarrow> 'a::len word \<Rightarrow> 'a word" where
  "flag_if c flag = (if c then flag else 0)"

definition flags_to_mods :: "cg_flag_masks \<Rightarrow> 64 word \<Rightarrow> modifiers" where
  "flags_to_mods F flags = mods_empty
     OR flag_if (flags AND fm_control F = fm_control F) CTRL
     OR flag_if (flags AND fm_shift F = fm_shift F) SHIFT
     OR flag_if (flags AND fm_alternate F = fm_alternate F) ALT
     OR flag_if (flags AND fm_command F = fm_command F) CMD
     OR flag_if (flags AND fm_secondary_fn F = fm_secondary_fn F) FN
     OR flag_if (flags AND 0x1 \<noteq> 0) LEFT_CTRL OR flag_if (flags AND 0x2000 \<noteq> 0) RIGHT_CTRL
     OR flag_if (flags AND 0x2 \<noteq> 0) LEFT_SHIFT OR flag_if (flags AND 0x4 \<noteq> 0) RIGHT_SHIFT
     OR flag_if (flags AND 0x20 \<noteq> 0) LEFT_ALT OR flag_if (flags AND 0x40 \<noteq> 0) RIGHT_ALT
     OR flag_if (flags AND 0x8 \<noteq> 0) LEFT_CMD OR flag_if (flags AND 0x10 \<noteq> 0) RIGHT_CMD"

definition mods_to_cg_flags :: "cg_flag_masks \<Rightarrow> modifiers \<Rightarrow> 64 word" where
  "mods_to_cg_flags F m = 0 OR flag_if (mods_contains m CTRL) (fm_control F) OR flag_if (mods_contains m SHIFT) (fm_shift F)
     OR flag_if (mods_contains m ALT) (fm_alternate F) OR flag_if (mods_contains m CMD) (fm_command F)
     OR flag_if (mods_contains m FN) (fm_secondary_fn F)"

section \<open>The tap\<close>

record cg_event =
  cg_type :: "32 word"
  cg_user_data :: "64 word"
  cg_keycode :: "64 word"
  cg_flags :: "64 word"

definition SLEDGE_EVENT_SOURCE_TAG :: "64 word" where
  "SLEDGE_EVENT_SOURCE_TAG = 0x51ED6E001"

datatype tap_verdict = TapPass | TapSwallow

definition translate :: "cg_flag_masks \<Rightarrow> event_kind \<Rightarrow> cg_event \<Rightarrow> key_event option" where
  "translate F k event = map_option (\<lambda>c. \<lparr>code = c, kind = k, mods = flags_to_mods F (cg_flags event)\<rparr>)
     (from_cg_keycode (ucast (cg_keycode event)))"

type_synonym 'k on_event = "key_event \<Rightarrow> string option \<Rightarrow> 'k \<Rightarrow> (backend_verdict \<times> 'k) option"

definition handle_event ::
  "cg_flag_masks \<Rightarrow> 'k on_event \<Rightarrow> event_kind \<Rightarrow> cg_event \<Rightarrow> string option \<Rightarrow> 'k option \<Rightarrow> (tap_verdict \<times> 'k option) option" where
  "handle_event F notify k event focused sink =
     (if cg_user_data event = SLEDGE_EVENT_SOURCE_TAG then Some (TapPass, sink)
      else (case translate F k event of
          None \<Rightarrow> Some (TapPass, sink)
        | Some e \<Rightarrow> (case sink of
              None \<Rightarrow> Some (TapPass, sink)
            | Some s \<Rightarrow> map_option (\<lambda>(verdict, s). (case verdict of PassEvent \<Rightarrow> TapPass | SwallowEvent \<Rightarrow> TapSwallow, Some s))
                (notify e focused s))))"

text \<open>The notifications that the tap was disabled are not in the table of types and pass like every other unknown
  type.\<close>

definition tap_trampoline ::
  "cg_flag_masks \<Rightarrow> 'k on_event \<Rightarrow> cg_event \<Rightarrow> string option \<Rightarrow> 'k option \<Rightarrow> (tap_verdict \<times> 'k option) option" where
  "tap_trampoline F notify event focused sink =
     (if cg_type event = 10 then handle_event F notify KeyDown event focused sink
      else if cg_type event = 11 then handle_event F notify KeyUp event focused sink
      else if cg_type event = 12 then handle_event F notify ModifiersChanged event focused sink
      else Some (TapPass, sink))"

section \<open>Injection\<close>

record 'w graphics =
  gr_source :: "'w \<Rightarrow> bool \<times> 'w"
  gr_keyboard_event :: "16 word \<Rightarrow> bool \<Rightarrow> 'w \<Rightarrow> cg_event option \<times> 'w"
  gr_post :: "cg_event \<Rightarrow> 'w \<Rightarrow> 'w"
  gr_debug :: "key_code \<Rightarrow> string"

definition stamp_userdata :: "cg_event \<Rightarrow> cg_event" where
  "stamp_userdata event = event\<lparr>cg_user_data := SLEDGE_EVENT_SOURCE_TAG\<rparr>"

definition post_key ::
  "'w graphics \<Rightarrow> 64 word \<Rightarrow> 16 word \<Rightarrow> bool \<Rightarrow> string \<Rightarrow> 'w \<Rightarrow> (unit, backend_error) result \<times> 'w" where
  "post_key gr flags cg_key down failure w = (case gr_keyboard_event gr cg_key down w of
      (None, w) \<Rightarrow> (Err (InjectError failure), w)
    | (Some event, w) \<Rightarrow> (Ok (), gr_post gr (stamp_userdata (event\<lparr>cg_flags := flags\<rparr>)) w))"

definition send_key ::
  "cg_flag_masks \<Rightarrow> 'w graphics \<Rightarrow> key_code \<Rightarrow> modifiers \<Rightarrow> 'w \<Rightarrow> (unit, backend_error) result \<times> 'w" where
  "send_key F gr key m w = (case gr_source gr w of (ok, w) \<Rightarrow>
     if \<not> ok then (Err (InjectError ''CGEventSourceCreate failed''), w)
     else (case mapped_cg_keycode key of
         None \<Rightarrow> (Err (InjectError (''no CGKeyCode mapping for '' @ gr_debug gr key)), w)
       | Some cg_key \<Rightarrow>
           let flags = mods_to_cg_flags F m in
           (case post_key gr flags cg_key True ''CGEventCreateKeyboardEvent (down) failed'' w of
              (Err e, w) \<Rightarrow> (Err e, w)
            | (Ok _, w) \<Rightarrow> post_key gr flags cg_key False ''CGEventCreateKeyboardEvent (up) failed'' w)))"

text \<open>The worker's queue: the ids waiting, and whether the worker is there and still receiving.\<close>

definition QUEUE_CAPACITY :: nat where "QUEUE_CAPACITY = 32"

record source_worker =
  sw_started :: bool
  sw_receiving :: bool
  sw_queue :: "string list"

definition enqueue :: "string \<Rightarrow> source_worker \<Rightarrow> (unit, backend_error) result \<times> source_worker" where
  "enqueue ident q =
     (if \<not> sw_started q then (Err (InjectError ''input-source worker unavailable''), q)
      else if \<not> sw_receiving q then (Err (InjectError ''input-source worker stopped''), q)
      else if QUEUE_CAPACITY \<le> length (sw_queue q) then (Err (InjectError ''input-source queue full''), q)
      else (Ok (), q\<lparr>sw_queue := sw_queue q @ [ident]\<rparr>))"

definition macos_inject ::
  "cg_flag_masks \<Rightarrow> 'w graphics \<Rightarrow> action \<Rightarrow> source_worker \<Rightarrow> 'w \<Rightarrow> (unit, backend_error) result \<times> source_worker \<times> 'w" where
  "macos_inject F gr action q w = (case action of
      SendKey key m \<Rightarrow> (case send_key F gr key m w of (r, w) \<Rightarrow> (r, q, w))
    | SetInputSource ident \<Rightarrow> (case enqueue ident q of (r, q) \<Rightarrow> (r, q, w)))"

text \<open>The text input sources: the installed sources with an id, whether one is enabled where that is known, and
  selecting it.\<close>

record ('i, 'w) text_input =
  ti_list :: "string \<Rightarrow> 'w \<Rightarrow> 'i option list option \<times> 'w"
  ti_enabled :: "'i \<Rightarrow> 'w \<Rightarrow> bool option \<times> 'w"
  ti_select :: "'i \<Rightarrow> 'w \<Rightarrow> 32 word \<times> 'w"

definition show_status :: "32 word \<Rightarrow> string" where
  "show_status v = (if sint v < 0 then CHR ''-'' # show_nat (nat (- sint v)) else show_nat (nat (sint v)))"

definition set_input_source :: "('i, 'w) text_input \<Rightarrow> string \<Rightarrow> 'w \<Rightarrow> (unit, backend_error) result \<times> 'w" where
  "set_input_source ti ident w = (case ti_list ti ident w of
      (None, w) \<Rightarrow> (Err (UnknownInputSourceError ident), w)
    | (Some [], w) \<Rightarrow> (Err (UnknownInputSourceError ident), w)
    | (Some (None # _), w) \<Rightarrow> (Err (UnknownInputSourceError ident), w)
    | (Some (Some source # _), w) \<Rightarrow> (case ti_enabled ti source w of (enabled, w) \<Rightarrow>
        if enabled = Some False
        then (Err (InjectError (''input source '' @ [CHR 0x27] @ ident @ [CHR 0x27] @ '' is installed but not enabled. '' @
          ''Enable it via System Settings > Keyboard > Text Input > Input Sources.'')), w)
        else (case ti_select ti source w of (rc, w) \<Rightarrow>
          if rc = 0 then (Ok (), w)
          else (Err (InjectError (''TISSelectInputSource returned '' @ show_status rc @ '' for '' @ [CHR 0x27] @ ident @ [CHR 0x27])), w))))"

section \<open>Key codes and flags round-trip\<close>

lemma CG_KEYS_distinct: "distinct (map fst CG_KEYS)"
  by (simp add: CG_KEYS_def)

lemma cg_keycode_roundtrip: "mapped_cg_keycode c = Some kc \<Longrightarrow> from_cg_keycode kc = Some c"
  by (cases c) (auto simp: mapped_cg_keycode_def to_cg_keycode_def from_cg_keycode_def CG_KEYS_def)

text \<open>What is relied on of the masks: they are not empty, no two share a bit, and none shares one with the
  device-dependent side bits.\<close>

definition masks_separate :: "cg_flag_masks \<Rightarrow> bool" where
  "masks_separate F \<longleftrightarrow>
     sorted_wrt (\<lambda>a b. a AND b = 0)
       [fm_control F, fm_shift F, fm_alternate F, fm_command F, fm_secondary_fn F, 0x207F] \<and>
     0 \<notin> {fm_control F, fm_shift F, fm_alternate F, fm_command F, fm_secondary_fn F}"

definition generic_mods :: "modifiers \<Rightarrow> modifiers" where
  "generic_mods m = flag_if (mods_contains m CTRL) CTRL OR flag_if (mods_contains m SHIFT) SHIFT OR
     flag_if (mods_contains m ALT) ALT OR flag_if (mods_contains m CMD) CMD OR flag_if (mods_contains m FN) FN"

lemma flag_if_and: "flag_if c a AND b = flag_if c (a AND b)" "flag_if c 0 = 0"
  by (simp_all add: flag_if_def)

lemma and_swap: "a AND b = 0 \<Longrightarrow> b AND a = 0" for a b :: "'a::len word"
  by (simp add: and.commute)

lemma flags_and:
  assumes "masks_separate F"
  shows "mods_to_cg_flags F m AND fm_control F = flag_if (mods_contains m CTRL) (fm_control F)"
    "mods_to_cg_flags F m AND fm_shift F = flag_if (mods_contains m SHIFT) (fm_shift F)"
    "mods_to_cg_flags F m AND fm_alternate F = flag_if (mods_contains m ALT) (fm_alternate F)"
    "mods_to_cg_flags F m AND fm_command F = flag_if (mods_contains m CMD) (fm_command F)"
    "mods_to_cg_flags F m AND fm_secondary_fn F = flag_if (mods_contains m FN) (fm_secondary_fn F)"
    "mods_to_cg_flags F m AND 0x207F = 0"
proof -
  note disjoint = assms [unfolded masks_separate_def, simplified]
  from disjoint show
    "mods_to_cg_flags F m AND fm_control F = flag_if (mods_contains m CTRL) (fm_control F)"
    "mods_to_cg_flags F m AND fm_shift F = flag_if (mods_contains m SHIFT) (fm_shift F)"
    "mods_to_cg_flags F m AND fm_alternate F = flag_if (mods_contains m ALT) (fm_alternate F)"
    "mods_to_cg_flags F m AND fm_command F = flag_if (mods_contains m CMD) (fm_command F)"
    "mods_to_cg_flags F m AND fm_secondary_fn F = flag_if (mods_contains m FN) (fm_secondary_fn F)"
    "mods_to_cg_flags F m AND 0x207F = 0"
    by (simp_all add: mods_to_cg_flags_def bit.conj_disj_distrib2 flag_if_and and_swap)
qed

lemma no_side_bits:
  assumes "f AND 0x207F = 0" and "0x207F AND b = b"
  shows "f AND b = (0 :: 64 word)"
  using assms by (metis and.assoc bit.conj_zero_left)

lemma flag_if_self: "a \<noteq> 0 \<Longrightarrow> flag_if c a = a \<longleftrightarrow> c"
  by (simp add: flag_if_def)

lemma flags_roundtrip:
  assumes "masks_separate F"
  shows "flags_to_mods F (mods_to_cg_flags F m) = generic_mods m"
proof -
  have "fm_control F \<noteq> 0" "fm_shift F \<noteq> 0" "fm_alternate F \<noteq> 0" "fm_command F \<noteq> 0" "fm_secondary_fn F \<noteq> 0"
    using assms by (auto simp: masks_separate_def)
  then show ?thesis
    by (simp add: flags_to_mods_def generic_mods_def flags_and [OF assms] flag_if_self mods_empty_def
        no_side_bits [OF flags_and(6) [OF assms]]) (simp add: flag_if_def)
qed

section \<open>Properties\<close>

text \<open>What is relied on of the graphics calls: posting an event appends it to what the tap will see, nothing else does,
  and a keyboard event has the type and key code it was made for.\<close>

definition posting :: "('w \<Rightarrow> cg_event list) \<Rightarrow> 'w graphics \<Rightarrow> bool" where
  "posting log gr \<longleftrightarrow>
     (\<forall>w ok w'. gr_source gr w = (ok, w') \<longrightarrow> log w' = log w) \<and>
     (\<forall>kc down w e w'. gr_keyboard_event gr kc down w = (e, w') \<longrightarrow> log w' = log w \<and>
        (\<forall>event. e = Some event \<longrightarrow> cg_keycode event = ucast kc \<and> cg_type event = (if down then 10 else 11))) \<and>
     (\<forall>event w. log (gr_post gr event w) = log w @ [event])"

definition own_event :: "cg_flag_masks \<Rightarrow> key_code \<Rightarrow> modifiers \<Rightarrow> bool \<Rightarrow> cg_event \<Rightarrow> bool" where
  "own_event F key m down event \<longleftrightarrow> cg_user_data event = SLEDGE_EVENT_SOURCE_TAG \<and> cg_type event = (if down then 10 else 11) \<and>
     translate F (if down then KeyDown else KeyUp) event =
       Some \<lparr>code = key, kind = (if down then KeyDown else KeyUp), mods = generic_mods m\<rparr>"

lemma post_key_own:
  assumes "posting log gr" and "masks_separate F" and "mapped_cg_keycode key = Some kc"
    and "post_key gr (mods_to_cg_flags F m) kc down failure w = (r, w')"
  shows "if is_ok r then \<exists>event. log w' = log w @ [event] \<and> own_event F key m down event else log w' = log w"
proof -
  obtain e w1 where e: "gr_keyboard_event gr kc down w = (e, w1)" by fastforce
  with assms(1) have "log w1 = log w" and made: "\<And>event. e = Some event \<Longrightarrow> cg_keycode event = ucast kc \<and> cg_type event = (if down then 10 else 11)"
    and post: "\<And>event. log (gr_post gr event w1) = log w1 @ [event]"
    unfolding posting_def by blast+
  have "ucast (ucast kc :: 64 word) = kc"
    by (rule bit_word_eqI) (simp add: bit_simps)
  with cg_keycode_roundtrip [OF assms(3)] flags_roundtrip [OF assms(2), of m] made post assms(4) e \<open>log w1 = log w\<close>
  show ?thesis
    by (cases e) (auto simp: post_key_def stamp_userdata_def own_event_def translate_def)
qed

lemma own_event_passes:
  "own_event F key m down event \<Longrightarrow> tap_trampoline F notify event focused sink = Some (TapPass, sink)"
  by (simp add: own_event_def tap_trampoline_def handle_event_def split: if_splits)

text \<open>C10: Injected keys never reach the rules. A keystroke the backend injects is the press and the release of exactly the
  key asked for, with the generic modifiers asked for, as the tap itself reads them; both pass the tap without the sink
  being consulted, so no rule ever fires on the daemon's own output. If the injection fails, what was posted before is
  at most the press.\<close>

theorem injected_keystroke_passes:
  assumes "posting log gr" and "masks_separate F" and "send_key F gr key m w = (r, w')"
  shows "\<exists>events. log w' = log w @ events \<and>
    list_all2 (\<lambda>down event. own_event F key m down event) (take (length events) [True, False]) events \<and>
    list_all (\<lambda>event. tap_trampoline F notify event focused sink = Some (TapPass, sink)) events \<and>
    (is_ok r \<longleftrightarrow> length events = 2)"
proof -
  obtain ok w1 where src: "gr_source gr w = (ok, w1)" by fastforce
  with assms(1) have log1: "log w1 = log w"
    unfolding posting_def by blast
  show ?thesis
  proof (cases "ok \<and> mapped_cg_keycode key \<noteq> None")
    case True
    then obtain kc where kc: "mapped_cg_keycode key = Some kc" and ok by auto
    obtain r1 w2 where d: "post_key gr (mods_to_cg_flags F m) kc True ''CGEventCreateKeyboardEvent (down) failed'' w1 = (r1, w2)"
      by fastforce
    note down = post_key_own [OF assms(1,2) kc d]
    show ?thesis
    proof (cases r1)
      case (Ok u)
      with down obtain e1 where e1: "log w2 = log w1 @ [e1]" "own_event F key m True e1" by auto
      have u: "post_key gr (mods_to_cg_flags F m) kc False ''CGEventCreateKeyboardEvent (up) failed'' w2 = (r, w')"
        using assms(3) src \<open>ok\<close> kc d Ok by (simp add: send_key_def)
      note up = post_key_own [OF assms(1,2) kc u]
      show ?thesis
      proof (cases "is_ok r")
        case True
        with up obtain e2 where "log w' = log w2 @ [e2]" "own_event F key m False e2" by auto
        with e1 log1 True show ?thesis
          by (intro exI [of _ "[e1, e2]"]) (simp add: own_event_passes)
      next
        case False
        with up e1 log1 show ?thesis
          by (intro exI [of _ "[e1]"]) (simp add: own_event_passes)
      qed
    next
      case (Err e)
      with down log1 assms(3) src \<open>ok\<close> kc d show ?thesis
        by (intro exI [of _ "[]"]) (auto simp: send_key_def)
    qed
  next
    case False
    with assms(3) src log1 show ?thesis
      by (intro exI [of _ "[]"]) (auto simp: send_key_def split: option.splits if_splits)
  qed
qed

text \<open>The masks as they occur in captured events, and a world that is the list of posted events.\<close>

definition ex_masks :: cg_flag_masks where
  "ex_masks = \<lparr>fm_control = 0x40000, fm_shift = 0x20000, fm_alternate = 0x80000, fm_command = 0x100000, fm_secondary_fn = 0x800000\<rparr>"

definition ex_graphics :: "cg_event list graphics" where
  "ex_graphics = \<lparr>gr_source = (\<lambda>w. (True, w)),
     gr_keyboard_event = (\<lambda>kc down w. (Some \<lparr>cg_type = (if down then 10 else 11), cg_user_data = 0, cg_keycode = ucast kc, cg_flags = 0\<rparr>, w)),
     gr_post = (\<lambda>event w. w @ [event]), gr_debug = (\<lambda>_. [])\<rparr>"

theorem injected_keystroke_passes_witness:
  "\<exists>events. snd (send_key ex_masks ex_graphics F1 CMD []) = [] @ events \<and>
    list_all2 (\<lambda>down event. own_event ex_masks F1 CMD down event) (take (length events) [True, False]) events \<and>
    list_all (\<lambda>event. tap_trampoline ex_masks (\<lambda>_ _ (s :: unit). Some (SwallowEvent, s)) event None (Some ()) = Some (TapPass, Some ())) events \<and>
    (is_ok (fst (send_key ex_masks ex_graphics F1 CMD [])) \<longleftrightarrow> length events = 2)"
proof (rule injected_keystroke_passes [where log = "\<lambda>w. w", simplified])
  show "posting (\<lambda>w. w) ex_graphics"
    by (auto simp: posting_def ex_graphics_def)
  show "masks_separate ex_masks"
    by (simp add: masks_separate_def ex_masks_def)
qed simp

end
