(* ===== verification/Spec2Isabelle.thy ===== *)
theory Spec2Isabelle
  imports Isolation Tap_Rules Lifecycle Client Installed Macos
begin

text \<open>
  A verification library for \<^bold>\<open>sledge\<close>, a keyboard-rule daemon written in Rust.

  \<^bold>\<open>The program.\<close> A configuration file lists rules: a trigger (a hotkey, or a modifier tapped a number of
  times within a window), an action (send a key, select an input source) and an optional set of
  applications. A daemon feeds every keyboard event to a matcher, which passes it on, swallows it or replaces
  it by an action. On macOS the events come from an event tap in the daemon. On Linux they come either from
  a privileged broker that owns the physical keyboards, or from a compositor plugin (Hyprland) that asks the daemon about
  each event over a seqpacket socket.

  \<^bold>\<open>Conventions.\<close> A struct is a record whose fields carry a short prefix, an enum a datatype, a fixed-width
  integer a word of its width, a string the list of its UTF-8 bytes. \<^verbatim>\<open>Result\<close> is \<open>result\<close> (Prelude), \<^verbatim>\<open>HashMap\<close> and
  \<^verbatim>\<open>BTreeMap\<close> are association lists reached only through the operations of the locale \<open>hash_map\<close>. \<open>None\<close> as the outcome
  of an operation is a panic or a call that never returns. A system call is a field of a record of functions on an
  abstract world; so are the parsers, hash functions and services outside the repository. Instants and
  durations are natural numbers of nanoseconds.

  \<^bold>\<open>Shared theories.\<close>
  \<^item> Prelude: results, clocks, checked and saturating arithmetic, hash maps.
  \<^item> Machines: locales for step functions (invariants, facts that stay true until an operation ends them,
    counters that only grow, keys used once), interpreted by the components below.
  \<^item> Bytes, Text: little-endian fields, UTF-8, lines, integer parsing, paths.
  \<^item> World: actions on the world with early return, and when they return.

  \<^bold>\<open>The core\<close> (\<^verbatim>\<open>packages/core/src\<close>).
  \<^item> Event (\<^verbatim>\<open>event.rs\<close>, \<^verbatim>\<open>trigger.rs\<close>, \<^verbatim>\<open>action.rs\<close>): key codes, modifier sets and how they match.
  \<^item> Tap_Fsm (\<^verbatim>\<open>tap_fsm.rs\<close>): the tap counter. It refines a specification that reads the history of
    presses and releases.
  \<^item> Matcher (\<^verbatim>\<open>rule.rs\<close>): every public operation of the matcher.
  \<^item> Ownership: each press is free, consumed, pending or forwarded, and every operation refines a transition of that
    abstract owner. From it follow that a consumed press stays silent until its release, that an application never
    sees a release without the press, and the soundness of delivery tokens.
  \<^item> Isolation: operations of one device are unobservable to another (unwinding).
  \<^item> Tap_Rules: which rules fire, over whole event sequences.

  \<^bold>\<open>Configuration and tables.\<close>
  \<^item> Config (\<^verbatim>\<open>packages/config/src\<close>): aliases, validation and compilation into rules; validation accepts exactly
    the valid documents.
  \<^item> Keymap (\<^verbatim>\<open>packages/linux/src/keymap.rs\<close>): the evdev table is a bijection onto the key codes.

  \<^bold>\<open>The Linux broker\<close> (\<^verbatim>\<open>packages/linux/src\<close>).
  \<^item> Broker_Protocol (\<^verbatim>\<open>protocol.rs\<close>): the frame codec accepts exactly the encodings.
  \<^item> Key_State (\<^verbatim>\<open>state.rs\<close>): what the virtual keyboard holds down is known exactly, also when a frame is lost.
  \<^item> Broker_Socket (\<^verbatim>\<open>protocol.rs\<close>): reading and writing a frame under one deadline, which returns.
  \<^item> Authorization (\<^verbatim>\<open>authorization.rs\<close>, \<^verbatim>\<open>logind.rs\<close>): peers, session proofs and the authorities that provide them.
  \<^item> Broker (\<^verbatim>\<open>broker.rs\<close>): admission, pumping and bypass of one keyboard; the key state kept for the virtual keyboard
    is what the device holds.
  \<^item> Lifecycle (\<^verbatim>\<open>lifecycle.rs\<close>, \<^verbatim>\<open>bin/sledge-linux-broker.rs\<close>): discovery, hotplug and the serving loop. A step that fails
    leaves no keyboard captured, and the broker as shipped captures none.
  \<^item> Client (\<^verbatim>\<open>backend.rs\<close>): the daemon's side of the socket. A request is answered once, and the keys the daemon holds for
    a device are those the broker announced.

  \<^bold>\<open>The compositor connection\<close> (\<^verbatim>\<open>packages/linux/src/hyprland\<close>).
  \<^item> Wire (\<^verbatim>\<open>wire.rs\<close>): the 512-byte packet codec is canonical.
  \<^item> Transactions (\<^verbatim>\<open>matcher.rs\<close>): proposals and deliveries on top of the matcher.
  \<^item> Bridge (\<^verbatim>\<open>mod.rs\<close>, \<^verbatim>\<open>causal.rs\<close>): handshake, scopes, sequence numbers, fail-closed steps. Packets are accepted
    once; a retired generation is refused.
  \<^item> Transport (\<^verbatim>\<open>transport.rs\<close>, \<^verbatim>\<open>listener.rs\<close>): deadline-bound loops over system calls, which return.
  \<^item> Metadata, Catalogue, Session (\<^verbatim>\<open>session.rs\<close>, \<^verbatim>\<open>catalogue.rs\<close>): admission of a compositor and the gated
    session.

  \<^bold>\<open>The daemon\<close> (\<^verbatim>\<open>packages/cli/src/daemon.rs\<close> and \<^verbatim>\<open>daemon/\<close>).
  \<^item> Desktop (also \<^verbatim>\<open>packages/linux/src/desktop\<close>): focus and source caches, their expiry, the source queue.
  \<^item> Daemon: the locked matching state, reloads during handlers, the handler the compositor session calls. It is an
    interpretation of the handler contract of Bridge.
  \<^item> Sink: the event sink of the device backends; the verdict returned is the one the matcher has settled.
  \<^item> Installed: the installed and the research session loops.

  \<^bold>\<open>macOS\<close> (\<^verbatim>\<open>packages/macos/src\<close>).
  \<^item> Macos (\<^verbatim>\<open>keycode.rs\<close>, \<^verbatim>\<open>tap.rs\<close>, \<^verbatim>\<open>inject.rs\<close>, \<^verbatim>\<open>input_source_worker.rs\<close>, \<^verbatim>\<open>tis.rs\<close>): key codes and flags, the tap's
    callback, injection and the source queue. What the daemon injects passes its own tap unseen.

  \<^bold>\<open>Loops.\<close> A loop around system calls is a \<open>partial_function\<close>, with \<open>None\<close> for a loop that does not end. Where the code
  has a deadline, termination is proved from the hypothesis that time passes during every call
  (\<open>ticking\<close>); no fuel is used anywhere.

  \<^bold>\<open>Not modelled.\<close> On macOS the installation of the tap, the run loop, the watchdog, focus tracking and
  permissions. The Windows backend, which is a stub. On Linux the desktop providers (Sway, Hyprland focus,
  X11, IBus, Fcitx5, companions) and the control socket. The command line, logging, the status reports and the
  file watcher. Their content is calls to foreign interfaces.
\<close>

end
